(* ===== verification/Corosio_Prelude.thy ===== *)
theory Corosio_Prelude
  imports Main "HOL-Library.Word"
begin

text \<open>
  Shared vocabulary of the development: the machine types of the C++ sources, the error values
  the library reports, byte-level helpers for big-endian encodings, and the character and
  list lemmas that the component proofs use.
\<close>

unbundle bit_operations_syntax

section \<open>Machine types\<close>

type_synonym u8 = "8 word"
type_synonym u16 = "16 word"
type_synonym u32 = "32 word"

text \<open>
  \<^verbatim>\<open>std::errc\<close> values, and the exception classes, that the address and endpoint code reports.
  \<open>out_of_bounds\<close> never occurs in the C++ code: the model returns it where an array access of
  the source would leave its array, so that the absence of such accesses can be stated.
\<close>

datatype errc =
    invalid_argument
  | filename_too_long
  | length_error
  | out_of_bounds

section \<open>Collections\<close>

named_theorems addr_simps \<open>evaluation rules for address characters and bytes\<close>
named_theorems queue_refine \<open>refinement facts of the intrusive containers\<close>
named_theorems timer_inv_simps \<open>unfolding of the timer service invariant\<close>
named_theorems sched_simps \<open>evaluation rules for the scheduler operations\<close>
named_theorems desc_simps \<open>evaluation rules for descriptor state operations\<close>

section \<open>Characters\<close>

text \<open>
  \<open>'0' + v\<close> and the comparisons \<open>c >= '0' && c <= '9'\<close>. A character above 127 is
  negative where \<^verbatim>\<open>char\<close> is signed; it fails the range test in both readings.
\<close>

definition dec_char :: "nat \<Rightarrow> char" where
  "dec_char d = char_of (48 + d)"

definition is_dec :: "char \<Rightarrow> bool" where
  "is_dec c \<longleftrightarrow> (48::nat) \<le> of_char c \<and> of_char c \<le> (57::nat)"

definition dec_val :: "char \<Rightarrow> nat" where
  "dec_val c = of_char c - 48"

lemma is_dec_dec_char [simp, addr_simps]: "d < 10 \<Longrightarrow> is_dec (dec_char d)"
  by (simp add: is_dec_def dec_char_def)

lemma dec_val_dec_char [simp, addr_simps]: "d < 10 \<Longrightarrow> dec_val (dec_char d) = d"
  by (simp add: dec_val_def dec_char_def)

lemma dec_char_dec_val [simp]: "is_dec c \<Longrightarrow> dec_char (dec_val c) = c"
  by (simp add: is_dec_def dec_char_def dec_val_def)

lemma dec_val_less [simp]: "is_dec c \<Longrightarrow> dec_val c < 10"
  by (auto simp: is_dec_def dec_val_def)

definition no_dec_head :: "string \<Rightarrow> bool" where
  "no_dec_head s \<longleftrightarrow> (case s of [] \<Rightarrow> True | c # _ \<Rightarrow> \<not> is_dec c)"

lemma no_dec_head_simps [simp]:
  "no_dec_head []" "no_dec_head (c # s) \<longleftrightarrow> \<not> is_dec c"
  by (simp_all add: no_dec_head_def)

lemma not_is_dec_punct [simp]:
  "\<not> is_dec (CHR ''.'')" "\<not> is_dec (CHR '':'')" "\<not> is_dec (CHR ''['')" "\<not> is_dec (CHR '']'')"
  by (simp_all add: is_dec_def)

lemma dec_char_neq_punct [simp]:
  "d < 10 \<Longrightarrow> dec_char d \<noteq> CHR ''.''" "d < 10 \<Longrightarrow> dec_char d \<noteq> CHR '':''"
  "d < 10 \<Longrightarrow> dec_char d \<noteq> CHR ''[''" "d < 10 \<Longrightarrow> dec_char d \<noteq> CHR '']''"
  using is_dec_dec_char not_is_dec_punct by metis+

section \<open>Bytes\<close>

lemma unat_u8_less [simp]: "unat (b :: u8) < 256"
  using unsigned_less [of b] by simp

lemma unat_u16_less [simp]: "unat (b :: u16) < 65536"
  using unsigned_less [of b] by simp

lemma bit_u8_ge [simp]: "8 \<le> n \<Longrightarrow> \<not> bit (b :: u8) n"
  by (auto dest: bit_imp_le_length)

lemma ff_mask: "(0xff :: 'a :: len word) = mask 8"
  by (simp add: mask_eq_exp_minus_1)

lemma unat_of_nat_u8 [simp]: "n < 256 \<Longrightarrow> unat (of_nat n :: u8) = n"
  by (simp add: unat_of_nat take_bit_nat_eq_self)

end
