(* ===== verification/Ipv4_Address.thy ===== *)
theory Ipv4_Address
  imports Corosio_Prelude
begin

text \<open>
  The class \<^verbatim>\<open>ipv4_address\<close> (ipv4_address.hpp, ipv4_address.cpp): a host-order 32-bit value, its
  byte form, its dotted-decimal printer and the strict parser. A character buffer that the
  source fills through an advancing pointer is the string of the characters written.
\<close>

section \<open>Model\<close>

type_synonym ipv4_address = u32
type_synonym v4_bytes = "u8 \<times> u8 \<times> u8 \<times> u8"

definition v4_max_str_len :: nat where
  "v4_max_str_len = 15"

definition ipv4_of_bytes :: "v4_bytes \<Rightarrow> ipv4_address" where
  "ipv4_of_bytes bytes = (case bytes of (b0, b1, b2, b3) \<Rightarrow>
     push_bit 24 (ucast b0) OR push_bit 16 (ucast b1) OR push_bit 8 (ucast b2) OR ucast b3)"

definition v4_to_bytes :: "ipv4_address \<Rightarrow> v4_bytes" where
  "v4_to_bytes a =
     (ucast (drop_bit 24 a AND 0xff), ucast (drop_bit 16 a AND 0xff),
      ucast (drop_bit 8 a AND 0xff), ucast (a AND 0xff))"

definition v4_write :: "u8 \<Rightarrow> string" where
  "v4_write v0 = (let v = unat v0 in
     if 100 \<le> v then
       (let r = v mod 100 in
        [dec_char (v div 100), dec_char (r div 10), dec_char (r mod 10)])
     else if 10 \<le> v then [dec_char (v div 10), dec_char (v mod 10)]
     else [dec_char v])"

definition v4_print_impl :: "ipv4_address \<Rightarrow> string" where
  "v4_print_impl a =
     v4_write (ucast (drop_bit 24 a AND 0xff)) @ ''.'' @
     v4_write (ucast (drop_bit 16 a AND 0xff)) @ ''.'' @
     v4_write (ucast (drop_bit 8 a AND 0xff)) @ ''.'' @
     v4_write (ucast (a AND 0xff))"

definition v4_to_string :: "ipv4_address \<Rightarrow> string" where
  "v4_to_string a = v4_print_impl a"

definition v4_to_buffer :: "ipv4_address \<Rightarrow> nat \<Rightarrow> errc + string" where
  "v4_to_buffer a dest_size =
     (if dest_size < v4_max_str_len then Inl length_error else Inr (v4_print_impl a))"

definition v4_is_loopback :: "ipv4_address \<Rightarrow> bool" where
  "v4_is_loopback a \<longleftrightarrow> a AND 0xFF000000 = 0x7F000000"

definition v4_is_unspecified :: "ipv4_address \<Rightarrow> bool" where
  "v4_is_unspecified a \<longleftrightarrow> a = 0"

definition v4_is_multicast :: "ipv4_address \<Rightarrow> bool" where
  "v4_is_multicast a \<longleftrightarrow> a AND 0xF0000000 = 0xE0000000"

definition v4_any :: ipv4_address where
  "v4_any = 0"

definition v4_loopback :: ipv4_address where
  "v4_loopback = 0x7F000001"

definition v4_broadcast :: ipv4_address where
  "v4_broadcast = 0xFFFFFFFF"

text \<open>
  The parser threads the unread suffix: \<open>Some (octet, rest)\<close> is a \<open>true\<close> return with the
  iterator at \<open>rest\<close>.
\<close>

definition parse_dec_octet :: "string \<Rightarrow> (u8 \<times> string) option" where
  "parse_dec_octet s = (case s of
     [] \<Rightarrow> None
   | c # it \<Rightarrow>
      if \<not> is_dec c then None
      else
        let v = dec_val c in
        if v = 0 then
          (case it of
             d # _ \<Rightarrow> if is_dec d then None else Some (0, it)
           | [] \<Rightarrow> Some (0, it))
        else
          let more = (case it of
              d # it1 \<Rightarrow>
                if is_dec d then
                  (let v1 = v * 10 + dec_val d in
                   case it1 of
                     e # it2 \<Rightarrow>
                       if is_dec e then
                         (let v2 = v1 * 10 + dec_val e in
                          case it2 of
                            f # _ \<Rightarrow> if is_dec f then None else Some (v2, it2)
                          | [] \<Rightarrow> Some (v2, it2))
                       else Some (v1, it1)
                   | [] \<Rightarrow> Some (v1, it1))
                else Some (v, it)
            | [] \<Rightarrow> Some (v, it))
          in (case more of
                None \<Rightarrow> None
              | Some (v', it') \<Rightarrow> if v' > 255 then None else Some (of_nat v', it')))"

text \<open>The loop over the three remaining octets, each after a dot.\<close>

fun parse_more_octets :: "nat \<Rightarrow> string \<Rightarrow> (u8 list \<times> string) option" where
  "parse_more_octets 0 it = Some ([], it)"
| "parse_more_octets (Suc k) it = (case it of
     [] \<Rightarrow> None
   | c # it1 \<Rightarrow>
       if c \<noteq> CHR ''.'' then None
       else (case parse_dec_octet it1 of
               None \<Rightarrow> None
             | Some (o1, it2) \<Rightarrow>
                 (case parse_more_octets k it2 of
                    None \<Rightarrow> None
                  | Some (os, it3) \<Rightarrow> Some (o1 # os, it3))))"

definition parse_ipv4_address :: "string \<Rightarrow> errc + ipv4_address" where
  "parse_ipv4_address s = (case parse_dec_octet s of
     None \<Rightarrow> Inl invalid_argument
   | Some (o0, it) \<Rightarrow>
       (case parse_more_octets 3 it of
          None \<Rightarrow> Inl invalid_argument
        | Some (os, it') \<Rightarrow>
            if it' \<noteq> [] then Inl invalid_argument
            else Inr (ipv4_of_bytes (o0, os ! 0, os ! 1, os ! 2))))"

definition ipv4_of_string :: "string \<Rightarrow> errc + ipv4_address" where
  "ipv4_of_string s = (case parse_ipv4_address s of
     Inl _ \<Rightarrow> Inl invalid_argument
   | Inr a \<Rightarrow> Inr a)"

section \<open>Bytes\<close>

lemma v4_to_bytes_of_bytes: "v4_to_bytes (ipv4_of_bytes b) = b"
proof -
  obtain b0 b1 b2 b3 where b: "b = (b0, b1, b2, b3)" by (cases b)
  show ?thesis
    unfolding b v4_to_bytes_def ipv4_of_bytes_def prod.case
    by (auto intro!: bit_word_eqI simp: bit_simps ff_mask)
qed

lemma ipv4_of_bytes_to_bytes: "ipv4_of_bytes (v4_to_bytes a) = a"
proof (rule bit_word_eqI)
  fix n
  assume "n < LENGTH(32)"
  then consider "n < 8" | "8 \<le> n \<and> n < 16" | "16 \<le> n \<and> n < 24" | "24 \<le> n \<and> n < 32"
    by fastforce
  then show "bit (ipv4_of_bytes (v4_to_bytes a)) n = bit a n"
    unfolding v4_to_bytes_def ipv4_of_bytes_def prod.case
    by cases (auto simp: bit_simps ff_mask)
qed

lemma v4_print_impl_bytes:
  "v4_print_impl a = (case v4_to_bytes a of (b0, b1, b2, b3) \<Rightarrow>
     v4_write b0 @ ''.'' @ v4_write b1 @ ''.'' @ v4_write b2 @ ''.'' @ v4_write b3)"
  by (simp add: v4_print_impl_def v4_to_bytes_def)

section \<open>One octet\<close>

text \<open>The three shapes of a printed octet, and that every octet has one of them.\<close>

lemma v4_write_1: "d < 10 \<Longrightarrow> v4_write (of_nat d) = [dec_char d]"
  by (simp add: v4_write_def)

lemma v4_write_2:
  assumes "0 < d" "d < 10" "e < 10"
  shows "v4_write (of_nat (d * 10 + e)) = [dec_char d, dec_char e]"
proof -
  define n where "n = d * 10 + e"
  have "n < 100" "10 \<le> n" "n div 10 = d" "n mod 10 = e" using assms by (auto simp: n_def)
  then show ?thesis unfolding n_def [symmetric] by (simp add: v4_write_def)
qed

lemma v4_write_3:
  assumes "0 < d" "e < 10" "f < 10" "100 * d + e * 10 + f \<le> 255"
  shows "v4_write (of_nat (100 * d + e * 10 + f)) = [dec_char d, dec_char e, dec_char f]"
proof -
  define n where "n = 100 * d + e * 10 + f"
  have "n < 256" "100 \<le> n" using assms by (auto simp: n_def)
  moreover have r: "n mod 100 = e * 10 + f"
    using assms mod_mult_self4 [of 100 d "e * 10 + f"] by (simp add: n_def add.assoc)
  moreover have "n div 100 = d" using assms by (simp add: n_def)
  moreover have "n mod 100 div 10 = e" "n mod 100 mod 10 = f" using assms by (simp_all add: r)
  ultimately show ?thesis unfolding n_def [symmetric] by (simp add: v4_write_def Let_def)
qed

lemma octet_shapes [case_names one two three]:
  fixes v :: u8
  obtains d where "d < 10" "v = of_nat d"
  | d e where "0 < d" "d < 10" "e < 10" "v = of_nat (d * 10 + e)"
  | d e f where "0 < d" "e < 10" "f < 10" "100 * d + e * 10 + f \<le> 255"
      "v = of_nat (100 * d + e * 10 + f)"
proof -
  define n where "n = unat v"
  have n: "n < 256" and v: "v = of_nat n" by (simp_all add: n_def)
  consider "n < 10" | "10 \<le> n" "n < 100" | "100 \<le> n" by linarith
  then show thesis
  proof cases
    case 1
    then show thesis using v by (rule that(1))
  next
    case 2
    then have "0 < n div 10" "n div 10 < 10" "n mod 10 < 10" by auto
    with v show thesis using that(2) [of "n div 10" "n mod 10"] by simp
  next
    case 3
    then have "0 < n div 100" "n mod 100 div 10 < 10" "n mod 100 mod 10 < 10" by auto
    moreover have eq: "100 * (n div 100) + n mod 100 div 10 * 10 + n mod 100 mod 10 = n"
      using div_mult_mod_eq [of "n mod 100" 10] div_mult_mod_eq [of n 100] by linarith
    ultimately show thesis using that(3) [of "n div 100" "n mod 100 div 10" "n mod 100 mod 10"] n v
      unfolding eq by simp
  qed
qed

lemma parse_dec_octet_write:
  assumes "no_dec_head rest"
  shows "parse_dec_octet (v4_write v @ rest) = Some (v, rest)"
proof (cases v rule: octet_shapes)
  case (one d)
  then show ?thesis using assms
    by (cases rest) (simp_all add: v4_write_1 parse_dec_octet_def)
next
  case (two d e)
  then show ?thesis using assms
    by (cases rest) (simp_all add: v4_write_2 parse_dec_octet_def del: of_nat_add of_nat_mult)
next
  case (three d e f)
  then have "d < 10" by simp
  with three show ?thesis using assms
    by (cases rest) (simp_all add: v4_write_3 parse_dec_octet_def del: of_nat_add of_nat_mult)
qed

text \<open>
  What a successful octet parse has read: exactly the printed form of the value, so a leading
  zero, a fourth digit or a value over 255 is rejected.
\<close>

lemma v4_write_zero: "v4_write 0 = [dec_char 0]"
  using v4_write_1 [of 0] by simp

lemma dec_char_0D: "is_dec c \<Longrightarrow> dec_val c = 0 \<Longrightarrow> c = dec_char 0"
  using dec_char_dec_val [of c] by simp

lemma parse_dec_octet_SomeD:
  assumes "parse_dec_octet s = Some (v, rest)"
  shows "s = v4_write v @ rest \<and> no_dec_head rest"
  using assms
  by (auto simp: parse_dec_octet_def Let_def v4_write_1 v4_write_2 v4_write_3 v4_write_zero
      simp del: of_nat_add of_nat_mult
      dest: dec_char_0D split: list.splits if_splits)

section \<open>The whole address\<close>

abbreviation dotted :: "u8 list \<Rightarrow> string" where
  "dotted os \<equiv> concat (map (\<lambda>b. CHR ''.'' # v4_write b) os)"

lemma no_dec_head_dotted [simp]: "no_dec_head rest \<Longrightarrow> no_dec_head (dotted os @ rest)"
  by (cases os) auto

lemma parse_more_octets_dotted:
  "no_dec_head rest \<Longrightarrow> parse_more_octets (length os) (dotted os @ rest) = Some (os, rest)"
  by (induction os) (simp_all add: parse_dec_octet_write)

lemma parse_more_octets_SomeD:
  "parse_more_octets k it = Some (os, it') \<Longrightarrow> length os = k \<and> it = dotted os @ it'"
proof (induction k it arbitrary: os it' rule: parse_more_octets.induct)
  case (1 it)
  then show ?case by simp
next
  case (2 k it)
  from "2.prems" obtain it1 o1 it2 os' where
    it: "it = CHR ''.'' # it1" and o1: "parse_dec_octet it1 = Some (o1, it2)"
    and os': "parse_more_octets k it2 = Some (os', it')" and os: "os = o1 # os'"
    by (auto split: list.splits if_splits option.splits prod.splits)
  have "length os' = k \<and> it2 = dotted os' @ it'"
    using "2.IH" it o1 os' by auto
  with it os parse_dec_octet_SomeD [OF o1] show ?case by simp
qed

lemma v4_print_dotted:
  "v4_to_bytes a = (b0, b1, b2, b3) \<Longrightarrow> v4_to_string a = v4_write b0 @ dotted [b1, b2, b3]"
  by (simp add: v4_to_string_def v4_print_impl_bytes)

lemma list_of_3: "length os = 3 \<longleftrightarrow> (\<exists>x y z. os = [x, y, z])"
  by (auto simp: numeral_3_eq_3 length_Suc_conv)

lemma parse_ipv4_print: "parse_ipv4_address (v4_to_string a) = Inr a"
proof -
  obtain b0 b1 b2 b3 where b: "v4_to_bytes a = (b0, b1, b2, b3)" by (cases "v4_to_bytes a")
  have "parse_dec_octet (v4_to_string a) = Some (b0, dotted [b1, b2, b3])"
    using parse_dec_octet_write [of "dotted [b1, b2, b3]" b0] b by (simp add: v4_print_dotted)
  moreover have "parse_more_octets 3 (dotted [b1, b2, b3]) = Some ([b1, b2, b3], [])"
    using parse_more_octets_dotted [of "[]" "[b1, b2, b3]"] by (simp add: numeral_3_eq_3)
  moreover have "ipv4_of_bytes (b0, b1, b2, b3) = a"
    using ipv4_of_bytes_to_bytes [of a] b by simp
  ultimately show ?thesis by (simp add: parse_ipv4_address_def del: concat.simps)
qed

lemma parse_ipv4_InrD:
  assumes "parse_ipv4_address s = Inr a"
  shows "s = v4_to_string a"
proof -
  from assms obtain b0 it os where o0: "parse_dec_octet s = Some (b0, it)"
    and os: "parse_more_octets 3 it = Some (os, [])"
    and a: "a = ipv4_of_bytes (b0, os ! 0, os ! 1, os ! 2)"
    by (auto simp: parse_ipv4_address_def split: option.splits prod.splits if_splits)
  from parse_more_octets_SomeD [OF os] obtain b1 b2 b3 where
    "os = [b1, b2, b3]" and it: "it = dotted [b1, b2, b3]"
    by (auto simp: list_of_3)
  with a have "v4_to_bytes a = (b0, b1, b2, b3)"
    by (simp add: v4_to_bytes_of_bytes)
  with parse_dec_octet_SomeD [OF o0] it show ?thesis by (simp add: v4_print_dotted)
qed

lemma length_v4_write: "1 \<le> length (v4_write b)" "length (v4_write b) \<le> 3"
  by (simp_all add: v4_write_def Let_def)

lemma length_v4_to_string: "7 \<le> length (v4_to_string a)" "length (v4_to_string a) \<le> 15"
  using length_v4_write (1) [of "fst (v4_to_bytes a)"]
    length_v4_write (1) [of "fst (snd (v4_to_bytes a))"]
    length_v4_write (1) [of "fst (snd (snd (v4_to_bytes a)))"]
    length_v4_write (1) [of "snd (snd (snd (v4_to_bytes a)))"]
    length_v4_write (2) [of "fst (v4_to_bytes a)"]
    length_v4_write (2) [of "fst (snd (v4_to_bytes a))"]
    length_v4_write (2) [of "fst (snd (snd (v4_to_bytes a)))"]
    length_v4_write (2) [of "snd (snd (snd (v4_to_bytes a)))"]
  by (auto simp: v4_to_string_def v4_print_impl_bytes split: prod.splits)

section \<open>Properties\<close>

text \<open>
  C5: the parser accepts exactly the printed form. Every address is read back from its text, and a
  text that is accepted is the printed form of the address it yields, so leading zeros, signs,
  blanks, missing or extra octets and trailing characters are all refused.
\<close>

theorem ipv4_parse_iff_printed: "parse_ipv4_address s = Inr a \<longleftrightarrow> s = v4_to_string a"
  using parse_ipv4_print parse_ipv4_InrD by blast


end
