(* ===== verification/Ipv6_Address.thy ===== *)
theory Ipv6_Address
  imports Ipv4_Address
begin

text \<open>
  The class \<^verbatim>\<open>ipv6_address\<close> (ipv6_address.hpp, ipv6_address.cpp): sixteen bytes in network order,
  the printer with zero compression and IPv4-mapped tail, and the hand-written parser.

  A pointer range \<open>[first, last)\<close> of the source is the list of the bytes in it, and a position is
  kept beside it where the source subtracts pointers. Every access to the parser's byte array
  goes through \<open>store_bytes\<close> and \<open>load_bytes\<close>, which return \<open>out_of_bounds\<close> instead of leaving the
  array.
\<close>

section \<open>Model\<close>

type_synonym ipv6_address = "u8 list"

abbreviation wf_v6 :: "ipv6_address \<Rightarrow> bool" where
  "wf_v6 a \<equiv> length a = 16"

definition v6_max_str_len :: nat where
  "v6_max_str_len = 49"

definition v6_default :: ipv6_address where
  "v6_default = replicate 16 0"

definition v6_of_v4 :: "ipv4_address \<Rightarrow> ipv6_address" where
  "v6_of_v4 addr = (case v4_to_bytes addr of (v0, v1, v2, v3) \<Rightarrow>
     [0, 0, 0, 0, 0, 0, 0, 0, 0, 0, 0xff, 0xff, v0, v1, v2, v3])"

definition v6_loopback :: ipv6_address where
  "v6_loopback = v6_default[15 := 1]"

definition v6_is_unspecified :: "ipv6_address \<Rightarrow> bool" where
  "v6_is_unspecified a \<longleftrightarrow> a = v6_default"

definition v6_is_loopback :: "ipv6_address \<Rightarrow> bool" where
  "v6_is_loopback a \<longleftrightarrow> a = v6_loopback"

definition v6_is_multicast :: "ipv6_address \<Rightarrow> bool" where
  "v6_is_multicast a \<longleftrightarrow> a ! 0 = 0xff"

definition v6_is_v4_mapped :: "ipv6_address \<Rightarrow> bool" where
  "v6_is_v4_mapped a \<longleftrightarrow>
     a ! 0 = 0 \<and> a ! 1 = 0 \<and> a ! 2 = 0 \<and> a ! 3 = 0 \<and> a ! 4 = 0 \<and> a ! 5 = 0 \<and> a ! 6 = 0 \<and>
     a ! 7 = 0 \<and> a ! 8 = 0 \<and> a ! 9 = 0 \<and> a ! 10 = 0xff \<and> a ! 11 = 0xff"

subsection \<open>Printing\<close>

fun count_zeroes :: "u8 list \<Rightarrow> nat" where
  "count_zeroes (x # y # rest) = (if x \<noteq> 0 \<or> y \<noteq> 0 then 0 else 2 + count_zeroes rest)"
| "count_zeroes _ = 0"

definition hex_dig :: "nat \<Rightarrow> char" where
  "hex_dig k = ''0123456789abcdef'' ! k"

definition print_hex :: "nat \<Rightarrow> string" where
  "print_hex v =
     (if 0x1000 \<le> v then
        (let v1 = v mod 0x1000; v2 = v1 mod 0x100; v3 = v2 mod 0x10 in
         [hex_dig (v div 0x1000), hex_dig (v1 div 0x100), hex_dig (v2 div 0x10), hex_dig v3])
      else if 0x100 \<le> v then
        (let v2 = v mod 0x100; v3 = v2 mod 0x10 in
         [hex_dig (v div 0x100), hex_dig (v2 div 0x10), hex_dig v3])
      else if 0x10 \<le> v then
        (let v3 = v mod 0x10 in [hex_dig (v div 0x10), hex_dig v3])
      else [hex_dig v])"

definition be16 :: "u8 \<Rightarrow> u8 \<Rightarrow> nat" where
  "be16 x y = unat x * 256 + unat y"

text \<open>
  The search for the first longest run of zero words. \<open>pos\<close> is \<open>it - addr_.data()\<close>.
\<close>

function find_run :: "u8 list \<Rightarrow> nat \<Rightarrow> int \<Rightarrow> nat \<Rightarrow> int \<times> nat" where
  "find_run it pos best_pos best_len =
     (if it = [] then (best_pos, best_len)
      else
        let n = count_zeroes it in
        if n = 0 then find_run (drop 2 it) (pos + 2) best_pos best_len
        else if best_len < n then find_run (drop n it) (pos + n) (int pos) n
        else find_run (drop n it) (pos + n) best_pos best_len)"
  by pat_completeness auto
termination
  by (relation "measure (\<lambda>(it, _). length it)") auto

declare find_run.simps [simp del]

text \<open>
  The loop that prints the remaining words. At the chosen run the source advances by
  \<open>best_len\<close>, which is positive whenever \<open>best_pos\<close> is a position; the test \<open>0 < best_len\<close> only
  records that for termination.
\<close>

function print_words :: "u8 list \<Rightarrow> nat \<Rightarrow> int \<Rightarrow> nat \<Rightarrow> string" where
  "print_words it pos best_pos best_len =
     (if it = [] then []
      else if int pos = best_pos \<and> 0 < best_len then
        CHR '':'' #
        (let it' = drop best_len it in
         (if it' = [] then '':'' else []) @ print_words it' (pos + best_len) best_pos best_len)
      else
        CHR '':'' # print_hex (be16 (it ! 0) (it ! 1)) @
        print_words (drop 2 it) (pos + 2) best_pos best_len)"
  by pat_completeness auto
termination
  by (relation "measure (\<lambda>(it, _). length it)") auto

declare print_words.simps [simp del]

definition v6_print_impl :: "ipv6_address \<Rightarrow> string" where
  "v6_print_impl addr =
     (let v4 = v6_is_v4_mapped addr;
          range = (if v4 then take 12 addr else addr);
          (best_pos, best_len) = find_run range 0 (-1) 0;
          words =
            (if best_pos \<noteq> 0 then
               print_hex (be16 (range ! 0) (range ! 1)) @
               print_words (drop 2 range) 2 best_pos best_len
             else
               CHR '':'' #
               (let it = drop best_len range in
                (if it = [] then '':'' else []) @ print_words it best_len best_pos best_len))
      in words @
         (if v4 then
            CHR '':'' #
            v4_print_impl (ipv4_of_bytes (addr ! 12, addr ! 13, addr ! 14, addr ! 15))
          else []))"

definition v6_to_string :: "ipv6_address \<Rightarrow> string" where
  "v6_to_string a = v6_print_impl a"

definition v6_to_buffer :: "ipv6_address \<Rightarrow> nat \<Rightarrow> errc + string" where
  "v6_to_buffer a dest_size =
     (if dest_size < v6_max_str_len then Inl length_error else Inr (v6_print_impl a))"

subsection \<open>Parsing\<close>

definition hexdig_value :: "char \<Rightarrow> int" where
  "hexdig_value c = (let k = of_char c :: nat in
     if 48 \<le> k \<and> k \<le> 57 then int (k - 48)
     else if 97 \<le> k \<and> k \<le> 102 then int (k - 97 + 10)
     else if 65 \<le> k \<and> k \<le> 70 then int (k - 65 + 10)
     else -1)"

text \<open>Up to \<open>k\<close> further hex digits; \<open>(v << 4) | d\<close> is \<open>v * 16 + d\<close> because \<open>d < 16\<close>.\<close>

fun h16_more :: "nat \<Rightarrow> nat \<Rightarrow> string \<Rightarrow> nat \<times> string" where
  "h16_more 0 v it = (v, it)"
| "h16_more (Suc k) v it = (case it of
     [] \<Rightarrow> (v, it)
   | c # it1 \<Rightarrow>
       let d = hexdig_value c in
       if d < 0 then (v, it) else h16_more k (v * 16 + nat d) it1)"

definition parse_h16 :: "string \<Rightarrow> (u8 \<times> u8 \<times> string) option" where
  "parse_h16 s = (case s of
     [] \<Rightarrow> None
   | c # it \<Rightarrow>
       let d = hexdig_value c in
       if d < 0 then None
       else
         (case h16_more 3 (nat d) it of
            (v, it') \<Rightarrow> Some (of_nat (v div 256 mod 256), of_nat (v mod 256), it')))"

definition maybe_octet :: "u8 \<Rightarrow> u8 \<Rightarrow> bool" where
  "maybe_octet p0 p1 = (let word = be16 p0 p1 in
     if word > 0x255 then False
     else if word div 16 mod 16 > 9 then False
     else if word mod 16 > 9 then False
     else True)"

definition store_bytes :: "u8 list \<Rightarrow> int \<Rightarrow> u8 list \<Rightarrow> errc + u8 list" where
  "store_bytes bytes i vs =
     (if 0 \<le> i \<and> nat i + length vs \<le> length bytes
      then Inr (take (nat i) bytes @ vs @ drop (nat i + length vs) bytes)
      else Inl out_of_bounds)"

definition load_bytes :: "u8 list \<Rightarrow> int \<Rightarrow> nat \<Rightarrow> errc + u8 list" where
  "load_bytes bytes i k =
     (if 0 \<le> i \<and> nat i + k \<le> length bytes then Inr (take k (drop (nat i) bytes))
      else Inl out_of_bounds)"

definition bytes4_list :: "v4_bytes \<Rightarrow> u8 list" where
  "bytes4_list b = (case b of (b0, b1, b2, b3) \<Rightarrow> [b0, b1, b2, b3])"

lemma h16_more_length: "h16_more k v it = (v', it') \<Longrightarrow> length it' \<le> length it"
  by (induction k arbitrary: v it)
    (auto simp: Let_def le_SucI split: list.splits if_splits)

lemma parse_h16_length: "parse_h16 it = Some (hi, lo, it') \<Longrightarrow> length it' < length it"
  by (auto simp: parse_h16_def Let_def split: list.splits if_splits prod.splits
      dest!: h16_more_length)

text \<open>
  The main loop. The result is the state at a \<open>break\<close>: the unread input, \<open>n\<close>, \<open>b\<close> and the bytes.
\<close>

function parse_v6_loop ::
    "string \<Rightarrow> string \<Rightarrow> int \<Rightarrow> int \<Rightarrow> bool \<Rightarrow> u8 list \<Rightarrow> errc + (string \<times> int \<times> int \<times> u8 list)" where
  "parse_v6_loop it prev n b c bytes = (case it of
     [] \<Rightarrow> if b \<noteq> -1 then Inr (it, n, b, bytes) else Inl invalid_argument
   | x # it1 \<Rightarrow>
     if x = CHR '':'' then
       (case it1 of
          [] \<Rightarrow> Inl invalid_argument
        | y # it2 \<Rightarrow>
          if y = CHR '':'' then
            (if b = -1 then
               (let n' = n - 1 in
                if n' = 0 then Inr (it2, n', n', bytes)
                else parse_v6_loop it2 prev n' n' False bytes)
             else Inl invalid_argument)
          else if c then
            (case parse_h16 it1 of
               None \<Rightarrow> Inl invalid_argument
             | Some (hi, lo, it3) \<Rightarrow>
               (case store_bytes bytes (2 * (8 - n)) [hi, lo] of
                  Inl e \<Rightarrow> Inl e
                | Inr bytes' \<Rightarrow>
                  (let n' = n - 1 in
                   if n' = 0 then Inr (it3, n', b, bytes')
                   else parse_v6_loop it3 it1 n' b c bytes')))
          else Inl invalid_argument)
     else if x = CHR ''.'' then
       (if b = -1 \<and> n > 1 then Inl invalid_argument
        else
          (case load_bytes bytes (2 * (7 - n)) 2 of
             Inl e \<Rightarrow> Inl e
           | Inr p \<Rightarrow>
             if \<not> maybe_octet (p ! 0) (p ! 1) then Inl invalid_argument
             else
               (case parse_ipv4_address prev of
                  Inl e \<Rightarrow> Inl e
                | Inr _ \<Rightarrow>
                  (let v4_str = takeWhile (\<lambda>ch. ch = CHR ''.'' \<or> is_dec ch) prev;
                       v4_it = dropWhile (\<lambda>ch. ch = CHR ''.'' \<or> is_dec ch) prev in
                   case parse_ipv4_address v4_str of
                     Inl e \<Rightarrow> Inl e
                   | Inr v4_check \<Rightarrow>
                     (case store_bytes bytes (2 * (7 - n)) (bytes4_list (v4_to_bytes v4_check)) of
                        Inl e \<Rightarrow> Inl e
                      | Inr bytes' \<Rightarrow> Inr (v4_it, n - 1, b, bytes'))))))
     else
       (let d = hexdig_value x in
        if b \<noteq> -1 \<and> d < 0 then Inr (it, n, b, bytes)
        else if \<not> c then
          (case parse_h16 it of
             None \<Rightarrow> Inl invalid_argument
           | Some (hi, lo, it3) \<Rightarrow>
             (case store_bytes bytes (2 * (8 - n)) [hi, lo] of
                Inl e \<Rightarrow> Inl e
              | Inr bytes' \<Rightarrow>
                (let n' = n - 1 in
                 if n' = 0 then Inr (it3, n', b, bytes')
                 else parse_v6_loop it3 it n' b True bytes')))
        else Inl invalid_argument))"
  by pat_completeness auto
termination
  by (relation "measure (\<lambda>(it, _). length it)") (auto dest: parse_h16_length)

declare parse_v6_loop.simps [simp del]

text \<open>The expansion of \<open>::\<close> after the loop.\<close>

definition expand_v6 :: "int \<Rightarrow> int \<Rightarrow> u8 list \<Rightarrow> errc + ipv6_address" where
  "expand_v6 b n bytes =
     (if b = -1 then Inr bytes
      else if b = n then
        (let i = 2 * (7 - n) in store_bytes bytes i (replicate (nat (16 - i)) 0))
      else if b = 7 then
        (let i = 2 * (b - n) in
         case load_bytes bytes 2 (nat i) of
           Inl e \<Rightarrow> Inl e
         | Inr seg \<Rightarrow>
           (case store_bytes bytes (16 - i) seg of
              Inl e \<Rightarrow> Inl e
            | Inr bytes' \<Rightarrow> store_bytes bytes' 0 (replicate (nat (16 - i)) 0)))
      else
        (let i0 = 2 * (7 - b); i1 = 2 * (b - n) in
         case load_bytes bytes (i0 + 2) (nat i1) of
           Inl e \<Rightarrow> Inl e
         | Inr seg \<Rightarrow>
           (case store_bytes bytes (16 - i1) seg of
              Inl e \<Rightarrow> Inl e
            | Inr bytes' \<Rightarrow> store_bytes bytes' i0 (replicate (nat (16 - (i0 + i1))) 0))))"

definition parse_ipv6_address :: "string \<Rightarrow> errc + ipv6_address" where
  "parse_ipv6_address s = (case parse_v6_loop s s 8 (-1) False (replicate 16 0) of
     Inl e \<Rightarrow> Inl e
   | Inr (it, n, b, bytes) \<Rightarrow>
       if it \<noteq> [] then Inl invalid_argument else expand_v6 b n bytes)"

definition ipv6_of_string :: "string \<Rightarrow> errc + ipv6_address" where
  "ipv6_of_string s = (case parse_ipv6_address s of
     Inl _ \<Rightarrow> Inl invalid_argument
   | Inr a \<Rightarrow> Inr a)"

section \<open>Equations of the loop\<close>

text \<open>
  Storing one word and going on is the same step in both places where the loop reads a word.
\<close>

definition take_word ::
    "string \<Rightarrow> string \<Rightarrow> int \<Rightarrow> int \<Rightarrow> u8 list \<Rightarrow> errc + (string \<times> int \<times> int \<times> u8 list)" where
  "take_word it prev n b bytes = (case parse_h16 it of
     None \<Rightarrow> Inl invalid_argument
   | Some (hi, lo, it3) \<Rightarrow>
     (case store_bytes bytes (2 * (8 - n)) [hi, lo] of
        Inl e \<Rightarrow> Inl e
      | Inr bytes' \<Rightarrow>
        (if n - 1 = 0 then Inr (it3, n - 1, b, bytes')
         else parse_v6_loop it3 prev (n - 1) b True bytes')))"

lemma loop_Nil:
  "parse_v6_loop [] prev n b c bytes =
     (if b \<noteq> -1 then Inr ([], n, b, bytes) else Inl invalid_argument)"
  by (subst parse_v6_loop.simps) simp

lemma loop_colon_Nil: "parse_v6_loop [CHR '':''] prev n b c bytes = Inl invalid_argument"
  by (subst parse_v6_loop.simps) simp

lemma loop_dcolon:
  "parse_v6_loop (CHR '':'' # CHR '':'' # it2) prev n b c bytes =
     (if b = -1 then
        if n - 1 = 0 then Inr (it2, n - 1, n - 1, bytes)
        else parse_v6_loop it2 prev (n - 1) (n - 1) False bytes
      else Inl invalid_argument)"
  by (subst parse_v6_loop.simps) (simp add: Let_def)

lemma loop_colon:
  "y \<noteq> CHR '':'' \<Longrightarrow> parse_v6_loop (CHR '':'' # y # it2) prev n b c bytes =
     (if c then take_word (y # it2) (y # it2) n b bytes else Inl invalid_argument)"
  by (subst parse_v6_loop.simps)
    (auto simp: Let_def take_word_def split: option.splits sum.splits prod.splits)

lemma loop_other:
  "x \<noteq> CHR '':'' \<Longrightarrow> x \<noteq> CHR ''.'' \<Longrightarrow> parse_v6_loop (x # it) prev n b c bytes =
     (if b \<noteq> -1 \<and> hexdig_value x < 0 then Inr (x # it, n, b, bytes)
      else if \<not> c then take_word (x # it) (x # it) n b bytes
      else Inl invalid_argument)"
  by (subst parse_v6_loop.simps)
    (auto simp: Let_def take_word_def split: option.splits sum.splits prod.splits)

lemma loop_dot:
  "parse_v6_loop (CHR ''.'' # it) prev n b c bytes =
     (if b = -1 \<and> n > 1 then Inl invalid_argument
      else
        (case load_bytes bytes (2 * (7 - n)) 2 of
           Inl e \<Rightarrow> Inl e
         | Inr p \<Rightarrow>
           if \<not> maybe_octet (p ! 0) (p ! 1) then Inl invalid_argument
           else
             (case parse_ipv4_address prev of
                Inl e \<Rightarrow> Inl e
              | Inr _ \<Rightarrow>
                (case parse_ipv4_address (takeWhile (\<lambda>ch. ch = CHR ''.'' \<or> is_dec ch) prev) of
                   Inl e \<Rightarrow> Inl e
                 | Inr a \<Rightarrow>
                   (case store_bytes bytes (2 * (7 - n)) (bytes4_list (v4_to_bytes a)) of
                      Inl e \<Rightarrow> Inl e
                    | Inr bytes' \<Rightarrow>
                      Inr (dropWhile (\<lambda>ch. ch = CHR ''.'' \<or> is_dec ch) prev, n - 1, b, bytes'))))))"
  by (subst parse_v6_loop.simps, unfold Let_def) simp

lemmas loop_simps = loop_Nil loop_colon_Nil loop_dcolon loop_colon loop_other

section \<open>Array safety\<close>

text \<open>
  The loop invariant: \<open>n\<close> counts the words still missing, and after \<open>::\<close> at least one of the
  eight words is taken, so all array accesses stay inside the sixteen bytes.
\<close>

definition v6_loop_inv :: "int \<Rightarrow> int \<Rightarrow> u8 list \<Rightarrow> bool" where
  "v6_loop_inv n b bytes \<longleftrightarrow> 1 \<le> n \<and> n \<le> 8 \<and> length bytes = 16 \<and> (b = -1 \<or> n \<le> b \<and> b \<le> 7)"

definition v6_exit_inv :: "int \<Rightarrow> int \<Rightarrow> u8 list \<Rightarrow> bool" where
  "v6_exit_inv n b bytes \<longleftrightarrow> 0 \<le> n \<and> n \<le> 8 \<and> length bytes = 16 \<and> (b = -1 \<or> n \<le> b \<and> b \<le> 7)"

lemma store_bytes_length: "store_bytes bytes i vs = Inr bytes' \<Longrightarrow> length bytes' = length bytes"
  by (auto simp: store_bytes_def split: if_splits)

lemma store_bytes_Inl: "store_bytes bytes i vs = Inl e \<Longrightarrow>
    \<not> (0 \<le> i \<and> nat i + length vs \<le> length bytes)"
  by (auto simp: store_bytes_def split: if_splits)

lemma load_bytes_Inl: "load_bytes bytes i k = Inl e \<Longrightarrow>
    \<not> (0 \<le> i \<and> nat i + k \<le> length bytes)"
  by (auto simp: load_bytes_def split: if_splits)

lemma load_bytes_length: "load_bytes bytes i k = Inr seg \<Longrightarrow> length seg = k"
  by (auto simp: load_bytes_def split: if_splits)

lemma parse_ipv4_error: "parse_ipv4_address s = Inl e \<Longrightarrow> e = invalid_argument"
  by (auto simp: parse_ipv4_address_def split: option.splits prod.splits if_splits)

lemma length_bytes4_list [simp]: "length (bytes4_list b) = 4"
  by (simp add: bytes4_list_def split: prod.splits)

lemma store_word_ok:
  "v6_loop_inv n b bytes \<Longrightarrow> \<exists>bytes'. store_bytes bytes (2 * (8 - n)) [hi, lo] = Inr bytes'
     \<and> length bytes' = 16"
  by (auto simp: store_bytes_def v6_loop_inv_def)

definition v6_exit_ok :: "errc + (string \<times> int \<times> int \<times> u8 list) \<Rightarrow> bool" where
  "v6_exit_ok r = (case r of
     Inl e \<Rightarrow> e = invalid_argument
   | Inr (it, n, b, bytes) \<Rightarrow> v6_exit_inv n b bytes)"

lemma v6_exit_ok_simps [simp]:
  "v6_exit_ok (Inl e) \<longleftrightarrow> e = invalid_argument"
  "v6_exit_ok (Inr (it, n, b, bytes)) \<longleftrightarrow> v6_exit_inv n b bytes"
  by (simp_all add: v6_exit_ok_def)

lemma take_word_exit:
  assumes inv: "v6_loop_inv n b bytes"
    and rec: "\<And>it3 bytes'. length it3 < length it \<Longrightarrow> v6_loop_inv (n - 1) b bytes' \<Longrightarrow>
      v6_exit_ok (parse_v6_loop it3 prev (n - 1) b True bytes')"
  shows "v6_exit_ok (take_word it prev n b bytes)"
proof (cases "parse_h16 it")
  case None
  then show ?thesis by (simp add: take_word_def)
next
  case (Some p)
  obtain hi lo it3 where p: "p = (hi, lo, it3)" by (cases p)
  from store_word_ok [OF inv, of hi lo] obtain bytes' where
    "store_bytes bytes (2 * (8 - n)) [hi, lo] = Inr bytes'" "length bytes' = 16" by blast
  with Some p inv rec parse_h16_length [of it hi lo it3] show ?thesis
    by (auto simp: take_word_def v6_loop_inv_def v6_exit_inv_def)
qed

lemma loop_dot_exit:
  assumes "v6_loop_inv n b bytes"
  shows "v6_exit_ok (parse_v6_loop (CHR ''.'' # it) prev n b c bytes)"
  using assms unfolding loop_dot
  by (auto simp: v6_loop_inv_def v6_exit_inv_def nat_diff_distrib
      dest: load_bytes_Inl store_bytes_Inl parse_ipv4_error store_bytes_length
      split: sum.splits)

lemma parse_v6_loop_exit:
  "v6_loop_inv n b bytes \<Longrightarrow> v6_exit_ok (parse_v6_loop it prev n b c bytes)"
proof (induction it arbitrary: prev n b c bytes rule: length_induct)
  case (1 it)
  note inv = "1.prems"
  have rec: "v6_exit_ok (parse_v6_loop it' prev' n' b' c' bytes')"
    if "length it' < length it" "v6_loop_inv n' b' bytes'" for it' prev' n' b' c' bytes'
    using "1.IH" that by blast
  consider "it = []" | "it = '':''" | it2 where "it = CHR '':'' # CHR '':'' # it2"
    | y it2 where "it = CHR '':'' # y # it2" "y \<noteq> CHR '':''" | it1 where "it = CHR ''.'' # it1"
    | x it1 where "it = x # it1" "x \<noteq> CHR '':''" "x \<noteq> CHR ''.''"
    by (metis list.exhaust)
  then show ?case
  proof cases
    case 3
    have "v6_loop_inv (n - 1) (n - 1) bytes" if "n - 1 \<noteq> 0"
      using inv that by (auto simp: v6_loop_inv_def)
    moreover have "v6_exit_inv 0 0 bytes" if "n = 1"
      using inv that by (auto simp: v6_loop_inv_def v6_exit_inv_def)
    ultimately show ?thesis using rec 3 by (simp add: loop_simps)
  next
    case 4
    have "v6_exit_ok (take_word (y # it2) (y # it2) n b bytes)"
      using inv rec 4 by (intro take_word_exit) auto
    with 4 show ?thesis by (simp add: loop_simps)
  next
    case 5
    then show ?thesis using loop_dot_exit [OF inv] by simp
  next
    case 6
    have "v6_exit_ok (take_word (x # it1) (x # it1) n b bytes)"
      using inv rec 6 by (intro take_word_exit) auto
    with 6 inv show ?thesis by (auto simp: loop_simps v6_loop_inv_def v6_exit_inv_def)
  qed (use inv in \<open>auto simp: loop_simps v6_loop_inv_def v6_exit_inv_def\<close>)
qed

lemma store_bytes_nat:
  "i + length vs \<le> length bytes \<Longrightarrow>
     store_bytes bytes (int i) vs = Inr (take i bytes @ vs @ drop (i + length vs) bytes)"
  by (simp add: store_bytes_def)

lemma load_bytes_nat:
  "i + k \<le> length bytes \<Longrightarrow> load_bytes bytes (int i) k = Inr (take k (drop i bytes))"
  by (simp add: load_bytes_def)

text \<open>What the expansion computes, for every exit state of the loop that saw \<open>::\<close>.\<close>

definition expanded :: "nat \<Rightarrow> nat \<Rightarrow> u8 list \<Rightarrow> u8 list" where
  "expanded b n bytes =
     take (14 - 2 * b) bytes @ replicate (2 + 2 * n) 0 @ take (2 * (b - n)) (drop (16 - 2 * b) bytes)"

lemma move_and_clear:
  assumes len: "length bytes = 16" and "n \<le> b" "b \<le> 7"
  shows "(case load_bytes bytes (int (16 - 2 * b)) (2 * (b - n)) of
      Inl e \<Rightarrow> Inl e
    | Inr seg \<Rightarrow> (case store_bytes bytes (int (16 - 2 * (b - n))) seg of
        Inl e \<Rightarrow> Inl e
      | Inr bytes' \<Rightarrow> store_bytes bytes' (int (14 - 2 * b)) (replicate (2 + 2 * n) 0)))
    = Inr (expanded b n bytes)"
proof -
  define seg where "seg = take (2 * (b - n)) (drop (16 - 2 * b) bytes)"
  have seg: "length seg = 2 * (b - n)" using assms by (simp add: seg_def)
  have load: "load_bytes bytes (int (16 - 2 * b)) (2 * (b - n)) = Inr seg"
    using load_bytes_nat [of "16 - 2 * b" "2 * (b - n)" bytes] assms by (simp add: seg_def)
  have store: "store_bytes bytes (int (16 - 2 * (b - n))) seg =
      Inr (take (16 - 2 * (b - n)) bytes @ seg)"
    using store_bytes_nat [of "16 - 2 * (b - n)" seg bytes] assms seg by simp
  define L where "L = 16 - 2 * (b - n)"
  have L: "14 - 2 * b + (2 + 2 * n) = L" "L \<le> 16" "14 - 2 * b \<le> L"
    using assms by (auto simp: L_def)
  have clear: "store_bytes (take L bytes @ seg) (int (14 - 2 * b)) (replicate (2 + 2 * n) 0) =
      Inr (take (14 - 2 * b) bytes @ replicate (2 + 2 * n) 0 @ seg)"
    using store_bytes_nat [of "14 - 2 * b" "replicate (2 + 2 * n) 0" "take L bytes @ seg",
        unfolded length_replicate L(1)] len L
    by (simp add: min_absorb1 min_absorb2)
  show ?thesis
    using store clear unfolding load sum.case L_def [symmetric] expanded_def seg_def by simp
qed

lemma expand_v6_nat:
  assumes len: "length bytes = 16" and "n \<le> b" "b \<le> 7"
  shows "expand_v6 (int b) (int n) bytes = Inr (expanded b n bytes)"
proof -
  have eqs: "2 * (7 - int b) = int (14 - 2 * b)" "2 * (7 - int b) + 2 = int (16 - 2 * b)"
    "2 * (int b - int n) = int (2 * (b - n))" "16 - 2 * (int b - int n) = int (16 - 2 * (b - n))"
    "16 - (2 * (7 - int b) + 2 * (int b - int n)) = int (2 + 2 * n)"
    using assms by auto
  consider "b = n" | "b \<noteq> n" "b = 7" | "b \<noteq> n" "b \<noteq> 7" by blast
  then show ?thesis
  proof cases
    case 1
    have "nat (16 - int (14 - 2 * n)) = 2 + 2 * n" using assms 1 by auto
    then show ?thesis
      using 1 eqs (1) assms store_bytes_nat [of "14 - 2 * n" "replicate (2 + 2 * n) 0" bytes]
      unfolding expand_v6_def Let_def by (simp add: expanded_def)
  next
    case 2
    then have e: "int (16 - 2 * b) = 2" "int (14 - 2 * b) = 0" "16 - 2 * (b - n) = 2 + 2 * n"
      "int b = 7" "nat (14 - 2 * int n) = 2 * (7 - n)" using assms by auto
    from move_and_clear [OF assms, unfolded e (1-3)] 2 show ?thesis
      unfolding expand_v6_def Let_def eqs (4) e (3) nat_int by (simp add: e (4,5))
  next
    case 3
    then show ?thesis using move_and_clear [OF assms]
      unfolding expand_v6_def Let_def eqs (2,4,5) unfolding eqs (1,3) nat_int by simp
  qed
qed

lemma expand_v6_ok:
  assumes "v6_exit_inv n b bytes"
  shows "\<exists>a. expand_v6 b n bytes = Inr a \<and> wf_v6 a"
proof (cases "b = -1")
  case True
  with assms show ?thesis by (simp add: expand_v6_def v6_exit_inv_def)
next
  case False
  with assms obtain m k where "n = int m" "b = int k" "m \<le> k" "k \<le> 7" "length bytes = 16"
    by (auto simp: v6_exit_inv_def dest!: zero_le_imp_eq_int
        intro: that [of "nat n" "nat b"])
  then show ?thesis using expand_v6_nat [of bytes m k] by (simp add: expanded_def)
qed

lemma parse_ipv6_result:
  "(\<exists>a. parse_ipv6_address s = Inr a \<and> wf_v6 a) \<or> parse_ipv6_address s = Inl invalid_argument"
proof -
  have "v6_exit_ok (parse_v6_loop s s 8 (-1) False (replicate 16 0))"
    by (rule parse_v6_loop_exit) (simp add: v6_loop_inv_def)
  then show ?thesis
    by (auto simp: parse_ipv6_address_def v6_exit_ok_def dest!: expand_v6_ok
        split: sum.splits prod.splits)
qed

section \<open>Properties\<close>

text \<open>
  C8: on every input the parser stays inside its array of sixteen bytes and returns either an
  address of sixteen bytes or \<open>invalid_argument\<close>.
\<close>

theorem ipv6_parse_safe:
  "(\<exists>a. parse_ipv6_address s = Inr a \<and> wf_v6 a) \<or> parse_ipv6_address s = Inl invalid_argument"
  by (rule parse_ipv6_result)

end
