(* ===== verification/Ipv6_Roundtrip.thy ===== *)
theory Ipv6_Roundtrip
  imports Ipv6_Address
begin

text \<open>
  The printer and the parser of \<^verbatim>\<open>ipv6_address\<close> agree: the text printed for an address is parsed
  back to it. The proof reads the sixteen bytes as eight big-endian words and follows the three
  shapes a printed address has: all words, words around one \<open>::\<close>, and \<open>::ffff:\<close> with a dotted tail.
\<close>

section \<open>Words\<close>

definition word_bytes :: "nat \<Rightarrow> u8 list" where
  "word_bytes w = [of_nat (w div 256), of_nat (w mod 256)]"

definition enc :: "nat list \<Rightarrow> u8 list" where
  "enc ws = concat (map word_bytes ws)"

abbreviation words_ok :: "nat list \<Rightarrow> bool" where
  "words_ok ws \<equiv> (\<forall>w \<in> set ws. w < 65536)"

lemma enc_simps [simp]:
  "enc [] = []" "enc (w # ws) = word_bytes w @ enc ws" "enc (xs @ ys) = enc xs @ enc ys"
  by (simp_all add: enc_def)

lemma length_word_bytes [simp]: "length (word_bytes w) = 2"
  by (simp add: word_bytes_def)

lemma length_enc [simp]: "length (enc ws) = 2 * length ws"
  by (induction ws) auto

lemma enc_eq_Nil [simp]: "enc ws = [] \<longleftrightarrow> ws = []"
  by (cases ws) (auto simp: word_bytes_def)

lemma drop_enc [simp]: "drop (2 * k) (enc ws) = enc (drop k ws)"
proof (induction k arbitrary: ws)
  case (Suc k)
  then show ?case by (cases ws) (auto simp: word_bytes_def)
qed simp

lemma be16_word_bytes [simp]:
  "w < 65536 \<Longrightarrow> be16 (of_nat (w div 256)) (of_nat (w mod 256)) = w"
  by (simp add: be16_def less_mult_imp_div_less)

lemma word_bytes_be16: "word_bytes (be16 x y) = [x, y]"
proof -
  have "be16 x y div 256 = unat x" "be16 x y mod 256 = unat y" by (simp_all add: be16_def)
  then show ?thesis by (simp add: word_bytes_def)
qed

lemma be16_less: "be16 x y < 65536"
  using unat_u8_less [of x] unat_u8_less [of y] unfolding be16_def by linarith

lemma bytes_as_words: "length a = 2 * k \<Longrightarrow> \<exists>ws. length ws = k \<and> words_ok ws \<and> a = enc ws"
proof (induction k arbitrary: a)
  case (Suc k)
  then obtain x y r where a: "a = x # y # r" and "length r = 2 * k"
    by (metis length_Suc_conv mult_Suc_right add_2_eq_Suc)
  with Suc.IH obtain ws where "length ws = k" "words_ok ws" "r = enc ws" by blast
  with a show ?case
    by (intro exI [of _ "be16 x y # ws"]) (simp add: word_bytes_be16 be16_less)
qed simp

lemma word_bytes_0: "word_bytes 0 = [0, 0]"
  by (simp add: word_bytes_def)

lemma enc_replicate_0: "enc (replicate k 0) = replicate (2 * k) 0"
  by (induction k) (simp_all add: word_bytes_0)

section \<open>Hexadecimal words\<close>

lemma all_less_16: "(\<forall>k < 16. P k) \<longleftrightarrow>
    P 0 \<and> P 1 \<and> P 2 \<and> P 3 \<and> P 4 \<and> P 5 \<and> P 6 \<and> P 7 \<and> P 8 \<and> P 9 \<and> P 10 \<and> P 11 \<and> P 12 \<and>
    P 13 \<and> P 14 \<and> P (15::nat)"
  by (auto simp: numeral_eq_Suc All_less_Suc)

lemma hexdig_value_hex_dig [simp]: "k < 16 \<Longrightarrow> hexdig_value (hex_dig k) = int k"
proof -
  have "\<forall>k < 16. hexdig_value (hex_dig k) = int k"
    unfolding all_less_16 by (simp add: hexdig_value_def hex_dig_def)
  then show "k < 16 \<Longrightarrow> hexdig_value (hex_dig k) = int k" by blast
qed

lemma hexdig_value_punct [simp]: "hexdig_value (CHR '':'') = -1" "hexdig_value (CHR ''.'') = -1"
  by (simp_all add: hexdig_value_def)

lemma hex_dig_neq_punct [simp]:
  "k < 16 \<Longrightarrow> hex_dig k \<noteq> CHR '':''" "k < 16 \<Longrightarrow> hex_dig k \<noteq> CHR ''.''"
  using hexdig_value_hex_dig hexdig_value_punct by (metis of_nat_0_le_iff neg_0_le_iff_le not_one_le_zero of_nat_1 of_nat_le_0_iff)+

definition h16_end :: "string \<Rightarrow> bool" where
  "h16_end s \<longleftrightarrow> (case s of [] \<Rightarrow> True | c # _ \<Rightarrow> hexdig_value c < 0)"

lemma h16_end_simps [simp]: "h16_end []" "h16_end (c # s) \<longleftrightarrow> hexdig_value c < 0"
  by (simp_all add: h16_end_def)

lemma print_hex_1: "a < 16 \<Longrightarrow> print_hex a = [hex_dig a]"
  by (simp add: print_hex_def)

lemma print_hex_2: "0 < a \<Longrightarrow> a < 16 \<Longrightarrow> b < 16 \<Longrightarrow> print_hex (a * 16 + b) = [hex_dig a, hex_dig b]"
  by (simp add: print_hex_def)

lemma print_hex_3:
  assumes "0 < a" "a < 16" "b < 16" "c < 16"
  shows "print_hex ((a * 16 + b) * 16 + c) = [hex_dig a, hex_dig b, hex_dig c]"
proof -
  define w where "w = (a * 16 + b) * 16 + c"
  have w: "w = a * 256 + (b * 16 + c)" by (simp add: w_def)
  have r: "b * 16 + c < 256" using assms by linarith
  with w have "w div 256 = a" "w mod 256 = b * 16 + c" by auto
  moreover have "(b * 16 + c) div 16 = b" "(b * 16 + c) mod 16 = c" using assms by auto
  moreover have "256 \<le> w" "w < 4096" using assms w r by linarith+
  ultimately show ?thesis unfolding w_def [symmetric] by (simp add: print_hex_def Let_def)
qed

lemma print_hex_4:
  assumes "0 < a" "a < 16" "b < 16" "c < 16" "d < 16"
  shows "print_hex (((a * 16 + b) * 16 + c) * 16 + d) =
    [hex_dig a, hex_dig b, hex_dig c, hex_dig d]"
proof -
  define w where "w = ((a * 16 + b) * 16 + c) * 16 + d"
  define u where "u = b * 256 + (c * 16 + d)"
  have w: "w = a * 4096 + u" by (simp add: w_def u_def)
  moreover have "u < 4096" using assms unfolding u_def by linarith
  ultimately have "w div 4096 = a" "w mod 4096 = u" by auto
  moreover have "c * 16 + d < 256" using assms by linarith
  then have "u div 256 = b" "u mod 256 = c * 16 + d" by (auto simp: u_def)
  moreover have "(c * 16 + d) div 16 = c" "(c * 16 + d) mod 16 = d" using assms by auto
  moreover have "4096 \<le> w" using assms w by linarith
  ultimately show ?thesis unfolding w_def [symmetric] by (simp add: print_hex_def Let_def)
qed

lemma hex_shapes [case_names one two three four]:
  assumes "w < (65536::nat)"
  obtains a where "a < 16" "w = a"
  | a b where "0 < a" "a < 16" "b < 16" "w = a * 16 + b"
  | a b c where "0 < a" "a < 16" "b < 16" "c < 16" "w = (a * 16 + b) * 16 + c"
  | a b c d where "0 < a" "a < 16" "b < 16" "c < 16" "d < 16" "w = ((a * 16 + b) * 16 + c) * 16 + d"
proof -
  have d1: "w div 16 * 16 + w mod 16 = w" by simp
  have d2: "(w div 256 * 16 + w div 16 mod 16) * 16 + w mod 16 = w"
    using div_mult_mod_eq [of "w div 16" 16] d1 by (simp add: div_mult2_eq [symmetric])
  have d3: "((w div 4096 * 16 + w div 256 mod 16) * 16 + w div 16 mod 16) * 16 + w mod 16 = w"
    using div_mult_mod_eq [of "w div 256" 16] d2 by (simp add: div_mult2_eq [symmetric])
  consider "w < 16" | "16 \<le> w" "w < 256" | "256 \<le> w" "w < 4096" | "4096 \<le> w" by linarith
  then show thesis
  proof cases
    case 1
    then show thesis using that(1) by simp
  next
    case 2
    then have "0 < w div 16" "w div 16 < 16" by auto
    then show thesis using that(2) [of "w div 16" "w mod 16"] by simp
  next
    case 3
    then have "0 < w div 256" "w div 256 < 16" by auto
    then show thesis using that(3) [of "w div 256" "w div 16 mod 16" "w mod 16"] d2 by simp
  next
    case 4
    with assms have "0 < w div 4096" "w div 4096 < 16" by auto
    then show thesis
      using that(4) [of "w div 4096" "w div 256 mod 16" "w div 16 mod 16" "w mod 16"] d3 by simp
  qed
qed

lemma h16_more_end: "h16_end rest \<Longrightarrow> h16_more k v rest = (v, rest)"
  by (cases k) (auto simp: Let_def split: list.splits)

lemma h16_more_digit: "d < 16 \<Longrightarrow> h16_more (Suc k) v (hex_dig d # it) = h16_more k (v * 16 + d) it"
  by (simp add: Let_def)

lemma parse_h16_print_hex:
  assumes w: "w < 65536" and rest: "h16_end rest"
  shows "parse_h16 (print_hex w @ rest) =
    Some (of_nat (w div 256), of_nat (w mod 256), rest)"
proof -
  have "w div 256 mod 256 = w div 256" using w by auto
  moreover have "\<exists>d s. print_hex w @ rest = hex_dig d # s \<and> d < 16 \<and> h16_more 3 d s = (w, rest)"
    using w
  proof (cases rule: hex_shapes)
    case (one a)
    with rest show ?thesis by (auto simp: print_hex_1 h16_more_end)
  next
    case (two a b)
    with rest show ?thesis
      by (auto simp: print_hex_2 h16_more_digit h16_more_end numeral_3_eq_3 simp del: h16_more.simps)
  next
    case (three a b c)
    with rest show ?thesis
      by (auto simp: print_hex_3 h16_more_digit h16_more_end numeral_3_eq_3
          simp del: h16_more.simps distrib_right_numeral)
  next
    case (four a b c d)
    then show ?thesis
      by (auto simp: print_hex_4 h16_more_digit numeral_3_eq_3
          simp del: h16_more.simps(2) distrib_right_numeral)
  qed
  ultimately show ?thesis by (auto simp: parse_h16_def)
qed

lemma print_hex_head:
  assumes "w < 65536"
  obtains x s where "print_hex w = x # s" "x \<noteq> CHR '':''" "x \<noteq> CHR ''.''" "\<not> hexdig_value x < 0"
  using assms
  by (cases rule: hex_shapes)
    (auto simp: print_hex_1 print_hex_2 print_hex_3 print_hex_4 simp del: distrib_right_numeral
      intro!: that)

section \<open>The printed shapes\<close>

definition colon_words :: "nat list \<Rightarrow> string" where
  "colon_words ws = concat (map (\<lambda>w. CHR '':'' # print_hex w) ws)"

lemma colon_words_simps [simp]:
  "colon_words [] = []" "colon_words (w # ws) = CHR '':'' # print_hex w @ colon_words ws"
  by (simp_all add: colon_words_def)

lemma word_bytes_eq_0: "w < 65536 \<Longrightarrow> word_bytes w = [0, 0] \<longleftrightarrow> w = 0"
proof -
  assume "w < 65536"
  then have "be16 (word_bytes w ! 0) (word_bytes w ! 1) = w" by (simp add: word_bytes_def)
  then show ?thesis by (auto simp: be16_def word_bytes_0)
qed

lemma count_zeroes_enc:
  "words_ok ws \<Longrightarrow> count_zeroes (enc ws) = 2 * length (takeWhile (\<lambda>w. w = 0) ws)"
proof (induction ws)
  case (Cons w ws)
  then have "word_bytes w = [0, 0] \<longleftrightarrow> w = 0" by (simp add: word_bytes_eq_0)
  with Cons show ?case by (auto simp: word_bytes_def)
qed simp

lemma takeWhile_zero: "takeWhile (\<lambda>w. w = 0) ws = replicate (length (takeWhile (\<lambda>w. w = 0) ws)) (0::nat)"
  by (induction ws) auto

definition is_run :: "nat list \<Rightarrow> nat \<Rightarrow> int \<Rightarrow> nat \<Rightarrow> bool" where
  "is_run ws q bp bl \<longleftrightarrow> (\<exists>ws1 l ws2. ws = ws1 @ replicate l 0 @ ws2 \<and> 0 < l \<and>
     bp = int (2 * (q + length ws1)) \<and> bl = 2 * l)"

lemma is_run_append: "is_run ws (q + length us) bp bl \<Longrightarrow> is_run (us @ ws) q bp bl"
  unfolding is_run_def by (metis append.assoc add.assoc length_append)

lemma find_run_enc:
  "words_ok ws \<Longrightarrow> find_run (enc ws) (2 * q) bp bl = (bp', bl') \<Longrightarrow>
     (bp', bl') = (bp, bl) \<or> is_run ws q bp' bl'"
proof (induction ws arbitrary: q bp bl rule: length_induct)
  case (1 ws)
  show ?case
  proof (cases ws)
    case Nil
    with 1 show ?thesis by (simp add: find_run.simps)
  next
    case (Cons w ws')
    define z where "z = length (takeWhile (\<lambda>w. w = 0) ws)"
    have z: "count_zeroes (enc ws) = 2 * z" using 1 by (simp add: count_zeroes_enc z_def)
    define k where "k = (if z = 0 then 1 else z)"
    have split: "ws = take k ws @ drop k ws" by simp
    have len: "length (take k ws) = k"
      using Cons by (auto simp: k_def z_def length_takeWhile_le)
    have "length (drop k ws) < length ws" using Cons by (auto simp: k_def)
    moreover have "words_ok (drop k ws)" using 1 by (auto dest: in_set_dropD)
    ultimately have IH: "find_run (enc (drop k ws)) (2 * (q + k)) bp0 bl0 = (bp', bl') \<Longrightarrow>
        (bp', bl') = (bp0, bl0) \<or> is_run ws q bp' bl'" for bp0 bl0
      using 1(1) is_run_append [of "drop k ws" q "take k ws" bp' bl'] split len by metis
    have "is_run ws q (int (2 * q)) (2 * z)" if "z \<noteq> 0"
    proof -
      have "ws = [] @ replicate z 0 @ drop z ws"
        using takeWhile_zero [of ws] takeWhile_dropWhile_id [of "\<lambda>w. w = 0" ws]
        by (metis append_Nil dropWhile_eq_drop z_def)
      with that show ?thesis unfolding is_run_def by fastforce
    qed
    moreover have "drop 2 (enc ws) = enc (drop 1 ws)" using drop_enc [of 1 ws] by simp
    with Cons z have "find_run (enc ws) (2 * q) bp bl =
        (if z \<noteq> 0 \<and> bl < 2 * z then find_run (enc (drop k ws)) (2 * (q + k)) (int (2 * q)) (2 * z)
         else find_run (enc (drop k ws)) (2 * (q + k)) bp bl)"
      by (subst find_run.simps) (simp add: Let_def k_def del: enc_simps (2))
    ultimately show ?thesis
      using 1(3) IH [of bp bl] IH [of "int (2 * q)" "2 * z"] by (auto split: if_splits)
  qed
qed

lemma print_words_plain:
  "words_ok ws \<Longrightarrow> bp < int (2 * q) \<Longrightarrow> print_words (enc ws) (2 * q) bp bl = colon_words ws"
proof (induction ws arbitrary: q)
  case (Cons w ws)
  from Cons.IH [of "Suc q"] Cons.prems show ?case
    by (subst print_words.simps) (auto simp: word_bytes_def)
qed (simp add: print_words.simps)

abbreviation run_tail :: "nat list \<Rightarrow> string" where
  "run_tail ws2 \<equiv> CHR '':'' # (if ws2 = [] then '':'' else colon_words ws2)"

lemma print_words_run:
  "words_ok ws1 \<Longrightarrow> words_ok ws2 \<Longrightarrow> 0 < l \<Longrightarrow>
     print_words (enc (ws1 @ replicate l 0 @ ws2)) (2 * q) (int (2 * (q + length ws1))) (2 * l) =
       colon_words ws1 @ run_tail ws2"
proof (induction ws1 arbitrary: q)
  case Nil
  have "drop (2 * l) (enc (replicate l 0 @ ws2)) = enc ws2" unfolding drop_enc by simp
  moreover have "print_words (enc ws2) (2 * (q + l)) (int (2 * q)) (2 * l) = colon_words ws2"
    using Nil by (intro print_words_plain) auto
  ultimately show ?case using Nil
    by (subst print_words.simps) (simp del: enc_simps add: algebra_simps)
next
  case (Cons w ws1)
  from Cons.IH [of "Suc q"] Cons.prems show ?case
    by (subst print_words.simps) (auto simp: word_bytes_def)
qed

definition printed :: "nat list \<Rightarrow> string \<Rightarrow> bool" where
  "printed ws s \<longleftrightarrow>
     (\<exists>w ws'. ws = w # ws' \<and> s = print_hex w @ colon_words ws') \<or>
     (\<exists>w ws1 l ws2. ws = w # ws1 @ replicate l 0 @ ws2 \<and> 0 < l \<and>
        s = print_hex w @ colon_words ws1 @ run_tail ws2) \<or>
     (\<exists>l ws2. ws = replicate l 0 @ ws2 \<and> 0 < l \<and> s = run_tail ws2)"

lemma v6_print_shape:
  assumes ok: "words_ok ws" and ne: "ws \<noteq> []" and nv4: "\<not> v6_is_v4_mapped (enc ws)"
  shows "printed ws (v6_print_impl (enc ws))"
proof -
  obtain w vs where ws: "ws = w # vs" using ne by (cases ws) auto
  obtain bp bl where run: "find_run (enc ws) 0 (-1) 0 = (bp, bl)" by fastforce
  then consider "bp = -1" "bl = 0" | "is_run ws 0 bp bl"
    using find_run_enc [OF ok, of 0] by force
  then show ?thesis
  proof cases
    case 1
    then have "v6_print_impl (enc ws) = print_hex w @ colon_words vs"
      using nv4 run ok print_words_plain [of vs "-1" 1 0]
      by (simp add: v6_print_impl_def ws word_bytes_def)
    with ws show ?thesis unfolding printed_def by blast
  next
    case 2
    then obtain ws1 l ws2 where r: "ws = ws1 @ replicate l 0 @ ws2" "0 < l"
        "bp = int (2 * length ws1)" "bl = 2 * l" unfolding is_run_def by auto
    show ?thesis
    proof (cases ws1)
      case Nil
      have "drop (2 * l) (enc ws) = enc ws2" unfolding drop_enc using r Nil by simp
      then have "v6_print_impl (enc ws) = run_tail ws2"
        using nv4 run ok r Nil print_words_plain [of ws2 0 l "2 * l"]
        by (simp add: v6_print_impl_def del: enc_simps)
      with r Nil show ?thesis unfolding printed_def by auto
    next
      case (Cons u us)
      then have "v6_print_impl (enc ws) = print_hex w @ colon_words us @ run_tail ws2"
        using nv4 run ok r ws print_words_run [of us ws2 l 1]
        by (simp add: v6_print_impl_def word_bytes_def)
      with r Cons ws show ?thesis unfolding printed_def by auto
    qed
  qed
qed

section \<open>Reading words back\<close>

text \<open>
  While the parser reads a printed address, its array holds the words read so far, a zero word for
  \<open>::\<close>, and zeros behind them.
\<close>

abbreviation filled :: "nat list \<Rightarrow> nat \<Rightarrow> u8 list" where
  "filled ws n \<equiv> enc ws @ replicate (2 * n) 0"

lemma store_word:
  assumes "length ws + Suc n = 8"
  shows "store_bytes (filled ws (Suc n)) (2 * (8 - int (Suc n))) (word_bytes w) =
    Inr (filled (ws @ [w]) n)"
proof -
  have i: "2 * (8 - int (Suc n)) = int (2 * length ws)" using assms by auto
  show ?thesis unfolding i
    using store_bytes_nat [of "2 * length ws" "word_bytes w" "filled ws (Suc n)"] assms by simp
qed

lemma take_word_step:
  assumes "length ws + Suc n = 8" "w < 65536" "h16_end rest"
  shows "take_word (print_hex w @ rest) prev (int (Suc n)) b (filled ws (Suc n)) =
    (if n = 0 then Inr (rest, 0, b, filled (ws @ [w]) n)
     else parse_v6_loop rest prev (int n) b True (filled (ws @ [w]) n))"
  using store_word [OF assms(1), of w] parse_h16_print_hex [OF assms(2,3)]
  by (simp add: take_word_def word_bytes_def del: enc_simps replicate.simps mult_Suc_right)

lemma colon_word_step:
  assumes "length ws + Suc n = 8" "w < 65536" "h16_end rest"
  shows "parse_v6_loop (CHR '':'' # print_hex w @ rest) prev (int (Suc n)) b True (filled ws (Suc n)) =
    (if n = 0 then Inr (rest, 0, b, filled (ws @ [w]) n)
     else parse_v6_loop rest (print_hex w @ rest) (int n) b True (filled (ws @ [w]) n))"
proof -
  obtain x s where "print_hex w = x # s" "x \<noteq> CHR '':''" using print_hex_head [OF assms(2)] .
  then show ?thesis
    using take_word_step [OF assms, of "print_hex w @ rest" b] by (simp add: loop_colon)
qed

lemma first_word_step:
  assumes "length ws + Suc n = 8" "w < 65536" "h16_end rest"
  shows "parse_v6_loop (print_hex w @ rest) prev (int (Suc n)) b False (filled ws (Suc n)) =
    (if n = 0 then Inr (rest, 0, b, filled (ws @ [w]) n)
     else parse_v6_loop rest (print_hex w @ rest) (int n) b True (filled (ws @ [w]) n))"
proof -
  obtain x s where "print_hex w = x # s" "x \<noteq> CHR '':''" "x \<noteq> CHR ''.''" "\<not> hexdig_value x < 0"
    using print_hex_head [OF assms(2)] .
  then show ?thesis
    using take_word_step [OF assms, of "print_hex w @ rest" b] by (simp add: loop_other)
qed

lemma h16_end_colon_words [simp]: "h16_end rest \<Longrightarrow> h16_end (colon_words vs @ rest)"
  by (cases vs) auto

lemma h16_end_run_tail [simp]: "h16_end (run_tail ws2)"
  by simp

lemma colon_words_run:
  "words_ok vs \<Longrightarrow> length ws + length vs + n = 8 \<Longrightarrow> 0 < length vs + n \<Longrightarrow> h16_end rest \<Longrightarrow>
   \<exists>prev'. parse_v6_loop (colon_words vs @ rest) prev (int (length vs + n)) b True
       (filled ws (length vs + n)) =
     (if n = 0 then Inr (rest, 0, b, filled (ws @ vs) n)
      else parse_v6_loop rest prev' (int n) b True (filled (ws @ vs) n))"
proof (induction vs arbitrary: ws prev)
  case (Cons v vs)
  have step: "parse_v6_loop (colon_words (v # vs) @ rest) prev (int (length (v # vs) + n)) b True
      (filled ws (length (v # vs) + n)) =
    (if length vs + n = 0 then Inr (colon_words vs @ rest, 0, b, filled (ws @ [v]) (length vs + n))
     else parse_v6_loop (colon_words vs @ rest) (print_hex v @ colon_words vs @ rest)
       (int (length vs + n)) b True (filled (ws @ [v]) (length vs + n)))"
    using colon_word_step [of ws "length vs + n" v "colon_words vs @ rest" prev b] Cons.prems
    by simp
  show ?case
  proof (cases "length vs + n = 0")
    case True
    then show ?thesis unfolding step by simp
  next
    case False
    then show ?thesis
      using Cons.IH [of "ws @ [v]" "print_hex v @ colon_words vs @ rest"] Cons.prems
      unfolding step by (cases "n = 0") simp_all
  qed
qed auto

lemma words_run:
  assumes "words_ok (w # vs)" "length ws + Suc (length vs) + n = 8" "h16_end rest"
  shows "\<exists>prev'. parse_v6_loop (print_hex w @ colon_words vs @ rest) prev (int (Suc (length vs) + n))
       b False (filled ws (Suc (length vs) + n)) =
     (if n = 0 then Inr (rest, 0, b, filled (ws @ w # vs) n)
      else parse_v6_loop rest prev' (int n) b True (filled (ws @ w # vs) n))"
proof -
  have step: "parse_v6_loop (print_hex w @ colon_words vs @ rest) prev (int (Suc (length vs) + n))
       b False (filled ws (Suc (length vs) + n)) =
    (if length vs + n = 0 then Inr (colon_words vs @ rest, 0, b, filled (ws @ [w]) (length vs + n))
     else parse_v6_loop (colon_words vs @ rest) (print_hex w @ colon_words vs @ rest)
       (int (length vs + n)) b True (filled (ws @ [w]) (length vs + n)))"
    using first_word_step [of ws "length vs + n" w "colon_words vs @ rest" prev b] assms by simp
  show ?thesis
  proof (cases "length vs + n = 0")
    case True
    then show ?thesis unfolding step by simp
  next
    case False
    then show ?thesis
      using colon_words_run [of vs "ws @ [w]" n rest "print_hex w @ colon_words vs @ rest" b] assms
      unfolding step by (cases "n = 0") simp_all
  qed
qed

lemma expanded_filled:
  assumes "length ws1 + Suc (length ws2) + n = 8"
  shows "expanded (length ws2 + n) n (filled (ws1 @ 0 # ws2) n) =
    enc (ws1 @ replicate (Suc n) 0 @ ws2)"
proof -
  have l: "14 - 2 * (length ws2 + n) = 2 * length ws1"
    "16 - 2 * (length ws2 + n) = length (enc ws1 @ word_bytes 0)" using assms by auto
  have "take (2 * length ws1) (enc ws1 @ r) = enc ws1" for r by simp
  moreover have "drop (length (enc ws1 @ word_bytes 0)) ((enc ws1 @ word_bytes 0) @ r) = r" for r
    by (metis append_eq_conv_conj)
  ultimately show ?thesis
    unfolding expanded_def l by (simp add: enc_replicate_0 word_bytes_0 del: length_append)
qed

lemma run_tail_parse:
  assumes ok: "words_ok ws2" and len: "length ws1 + Suc (length ws2) + n = 8"
  shows "parse_v6_loop (run_tail ws2) prev (int (Suc (length ws2 + n))) (-1) c
      (filled ws1 (Suc (length ws2 + n))) =
    Inr ([], int n, int (length ws2 + n), filled (ws1 @ 0 # ws2) n)"
proof (cases ws2)
  case Nil
  then show ?thesis by (simp add: loop_dcolon loop_Nil word_bytes_0)
next
  case (Cons w vs)
  obtain prev' where
    "parse_v6_loop (print_hex w @ colon_words vs @ []) prev (int (Suc (length vs) + n))
       (int (length ws2 + n)) False (filled (ws1 @ [0]) (Suc (length vs) + n)) =
     (if n = 0 then Inr ([], 0, int (length ws2 + n), filled ((ws1 @ [0]) @ w # vs) n)
      else parse_v6_loop [] prev' (int n) (int (length ws2 + n)) True
        (filled ((ws1 @ [0]) @ w # vs) n))"
    using words_run [of w vs "ws1 @ [0]" n "[]" prev "int (length ws2 + n)"] ok len Cons by auto
  with Cons show ?thesis
    by (cases "n = 0") (simp_all add: loop_dcolon loop_Nil word_bytes_0)
qed

lemma parse_ipv6_of_loop:
  assumes "parse_v6_loop s s 8 (-1) False (replicate 16 0) =
      Inr ([], int n, int (length ws2 + n), filled (ws1 @ 0 # ws2) n)"
    and "length ws1 + Suc (length ws2) + n = 8"
  shows "parse_ipv6_address s = Inr (enc (ws1 @ replicate (Suc n) 0 @ ws2))"
  using assms expand_v6_nat [of "filled (ws1 @ 0 # ws2) n" n "length ws2 + n"]
    expanded_filled [OF assms(2)]
  by (simp add: parse_ipv6_address_def del: enc_simps)

lemma start_state:
  "k = 8 \<Longrightarrow> int k = 8" "k = 8 \<Longrightarrow> filled [] k = replicate 16 0"
  by simp_all

lemma printed_cases [consumes 1, case_names words mid first]:
  assumes "printed ws s"
  obtains w vs where "ws = w # vs" "s = print_hex w @ colon_words vs"
  | w us n ws2 where "ws = w # us @ replicate (Suc n) 0 @ ws2"
      "s = print_hex w @ colon_words us @ run_tail ws2"
  | n ws2 where "ws = replicate (Suc n) 0 @ ws2" "s = run_tail ws2"
  using assms unfolding printed_def
  by (elim disjE exE conjE) (auto dest!: gr0_implies_Suc intro: that)

lemma parse_printed:
  assumes pr: "printed ws s" and ok: "words_ok ws" and len: "length ws = 8"
  shows "parse_ipv6_address s = Inr (enc ws)"
  using pr
proof (cases rule: printed_cases)
  case (words w vs)
  then have k: "Suc (length vs) + 0 = 8" using len by simp
  from words_run [of w vs "[]" 0 "[]" s "-1", unfolded start_state [OF k]] k ok words
  have "parse_v6_loop s s 8 (-1) False (replicate 16 0) = Inr ([], 0, -1, enc ws)" by simp
  then show ?thesis by (simp add: parse_ipv6_address_def expand_v6_def)
next
  case (mid w us n ws2)
  define m where "m = Suc (length ws2 + n)"
  have k: "Suc (length us) + m = 8" using len mid by (simp add: m_def)
  have "m \<noteq> 0" by (simp add: m_def)
  with words_run [of w us "[]" m "run_tail ws2" s "-1", unfolded start_state [OF k]] k ok mid
  obtain prev' where "parse_v6_loop s s 8 (-1) False (replicate 16 0) =
      parse_v6_loop (run_tail ws2) prev' (int m) (-1) True (filled (w # us) m)" by auto
  also have "\<dots> = Inr ([], int n, int (length ws2 + n), filled ((w # us) @ 0 # ws2) n)"
    unfolding m_def using ok k mid by (intro run_tail_parse) (auto simp: m_def)
  finally show ?thesis using parse_ipv6_of_loop [of s n ws2 "w # us"] k mid by (simp add: m_def)
next
  case (first n ws2)
  then have k: "Suc (length ws2 + n) = 8" using len by simp
  then have "parse_v6_loop s s 8 (-1) False (replicate 16 0) =
      Inr ([], int n, int (length ws2 + n), filled ([] @ 0 # ws2) n)"
    using run_tail_parse [of ws2 "[]" n s False, unfolded start_state [OF k]] ok first by auto
  from parse_ipv6_of_loop [OF this] k first show ?thesis by simp
qed

section \<open>IPv4-mapped addresses\<close>

lemma hex_dig_dec: "d < 10 \<Longrightarrow> hex_dig d = dec_char d"
proof -
  have "\<forall>d < 16. d < 10 \<longrightarrow> hex_dig d = dec_char d"
    unfolding all_less_16 by (simp add: hex_dig_def dec_char_def char_of_def bit_0)
  then show "d < 10 \<Longrightarrow> ?thesis" by simp
qed

text \<open>The digits of an octet, read as hexadecimal, give a word that passes \<open>maybe_octet\<close>.\<close>

lemma maybe_octet_word: "w < 65536 \<Longrightarrow> maybe_octet (of_nat (w div 256)) (of_nat (w mod 256)) \<longleftrightarrow>
    w \<le> 0x255 \<and> w div 16 mod 16 \<le> 9 \<and> w mod 16 \<le> 9"
  by (auto simp: maybe_octet_def Let_def)

lemma v4_write_as_hex:
  "\<exists>w < 65536. v4_write v = print_hex w \<and> maybe_octet (of_nat (w div 256)) (of_nat (w mod 256))"
proof (cases v rule: octet_shapes)
  case (one d)
  then show ?thesis
    using maybe_octet_word [of d] by (intro exI [of _ d]) (simp add: v4_write_1 print_hex_1 hex_dig_dec)
next
  case (two d e)
  then show ?thesis
    using print_hex_2 [of d e] maybe_octet_word [of "d * 16 + e"]
    by (intro exI [of _ "d * 16 + e"])
      (simp add: v4_write_2 hex_dig_dec del: of_nat_add of_nat_mult)
next
  case (three d e f)
  define w where "w = (d * 16 + e) * 16 + f"
  have d: "d < 10" using three by linarith
  have "w div 16 = d * 16 + e" "w mod 16 = f"
    using three(3) by (simp_all add: w_def del: distrib_right_numeral)
  moreover have "(d * 16 + e) mod 16 = e" using three by simp
  moreover have "w \<le> 0x255"
    using three d by (cases "d = 2"; cases "e = 5") (auto simp: w_def)
  moreover have "v4_write v = print_hex w"
    using three d print_hex_3 [of d e f] unfolding w_def
    by (simp add: v4_write_3 hex_dig_dec del: of_nat_add of_nat_mult)
  ultimately show ?thesis
    using three by (intro exI [of _ w]) (simp add: maybe_octet_word)
qed

lemma v4_chars: "\<forall>ch \<in> set (v4_to_string a). ch = CHR ''.'' \<or> is_dec ch"
proof -
  have "is_dec ch" if "ch \<in> set (v4_write v)" for ch v
    using that
    by (cases v rule: octet_shapes)
      (auto simp: v4_write_1 v4_write_2 v4_write_3 simp del: of_nat_add of_nat_mult)
  moreover obtain b0 b1 b2 b3 where "v4_to_bytes a = (b0, b1, b2, b3)" by (cases "v4_to_bytes a")
  ultimately show ?thesis by (auto simp: v4_print_dotted)
qed

lemma v6_of_v4_mapped [simp]: "v6_is_v4_mapped (v6_of_v4 v)" "wf_v6 (v6_of_v4 v)"
  by (simp_all add: v6_is_v4_mapped_def v6_of_v4_def split: prod.splits)

lemma mapped_is_of_v4:
  assumes "wf_v6 a" "v6_is_v4_mapped a"
  shows "a = v6_of_v4 (ipv4_of_bytes (a ! 12, a ! 13, a ! 14, a ! 15))"
proof -
  have "a = map ((!) a) [0..<16]" using assms(1) map_nth [of a] by simp
  also have "\<dots> = v6_of_v4 (ipv4_of_bytes (a ! 12, a ! 13, a ! 14, a ! 15))"
    using assms(2)
    by (simp add: upt_conv_Cons numeral_eq_Suc v6_of_v4_def v4_to_bytes_of_bytes v6_is_v4_mapped_def)
  finally show ?thesis .
qed

lemma print_mapped: "v6_to_string (v6_of_v4 v) = ''::ffff:'' @ v4_to_string v"
proof -
  obtain b0 b1 b2 b3 where b: "v4_to_bytes v = (b0, b1, b2, b3)" by (cases "v4_to_bytes v")
  then have v: "ipv4_of_bytes (b0, b1, b2, b3) = v" using ipv4_of_bytes_to_bytes [of v] by simp
  have l: "v6_of_v4 v = [0, 0, 0, 0, 0, 0, 0, 0, 0, 0, 0xff, 0xff, b0, b1, b2, b3]"
    by (simp add: v6_of_v4_def b)
  have run: "find_run [0, 0, 0, 0, 0, 0, 0, 0, 0, 0, 0xff, 0xff] 0 (-1) 0 = (0, 10)"
    by (simp add: find_run.simps)
  show ?thesis
    using v6_of_v4_mapped(1) [of v] unfolding l
    by (simp add: v6_to_string_def v6_print_impl_def v4_to_string_def print_words.simps be16_def
        print_hex_def hex_dig_def v run)
qed

lemma parse_mapped: "parse_ipv6_address (''::ffff:'' @ v4_to_string v) = Inr (v6_of_v4 v)"
proof -
  obtain b0 b1 b2 b3 where b: "v4_to_bytes v = (b0, b1, b2, b3)" by (cases "v4_to_bytes v")
  obtain w where w: "w < 65536" "v4_write b0 = print_hex w"
    and oct: "maybe_octet (of_nat (w div 256)) (of_nat (w mod 256))"
    using v4_write_as_hex [of b0] by blast
  define rest where "rest = v4_write b1 @ dotted [b2, b3]"
  have str: "v4_to_string v = print_hex w @ CHR ''.'' # rest"
    using v4_print_dotted [OF b] w by (simp add: rest_def)
  have ffff: "''ffff'' = print_hex 0xffff" by (simp add: print_hex_def hex_dig_def)
  have z: "replicate 16 0 = filled [0] (Suc 6)" by (simp add: word_bytes_0 numeral_eq_Suc)
  define s where "s = ''::ffff:'' @ v4_to_string v"
  have "parse_v6_loop s s 8 (-1) False (replicate 16 0) =
      parse_v6_loop (print_hex 0xffff @ CHR '':'' # v4_to_string v) s (int (Suc 6)) 7 False
        (filled [0] (Suc 6))"
    by (simp add: s_def loop_dcolon ffff [symmetric] z del: enc_simps replicate.simps)
  also have "\<dots> = parse_v6_loop (CHR '':'' # print_hex w @ CHR ''.'' # rest)
      (print_hex 0xffff @ CHR '':'' # v4_to_string v) (int (Suc 5)) 7 True (filled [0, 0xffff] (Suc 5))"
    by (subst first_word_step) (simp_all add: str)
  also have "\<dots> = parse_v6_loop (CHR ''.'' # rest) (v4_to_string v) (int 5) 7 True
      (filled [0, 0xffff, w] 5)"
    using w(1) by (subst colon_word_step) (simp_all add: str)
  also have "\<dots> = Inr ([], 4, 7, [0, 0, 0xff, 0xff, b0, b1, b2, b3] @ replicate 8 0)"
    using oct v4_chars [of v]
    by (simp add: loop_dot load_bytes_def store_bytes_def word_bytes_def parse_ipv4_print
        bytes4_list_def b takeWhile_eq_all_conv [THEN iffD2] dropWhile_eq_Nil_conv [THEN iffD2])
  finally have "parse_v6_loop s s 8 (-1) False (replicate 16 0) =
      Inr ([], 4, 7, [0, 0, 0xff, 0xff, b0, b1, b2, b3] @ replicate 8 0)" .
  then show ?thesis
    unfolding s_def [symmetric]
    using expand_v6_nat [of "[0, 0, 0xff, 0xff, b0, b1, b2, b3] @ replicate 8 0" 4 7]
    by (simp add: parse_ipv6_address_def expanded_def v6_of_v4_def b numeral_eq_Suc)
qed

lemma v6_words:
  assumes "wf_v6 a" "\<not> v6_is_v4_mapped a"
  shows "\<exists>ws. length ws = 8 \<and> words_ok ws \<and> a = enc ws \<and> printed ws (v6_to_string a)"
proof -
  obtain ws where ws: "length ws = 8" "words_ok ws" "a = enc ws"
    using bytes_as_words [of a 8] assms by auto
  moreover from ws have "ws \<noteq> []" by auto
  ultimately show ?thesis using assms v6_print_shape [of ws] by (auto simp: v6_to_string_def)
qed

lemma parse_ipv6_print:
  assumes "wf_v6 a"
  shows "parse_ipv6_address (v6_to_string a) = Inr a"
proof (cases "v6_is_v4_mapped a")
  case True
  with assms obtain v where "a = v6_of_v4 v" using mapped_is_of_v4 by blast
  then show ?thesis by (simp only: print_mapped parse_mapped)
next
  case False
  then show ?thesis using v6_words [OF assms] parse_printed by metis
qed

section \<open>Length of the text\<close>

lemma length_print_hex: "w < 65536 \<Longrightarrow> length (print_hex w) \<le> 4"
  by (simp add: print_hex_def Let_def)

lemma length_colon_words: "words_ok ws \<Longrightarrow> length (colon_words ws) \<le> 5 * length ws"
proof (induction ws)
  case (Cons w ws)
  then show ?case using length_print_hex [of w] by simp
qed simp

lemma length_v6_to_string:
  assumes "wf_v6 a"
  shows "length (v6_to_string a) \<le> 39"
proof (cases "v6_is_v4_mapped a")
  case True
  with assms obtain v where "a = v6_of_v4 v" using mapped_is_of_v4 by blast
  then show ?thesis using length_v4_to_string (2) [of v] by (simp add: print_mapped)
next
  case False
  then obtain ws where ws: "length ws = 8" "words_ok ws" and pr: "printed ws (v6_to_string a)"
    using v6_words [OF assms] by blast
  from pr show ?thesis
  proof (cases rule: printed_cases)
    case (words w vs)
    with ws length_print_hex [of w] length_colon_words [of vs] show ?thesis by simp
  next
    case (mid w us n ws2)
    with ws length_print_hex [of w] length_colon_words [of us] length_colon_words [of ws2]
    show ?thesis by auto
  next
    case (first n ws2)
    with ws length_colon_words [of ws2] show ?thesis by auto
  qed
qed

section \<open>Properties\<close>

text \<open>
  C7: every IPv6 address is read back from its printed text, with \<open>::\<close> for the chosen run of zero
  words at any place, and with the dotted tail of an IPv4-mapped address.
\<close>

theorem ipv6_parse_printed:
  assumes "wf_v6 a"
  shows "parse_ipv6_address (v6_to_string a) = Inr a"
  using assms by (rule parse_ipv6_print)

theorem ipv6_parse_printed_witness:
  "wf_v6 [0xfe, 0x80, 0, 0, 0, 1, 0, 0, 0, 0, 0, 0, 0x12, 0x34, 0, 0] \<and>
   parse_ipv6_address (v6_to_string [0xfe, 0x80, 0, 0, 0, 1, 0, 0, 0, 0, 0, 0, 0x12, 0x34, 0, 0]) =
     Inr [0xfe, 0x80, 0, 0, 0, 1, 0, 0, 0, 0, 0, 0, 0x12, 0x34, 0, 0]"
  using ipv6_parse_printed [of "[0xfe, 0x80, 0, 0, 0, 1, 0, 0, 0, 0, 0, 0, 0x12, 0x34, 0, 0]"] by simp

text \<open>
  C9: an IPv6 text has at most 39 characters, so the buffers of \<open>max_str_len\<close> characters that
  \<open>to_string\<close> and \<open>to_buffer\<close> print into are large enough.
\<close>

theorem ipv6_text_fits:
  assumes "wf_v6 a"
  shows "length (v6_to_string a) \<le> 39 \<and> length (v6_to_string a) < v6_max_str_len"
  using length_v6_to_string [OF assms] by (simp add: v6_max_str_len_def)

theorem ipv6_text_fits_witness:
  "wf_v6 (replicate 16 0xff) \<and>
   length (v6_to_string (replicate 16 0xff)) \<le> 39 \<and>
   length (v6_to_string (replicate 16 0xff)) < v6_max_str_len"
  using ipv6_text_fits [of "replicate 16 0xff"] by simp

end
