(* ===== verification/Endpoint.thy ===== *)
theory Endpoint
  imports Ipv6_Roundtrip "HOL-Library.List_Lexorder" "HOL-Library.Product_Lexorder"
begin

text \<open>
  IP endpoints (endpoint.hpp, endpoint.cpp): construction, the three-way comparison and the text
  parser. The comparison is an instance of the locale \<open>three_way\<close>, the contract that ordered
  containers rely on.
\<close>

section \<open>Three-way comparison\<close>

datatype strong_ordering = so_less | so_equal | so_greater

fun so_reverse :: "strong_ordering \<Rightarrow> strong_ordering" where
  "so_reverse so_less = so_greater"
| "so_reverse so_equal = so_equal"
| "so_reverse so_greater = so_less"

definition cmp_val :: "'a::linorder \<Rightarrow> 'a \<Rightarrow> strong_ordering" where
  "cmp_val x y = (if x < y then so_less else if x = y then so_equal else so_greater)"

text \<open>
  What a container keyed by \<open>cmp\<close> relies on, stated for the values that satisfy \<open>valid\<close>: the
  comparison is a strict total order whose equivalence is \<open>eqv\<close>.
\<close>

locale three_way =
  fixes valid :: "'a \<Rightarrow> bool"
    and eqv :: "'a \<Rightarrow> 'a \<Rightarrow> bool"
    and cmp :: "'a \<Rightarrow> 'a \<Rightarrow> strong_ordering"
  assumes cmp_equal: "valid a \<Longrightarrow> valid b \<Longrightarrow> cmp a b = so_equal \<longleftrightarrow> eqv a b"
    and cmp_reverse: "valid a \<Longrightarrow> valid b \<Longrightarrow> cmp b a = so_reverse (cmp a b)"
    and cmp_trans: "valid a \<Longrightarrow> valid b \<Longrightarrow> valid c \<Longrightarrow> cmp a b \<noteq> so_greater \<Longrightarrow>
      cmp b c \<noteq> so_greater \<Longrightarrow> cmp a c \<noteq> so_greater"
begin

lemma eqv_refl: "valid a \<Longrightarrow> eqv a a"
  using cmp_equal cmp_reverse by (metis so_reverse.simps(1,3) strong_ordering.exhaust strong_ordering.distinct(3))

lemma eqv_sym: "valid a \<Longrightarrow> valid b \<Longrightarrow> eqv a b \<Longrightarrow> eqv b a"
  using cmp_equal cmp_reverse by (metis so_reverse.simps(2))

lemma less_trans: "valid a \<Longrightarrow> valid b \<Longrightarrow> valid c \<Longrightarrow> cmp a b = so_less \<Longrightarrow> cmp b c = so_less \<Longrightarrow>
    cmp a c = so_less"
  using cmp_reverse cmp_trans
  by (metis so_reverse.simps strong_ordering.distinct strong_ordering.exhaust)

lemma trichotomy: "valid a \<Longrightarrow> valid b \<Longrightarrow> cmp a b = so_less \<or> eqv a b \<or> cmp b a = so_less"
  using cmp_equal cmp_reverse by (metis so_reverse.simps(3) strong_ordering.exhaust)

lemma less_irrefl: "valid a \<Longrightarrow> cmp a a \<noteq> so_less"
  using cmp_equal eqv_refl by fastforce

end

lemma three_way_key:
  fixes key :: "'a \<Rightarrow> 'b::linorder"
  assumes "\<And>a b. valid a \<Longrightarrow> valid b \<Longrightarrow> cmp a b = cmp_val (key a) (key b)"
    and "\<And>a b. valid a \<Longrightarrow> valid b \<Longrightarrow> eqv a b \<longleftrightarrow> key a = key b"
  shows "three_way valid eqv cmp"
  by unfold_locales (auto simp: assms cmp_val_def split: if_splits)

section \<open>Endpoints\<close>

record endpoint =
  ep_v4_address :: ipv4_address
  ep_v6_address :: ipv6_address
  ep_port :: u16
  ep_is_v4 :: bool

definition endpoint_default :: endpoint where
  "endpoint_default = \<lparr>ep_v4_address = v4_any, ep_v6_address = v6_default, ep_port = 0, ep_is_v4 = True\<rparr>"

definition endpoint_v4 :: "ipv4_address \<Rightarrow> u16 \<Rightarrow> endpoint" where
  "endpoint_v4 addr p = \<lparr>ep_v4_address = addr, ep_v6_address = v6_default, ep_port = p, ep_is_v4 = True\<rparr>"

definition endpoint_v6 :: "ipv6_address \<Rightarrow> u16 \<Rightarrow> endpoint" where
  "endpoint_v6 addr p = \<lparr>ep_v4_address = v4_any, ep_v6_address = addr, ep_port = p, ep_is_v4 = False\<rparr>"

definition endpoint_port :: "u16 \<Rightarrow> endpoint" where
  "endpoint_port p = \<lparr>ep_v4_address = v4_any, ep_v6_address = v6_default, ep_port = p, ep_is_v4 = True\<rparr>"

definition endpoint_with_port :: "endpoint \<Rightarrow> u16 \<Rightarrow> endpoint" where
  "endpoint_with_port ep p =
     \<lparr>ep_v4_address = ep_v4_address ep, ep_v6_address = ep_v6_address ep, ep_port = p, ep_is_v4 = ep_is_v4 ep\<rparr>"

text \<open>Every constructor leaves the inactive address at its default value.\<close>

definition wf_endpoint :: "endpoint \<Rightarrow> bool" where
  "wf_endpoint ep \<longleftrightarrow> wf_v6 (ep_v6_address ep) \<and>
     (if ep_is_v4 ep then ep_v6_address ep = v6_default else ep_v4_address ep = v4_any)"

definition endpoint_eq :: "endpoint \<Rightarrow> endpoint \<Rightarrow> bool" where
  "endpoint_eq a b =
     (if ep_is_v4 a \<noteq> ep_is_v4 b then False
      else if ep_port a \<noteq> ep_port b then False
      else if ep_is_v4 a then ep_v4_address a = ep_v4_address b
      else ep_v6_address a = ep_v6_address b)"

text \<open>\<^verbatim>\<open>std::array\<close> compares lexicographically.\<close>

fun array_cmp :: "u8 list \<Rightarrow> u8 list \<Rightarrow> strong_ordering" where
  "array_cmp (x # xs) (y # ys) = (if x \<noteq> y then cmp_val x y else array_cmp xs ys)"
| "array_cmp [] [] = so_equal"
| "array_cmp [] (_ # _) = so_less"
| "array_cmp (_ # _) [] = so_greater"

definition endpoint_cmp :: "endpoint \<Rightarrow> endpoint \<Rightarrow> strong_ordering" where
  "endpoint_cmp a b =
     (if ep_is_v4 a \<noteq> ep_is_v4 b then (if ep_is_v4 a then so_less else so_greater)
      else
        let c = (if ep_is_v4 a then cmp_val (ep_v4_address a) (ep_v4_address b)
                 else array_cmp (ep_v6_address a) (ep_v6_address b)) in
        if c \<noteq> so_equal then c else cmp_val (ep_port a) (ep_port b))"

lemma wf_endpoint_ctors [simp]:
  "wf_endpoint endpoint_default" "wf_endpoint (endpoint_v4 a p)"
  "wf_v6 v \<Longrightarrow> wf_endpoint (endpoint_v6 v p)" "wf_endpoint (endpoint_port p)"
  "wf_endpoint ep \<Longrightarrow> wf_endpoint (endpoint_with_port ep p)"
  by (auto simp: wf_endpoint_def endpoint_default_def endpoint_v4_def endpoint_v6_def
      endpoint_port_def endpoint_with_port_def v6_default_def)

lemma wf_endpoint_cases:
  assumes "wf_endpoint ep"
  obtains (v4) a p where "ep = endpoint_v4 a p" | (v6) v p where "wf_v6 v" "ep = endpoint_v6 v p"
proof (cases "ep_is_v4 ep")
  case True
  with assms have "ep = endpoint_v4 (ep_v4_address ep) (ep_port ep)"
    by (simp add: wf_endpoint_def endpoint_v4_def)
  then show thesis by (rule v4)
next
  case False
  with assms have "wf_v6 (ep_v6_address ep)" "ep = endpoint_v6 (ep_v6_address ep) (ep_port ep)"
    by (simp_all add: wf_endpoint_def endpoint_v6_def)
  then show thesis by (rule v6)
qed

lemma array_cmp_val: "array_cmp xs ys = cmp_val xs ys"
  by (induction xs ys rule: array_cmp.induct) (auto simp: cmp_val_def)

definition endpoint_key :: "endpoint \<Rightarrow> bool \<times> u32 \<times> u8 list \<times> u16" where
  "endpoint_key ep = (\<not> ep_is_v4 ep, if ep_is_v4 ep then ep_v4_address ep else 0,
     if ep_is_v4 ep then [] else ep_v6_address ep, ep_port ep)"

lemma endpoint_cmp_key: "endpoint_cmp a b = cmp_val (endpoint_key a) (endpoint_key b)"
  by (auto simp: endpoint_cmp_def endpoint_key_def array_cmp_val cmp_val_def Let_def)

lemma endpoint_eq_key: "endpoint_eq a b \<longleftrightarrow> endpoint_key a = endpoint_key b"
  by (auto simp: endpoint_eq_def endpoint_key_def)

interpretation ep_order: three_way "\<lambda>_. True" endpoint_eq endpoint_cmp
  by (rule three_way_key [where key = endpoint_key]) (rule endpoint_cmp_key endpoint_eq_key)+

lemma endpoint_eq_wf: "wf_endpoint a \<Longrightarrow> wf_endpoint b \<Longrightarrow> endpoint_eq a b \<longleftrightarrow> a = b"
  by (auto simp: endpoint_eq_def wf_endpoint_def intro: endpoint.equality)

section \<open>Parsing\<close>

datatype endpoint_format = ipv4_no_port | ipv4_with_port | ipv6_no_port | ipv6_bracketed

definition detect_endpoint_format :: "string \<Rightarrow> endpoint_format" where
  "detect_endpoint_format s =
     (if s = [] then ipv4_no_port
      else if s ! 0 = CHR ''['' then ipv6_bracketed
      else
        let colon_count = length (filter (\<lambda>c. c = CHR '':'') s) in
        if colon_count = 0 then ipv4_no_port
        else if colon_count = 1 then ipv4_with_port
        else ipv6_no_port)"

text \<open>
  \<^verbatim>\<open>std::from_chars\<close> on an \<^verbatim>\<open>unsigned long\<close> of 64 bits: the longest run of digits is converted; no
  digit, or a value that does not fit, is an error.
\<close>

definition dec_num :: "string \<Rightarrow> nat" where
  "dec_num s = foldl (\<lambda>v c. v * 10 + dec_val c) 0 s"

definition from_chars :: "string \<Rightarrow> (nat \<times> string) option" where
  "from_chars s =
     (let ds = takeWhile is_dec s in
      if ds = [] then None
      else if 2 ^ 64 \<le> dec_num ds then None
      else Some (dec_num ds, dropWhile is_dec s))"

definition parse_port :: "string \<Rightarrow> u16 option" where
  "parse_port s =
     (if s = [] then None
      else if length s > 1 \<and> s ! 0 = CHR ''0'' then None
      else
        (case from_chars s of
           None \<Rightarrow> None
         | Some (val, ptr) \<Rightarrow>
             if ptr \<noteq> [] then None
             else if val > 65535 then None
             else Some (of_nat val)))"

text \<open>\<^verbatim>\<open>find\<close> and \<^verbatim>\<open>rfind\<close> of one character, with \<open>None\<close> for \<^verbatim>\<open>npos\<close>.\<close>

definition find_char :: "char \<Rightarrow> string \<Rightarrow> nat option" where
  "find_char c s = (if c \<in> set s then Some (length (takeWhile (\<lambda>x. x \<noteq> c) s)) else None)"

definition rfind_char :: "char \<Rightarrow> string \<Rightarrow> nat option" where
  "rfind_char c s =
     (if c \<in> set s then Some (length s - 1 - length (takeWhile (\<lambda>x. x \<noteq> c) (rev s))) else None)"

definition substr :: "string \<Rightarrow> nat \<Rightarrow> nat \<Rightarrow> string" where
  "substr s pos n = take n (drop pos s)"

definition parse_endpoint :: "string \<Rightarrow> errc + endpoint" where
  "parse_endpoint s =
     (if s = [] then Inl invalid_argument
      else
        (case detect_endpoint_format s of
           ipv4_no_port \<Rightarrow>
             (case parse_ipv4_address s of
                Inl ec \<Rightarrow> Inl ec
              | Inr addr \<Rightarrow> Inr (endpoint_v4 addr 0))
         | ipv4_with_port \<Rightarrow>
             (case rfind_char (CHR '':'') s of
                None \<Rightarrow> Inl invalid_argument
              | Some colon_pos \<Rightarrow>
                  (case parse_ipv4_address (take colon_pos s) of
                     Inl ec \<Rightarrow> Inl ec
                   | Inr addr \<Rightarrow>
                       (case parse_port (drop (colon_pos + 1) s) of
                          None \<Rightarrow> Inl invalid_argument
                        | Some port \<Rightarrow> Inr (endpoint_v4 addr port))))
         | ipv6_no_port \<Rightarrow>
             (case parse_ipv6_address s of
                Inl ec \<Rightarrow> Inl ec
              | Inr addr \<Rightarrow> Inr (endpoint_v6 addr 0))
         | ipv6_bracketed \<Rightarrow>
             if length s < 2 \<or> s ! 0 \<noteq> CHR ''['' then Inl invalid_argument
             else
               (case find_char (CHR '']'') s of
                  None \<Rightarrow> Inl invalid_argument
                | Some close_bracket \<Rightarrow>
                    (case parse_ipv6_address (substr s 1 (close_bracket - 1)) of
                       Inl ec \<Rightarrow> Inl ec
                     | Inr addr \<Rightarrow>
                         if close_bracket + 1 < length s then
                           if s ! (close_bracket + 1) \<noteq> CHR '':'' then Inl invalid_argument
                           else
                             (case parse_port (drop (close_bracket + 2) s) of
                                None \<Rightarrow> Inl invalid_argument
                              | Some port \<Rightarrow> Inr (endpoint_v6 addr port))
                         else Inr (endpoint_v6 addr 0)))))"

definition endpoint_of_string :: "string \<Rightarrow> errc + endpoint" where
  "endpoint_of_string s = (case parse_endpoint s of Inl ec \<Rightarrow> Inl ec | Inr ep \<Rightarrow> Inr ep)"

section \<open>Ports\<close>

fun dec_string :: "nat \<Rightarrow> string" where
  "dec_string n = (if n < 10 then [dec_char n] else dec_string (n div 10) @ [dec_char (n mod 10)])"

declare dec_string.simps [simp del]

lemma dec_num_snoc [simp]: "dec_num (s @ [c]) = dec_num s * 10 + dec_val c"
  by (simp add: dec_num_def)

lemma dec_num_base [simp]: "dec_num [] = 0" "dec_num [c] = dec_val c"
  by (simp_all add: dec_num_def)

lemma dec_num_dec_string [simp]: "dec_num (dec_string n) = n"
proof (induction n rule: dec_string.induct)
  case (1 n)
  then show ?case
    by (subst dec_string.simps) auto
qed

lemma dec_string_digits [simp]: "list_all is_dec (dec_string n)"
proof (induction n rule: dec_string.induct)
  case (1 n)
  then show ?case by (subst dec_string.simps) auto
qed

lemma dec_string_ne [simp]: "dec_string n \<noteq> []"
  by (subst dec_string.simps) simp

lemma dec_char_inj: "d < 10 \<Longrightarrow> e < 10 \<Longrightarrow> dec_char d = dec_char e \<longleftrightarrow> d = e"
  by (metis dec_val_dec_char)

lemma dec_string_head: "0 < n \<Longrightarrow> hd (dec_string n) \<noteq> dec_char 0"
proof (induction n rule: dec_string.induct)
  case (1 n)
  then show ?case by (subst dec_string.simps) (auto simp: dec_char_inj)
qed

lemma length_dec_string: "1 < length (dec_string n) \<Longrightarrow> 0 < n"
  by (subst (asm) dec_string.simps) (auto split: if_splits)

lemma dec_num_pos: "list_all is_dec s \<Longrightarrow> s \<noteq> [] \<Longrightarrow> hd s \<noteq> dec_char 0 \<Longrightarrow> 0 < dec_num s"
proof (induction s rule: rev_induct)
  case (snoc c s)
  then show ?case
    using dec_char_0D [of c] by (cases "s = []") auto
qed simp

lemma dec_string_dec_num:
  "list_all is_dec s \<Longrightarrow> s \<noteq> [] \<Longrightarrow> (1 < length s \<Longrightarrow> hd s \<noteq> dec_char 0) \<Longrightarrow>
     dec_string (dec_num s) = s"
proof (induction s rule: rev_induct)
  case (snoc c s)
  show ?case
  proof (cases "s = []")
    case True
    with snoc show ?thesis by (simp add: dec_string.simps)
  next
    case False
    then have "0 < dec_num s" using snoc.prems by (intro dec_num_pos) auto
    moreover have "dec_string (dec_num s) = s" using snoc False by auto
    moreover have c: "is_dec c" "dec_val c < 10" using snoc.prems by auto
    ultimately show ?thesis by (subst dec_string.simps) auto
  qed
qed simp

lemma CHR_0_dec_char: "CHR ''0'' = dec_char 0"
  by (simp add: hex_dig_dec [of 0, symmetric] hex_dig_def)

lemma takeWhile_list_all: "list_all P s \<Longrightarrow> takeWhile P s = s" "list_all P s \<Longrightarrow> dropWhile P s = []"
  by (auto simp: list_all_iff)

lemma parse_port_dec_string: "n < 65536 \<Longrightarrow> parse_port (dec_string n) = Some (of_nat n)"
  using dec_string_head [of n] length_dec_string [of n]
  by (auto simp: parse_port_def from_chars_def takeWhile_list_all CHR_0_dec_char hd_conv_nth)

lemma parse_port_SomeD:
  assumes "parse_port s = Some p"
  shows "s = dec_string (unat p)"
proof -
  have s: "s \<noteq> []" "1 < length s \<Longrightarrow> hd s \<noteq> dec_char 0" "dropWhile is_dec s = []"
    "p = of_nat (dec_num (takeWhile is_dec s))" "dec_num (takeWhile is_dec s) < 65536"
    using assms
    by (auto simp: parse_port_def from_chars_def Let_def CHR_0_dec_char hd_conv_nth
        split: if_splits option.splits)
  then have "list_all is_dec s" by (simp add: list_all_iff)
  with s show ?thesis using dec_string_dec_num [of s]
    by (simp add: takeWhile_list_all unat_of_nat take_bit_nat_eq_self)
qed

section \<open>Characters of address texts\<close>

abbreviation colons :: "string \<Rightarrow> nat" where
  "colons s \<equiv> length (filter (\<lambda>c. c = CHR '':'') s)"

definition addr_char :: "char \<Rightarrow> bool" where
  "addr_char c \<longleftrightarrow> c = CHR '':'' \<or> c = CHR ''.'' \<or> 0 \<le> hexdig_value c"

lemma addr_char_simps [simp]:
  "addr_char (CHR '':'')" "addr_char (CHR ''.'')" "\<not> addr_char (CHR ''['')" "\<not> addr_char (CHR '']'')"
  "k < 16 \<Longrightarrow> addr_char (hex_dig k)" "is_dec c \<Longrightarrow> addr_char c"
  by (simp_all add: addr_char_def) (auto simp: hexdig_value_def is_dec_def Let_def)

lemma print_hex_chars: "w < 65536 \<Longrightarrow> list_all addr_char (print_hex w) \<and> colons (print_hex w) = 0"
  by (erule hex_shapes)
    (auto simp: print_hex_1 print_hex_2 print_hex_3 print_hex_4 simp del: distrib_right_numeral)

lemma colon_words_chars:
  "words_ok ws \<Longrightarrow> list_all addr_char (colon_words ws) \<and> colons (colon_words ws) = length ws"
  by (induction ws) (auto simp: print_hex_chars)

lemma v4_text_chars: "list_all addr_char (v4_to_string a)"
  unfolding list_all_iff
proof
  fix ch assume "ch \<in> set (v4_to_string a)"
  with v4_chars [of a] have "ch = CHR ''.'' \<or> is_dec ch" by blast
  then show "addr_char ch" by (elim disjE) simp_all
qed

lemma v4_no_colon: "CHR '':'' \<notin> set (v4_to_string a)"
proof
  assume "CHR '':'' \<in> set (v4_to_string a)"
  then have "CHR '':'' = CHR ''.'' \<or> is_dec (CHR '':'')" by (rule bspec [OF v4_chars])
  then show False by simp
qed

lemma v6_text_chars:
  assumes "wf_v6 a"
  shows "list_all addr_char (v6_to_string a) \<and> 2 \<le> colons (v6_to_string a)"
proof (cases "v6_is_v4_mapped a")
  case True
  with assms obtain v where "a = v6_of_v4 v" using mapped_is_of_v4 by blast
  then show ?thesis
    using v4_text_chars [of v] hex_dig_def [of 15] addr_char_simps(5) [of 15] by (simp add: print_mapped)
next
  case False
  then obtain ws where ws: "length ws = 8" "words_ok ws" and pr: "printed ws (v6_to_string a)"
    using v6_words [OF assms] by blast
  from pr show ?thesis
    by (cases rule: printed_cases)
      (use ws in \<open>auto simp: print_hex_chars colon_words_chars neq_Nil_conv\<close>)
qed

lemma colons_0: "colons s = 0 \<longleftrightarrow> CHR '':'' \<notin> set s"
  by (auto simp: filter_empty_conv)

lemma dec_string_no_colon: "CHR '':'' \<notin> set (dec_string n)"
  using dec_string_digits [of n] by (auto simp: list_all_iff)

lemma addr_text_head: "list_all addr_char s \<Longrightarrow> s \<noteq> [] \<Longrightarrow> s ! 0 \<noteq> CHR ''[''"
  by (cases s) auto

lemma addr_text_no_bracket: "list_all addr_char s \<Longrightarrow> CHR '']'' \<notin> set s"
  by (auto simp: list_all_iff)

lemma v4_text_ne [simp]: "v4_to_string a \<noteq> []"
  using length_v4_to_string(1) [of a] by auto

lemma rfind_char_sep: "c \<notin> set u \<Longrightarrow> rfind_char c (t @ c # u) = Some (length t)"
  by (simp add: rfind_char_def takeWhile_append)

lemma rfind_char_SomeD: "rfind_char c s = Some k \<Longrightarrow> s = take k s @ c # drop (k + 1) s"
proof -
  assume "rfind_char c s = Some k"
  then have "c \<in> set s" and k: "k = length s - 1 - length (takeWhile (\<lambda>x. x \<noteq> c) (rev s))"
    by (auto simp: rfind_char_def split: if_splits)
  then obtain t u where s: "s = t @ c # u" "c \<notin> set u" by (metis split_list_last)
  then have "k = length t" using k by (simp add: takeWhile_append)
  with s show ?thesis by simp
qed

lemma find_char_sep: "c \<notin> set t \<Longrightarrow> find_char c (t @ c # u) = Some (length t)"
  by (simp add: find_char_def takeWhile_append)

lemma find_char_SomeD:
  "find_char c s = Some k \<Longrightarrow> s = take k s @ c # drop (k + 1) s \<and> c \<notin> set (take k s)"
proof -
  assume "find_char c s = Some k"
  then have "c \<in> set s" and k: "k = length (takeWhile (\<lambda>x. x \<noteq> c) s)"
    by (auto simp: find_char_def split: if_splits)
  then obtain t u where s: "s = t @ c # u" "c \<notin> set t" by (metis split_list_first)
  then have "k = length t" using k by (simp add: takeWhile_append)
  with s show ?thesis by simp
qed

section \<open>Texts of endpoints\<close>

lemma detect_v4: "detect_endpoint_format (v4_to_string a) = ipv4_no_port"
  using v4_no_colon [of a] addr_text_head [OF v4_text_chars v4_text_ne]
  by (simp add: detect_endpoint_format_def filter_empty_conv)

lemma detect_v4_port:
  "detect_endpoint_format (v4_to_string a @ CHR '':'' # dec_string n) = ipv4_with_port"
  using v4_no_colon [of a] dec_string_no_colon [of n] addr_text_head [OF v4_text_chars v4_text_ne, of a]
  by (simp add: detect_endpoint_format_def filter_empty_conv nth_append Let_def)

lemma detect_v6: "wf_v6 a \<Longrightarrow> detect_endpoint_format (v6_to_string a) = ipv6_no_port"
  using v6_text_chars [of a] addr_text_head [of "v6_to_string a"]
  by (auto simp: detect_endpoint_format_def Let_def)

lemma parse_v4_text: "parse_endpoint (v4_to_string a) = Inr (endpoint_v4 a 0)"
  by (simp add: parse_endpoint_def detect_v4 parse_ipv4_print)

lemma parse_v4_port_text:
  "parse_endpoint (v4_to_string a @ CHR '':'' # dec_string (unat p)) = Inr (endpoint_v4 a p)"
  by (simp add: parse_endpoint_def detect_v4_port rfind_char_sep dec_string_no_colon
      parse_ipv4_print parse_port_dec_string)

lemma parse_v6_text: "wf_v6 a \<Longrightarrow> parse_endpoint (v6_to_string a) = Inr (endpoint_v6 a 0)"
  using v6_text_chars [of a] by (auto simp: parse_endpoint_def detect_v6 parse_ipv6_print)

lemma detect_bracket: "detect_endpoint_format (CHR ''['' # s) = ipv6_bracketed"
  by (simp add: detect_endpoint_format_def)

lemma find_bracket: "wf_v6 a \<Longrightarrow> find_char (CHR '']'') (CHR ''['' # v6_to_string a @ CHR '']'' # r) =
    Some (Suc (length (v6_to_string a)))"
  using find_char_sep [of "CHR '']''" "CHR ''['' # v6_to_string a" r] v6_text_chars [of a]
  by (simp add: addr_text_no_bracket)

lemma parse_v6_bracket_text:
  "wf_v6 a \<Longrightarrow> parse_endpoint (CHR ''['' # v6_to_string a @ '']'') = Inr (endpoint_v6 a 0)"
  using find_bracket [of a "[]"]
  by (simp add: parse_endpoint_def detect_bracket substr_def parse_ipv6_print)

lemma parse_v6_port_text:
  "wf_v6 a \<Longrightarrow> parse_endpoint (CHR ''['' # v6_to_string a @ '']:'' @ dec_string (unat p)) =
     Inr (endpoint_v6 a p)"
  using find_bracket [of a "CHR '':'' # dec_string (unat p)"]
  by (simp add: parse_endpoint_def detect_bracket substr_def parse_ipv6_print nth_append
      parse_port_dec_string)

lemma parse_endpoint_v4D:
  assumes "parse_endpoint s = Inr ep" "ep_is_v4 ep"
  shows "\<exists>a p. ep = endpoint_v4 a p \<and>
    (s = v4_to_string a \<and> p = 0 \<or> s = v4_to_string a @ CHR '':'' # dec_string (unat p))"
  using assms
  by (auto simp: parse_endpoint_def endpoint_v6_def dest!: parse_ipv4_InrD parse_port_SomeD
      rfind_char_SomeD
      split: if_splits endpoint_format.splits sum.splits option.splits) blast+

lemma bracket_split:
  assumes "find_char (CHR '']'') s = Some k" "s \<noteq> []" "s ! 0 = CHR ''[''"
  shows "s = CHR ''['' # substr s 1 (k - 1) @ CHR '']'' # drop (k + 1) s"
proof -
  note d = find_char_SomeD [OF assms(1)]
  have "k \<noteq> 0"
  proof
    assume "k = 0"
    with d have "s ! 0 = CHR '']''" by (metis append_Nil nth_Cons_0 take_0)
    with assms(3) show False by simp
  qed
  then obtain j where "k = Suc j" by (cases k) auto
  with d assms show ?thesis by (cases s) (auto simp: substr_def)
qed

lemma drop_colon: "k < length s \<Longrightarrow> s ! k = c \<Longrightarrow> drop k s = c # drop (Suc k) s"
  using Cons_nth_drop_Suc [of k s] by simp

lemma parse_bracketed:
  assumes "detect_endpoint_format s = ipv6_bracketed" "parse_endpoint s = Inr ep"
  shows "\<exists>t v p. ep = endpoint_v6 v p \<and> parse_ipv6_address t = Inr v \<and>
    (s = CHR ''['' # t @ '']'' \<and> p = 0 \<or> s = CHR ''['' # t @ '']:'' @ dec_string (unat p))"
proof -
  have ne: "s \<noteq> []" "s ! 0 = CHR ''[''"
    using assms(1) by (auto simp: detect_endpoint_format_def Let_def split: if_splits)
  then obtain k where k: "find_char (CHR '']'') s = Some k"
    using assms by (auto simp: parse_endpoint_def split: if_splits option.splits)
  define t where "t = substr s 1 (k - 1)"
  obtain v where v: "parse_ipv6_address t = Inr v"
    using assms ne k by (auto simp: parse_endpoint_def t_def split: if_splits option.splits sum.splits)
  note s = bracket_split [OF k ne, folded t_def]
  show ?thesis
  proof (cases "k + 1 < length s")
    case True
    then obtain p where "s ! (k + 1) = CHR '':''" "parse_port (drop (k + 2) s) = Some p"
        "ep = endpoint_v6 v p"
      using assms ne k v
      by (auto simp: parse_endpoint_def t_def split: if_splits option.splits)
    with True drop_colon [of "k + 1" s] s parse_port_SomeD v show ?thesis
      by (metis add_2_eq_Suc' append.assoc append_Cons append_Nil Suc_eq_plus1)
  next
    case False
    then have "ep = endpoint_v6 v 0" "drop (k + 1) s = []"
      using assms ne k v by (auto simp: parse_endpoint_def t_def split: if_splits)
    with s v show ?thesis by auto
  qed
qed

lemma parse_endpoint_v6D:
  assumes "parse_endpoint s = Inr ep" "\<not> ep_is_v4 ep"
  shows "\<exists>t v p. ep = endpoint_v6 v p \<and> wf_v6 v \<and> parse_ipv6_address t = Inr v \<and>
    (s = t \<and> p = 0 \<or> s = CHR ''['' # t @ '']'' \<and> p = 0 \<or>
     s = CHR ''['' # t @ '']:'' @ dec_string (unat p))"
proof -
  have wf: "parse_ipv6_address t = Inr v \<Longrightarrow> wf_v6 v" for t v
    using parse_ipv6_result [of t] by auto
  show ?thesis
  proof (cases "detect_endpoint_format s = ipv6_bracketed")
    case True
    from parse_bracketed [OF True assms(1)] wf show ?thesis by blast
  next
    case False
    with assms have "\<exists>v. parse_ipv6_address s = Inr v \<and> ep = endpoint_v6 v 0"
      by (auto simp: parse_endpoint_def endpoint_v4_def
          split: if_splits endpoint_format.splits sum.splits option.splits)
    with wf show ?thesis by blast
  qed
qed

lemma parse_endpoint_error: "parse_endpoint s = Inl e \<Longrightarrow> e = invalid_argument"
proof -
  have "parse_ipv6_address t = Inl e \<Longrightarrow> e = invalid_argument" for t e
    using parse_ipv6_result [of t] by auto
  then show "parse_endpoint s = Inl e \<Longrightarrow> e = invalid_argument"
    by (auto simp: parse_endpoint_def dest: parse_ipv4_error
        split: if_splits endpoint_format.splits sum.splits option.splits)
qed

section \<open>Properties\<close>

text \<open>
  C10: an IPv4 endpoint is parsed from exactly two texts, the address alone, with port 0, and the
  address followed by a colon and the port in decimal without leading zeros.
\<close>

theorem endpoint_parse_v4_iff:
  "parse_endpoint s = Inr (endpoint_v4 a p) \<longleftrightarrow>
     s = v4_to_string a \<and> p = 0 \<or> s = v4_to_string a @ CHR '':'' # dec_string (unat p)"
proof
  assume "parse_endpoint s = Inr (endpoint_v4 a p)"
  from parse_endpoint_v4D [OF this]
  show "s = v4_to_string a \<and> p = 0 \<or> s = v4_to_string a @ CHR '':'' # dec_string (unat p)"
    by (auto simp: endpoint_v4_def)
qed (use parse_v4_text parse_v4_port_text in auto)

text \<open>
  C11: every IPv6 endpoint is read back from its three texts: the bare address and the bracketed
  address, both with port 0, and the bracketed address with a port.
\<close>

theorem endpoint_parse_v6_texts:
  assumes "wf_v6 a"
  shows "parse_endpoint (v6_to_string a) = Inr (endpoint_v6 a 0) \<and>
    parse_endpoint (CHR ''['' # v6_to_string a @ '']'') = Inr (endpoint_v6 a 0) \<and>
    parse_endpoint (CHR ''['' # v6_to_string a @ '']:'' @ dec_string (unat p)) = Inr (endpoint_v6 a p)"
  using assms parse_v6_text parse_v6_bracket_text parse_v6_port_text by auto

theorem endpoint_parse_v6_texts_witness:
  "wf_v6 v6_loopback \<and>
   parse_endpoint (CHR ''['' # v6_to_string v6_loopback @ '']:'' @ dec_string (unat (443 :: u16))) =
     Inr (endpoint_v6 v6_loopback 443)"
  using endpoint_parse_v6_texts [of v6_loopback 443] by (simp add: v6_loopback_def v6_default_def)

text \<open>
  C12: whatever the text, \<open>parse_endpoint\<close> fails with \<open>invalid_argument\<close> or yields a well-formed
  endpoint: an IPv4 endpoint, or an IPv6 endpoint whose address text occurs in the input bare with
  port 0, or between brackets, alone or followed by a colon and the port.
\<close>

theorem endpoint_parse_sound:
  "parse_endpoint s = Inl invalid_argument \<or>
   (\<exists>ep. parse_endpoint s = Inr ep \<and> wf_endpoint ep \<and>
     (ep_is_v4 ep \<or>
      (\<exists>t. parse_ipv6_address t = Inr (ep_v6_address ep) \<and>
        (s = t \<and> ep_port ep = 0 \<or> s = CHR ''['' # t @ '']'' \<and> ep_port ep = 0 \<or>
         s = CHR ''['' # t @ '']:'' @ dec_string (unat (ep_port ep))))))"
proof (cases "parse_endpoint s")
  case (Inl e)
  then show ?thesis using parse_endpoint_error by simp
next
  case (Inr ep)
  show ?thesis
  proof (cases "ep_is_v4 ep")
    case True
    with Inr parse_endpoint_v4D [OF Inr] show ?thesis by auto
  next
    case False
    with parse_endpoint_v6D [OF Inr] obtain t v p where "ep = endpoint_v6 v p" "wf_v6 v"
      "parse_ipv6_address t = Inr v"
      "s = t \<and> p = 0 \<or> s = CHR ''['' # t @ '']'' \<and> p = 0 \<or>
       s = CHR ''['' # t @ '']:'' @ dec_string (unat p)" by blast
    moreover from this have wf: "wf_endpoint ep" and "ep_v6_address ep = v" "ep_port ep = p"
      by (simp_all add: endpoint_v6_def wf_endpoint_def)
    ultimately have "\<exists>t. parse_ipv6_address t = Inr (ep_v6_address ep) \<and>
        (s = t \<and> ep_port ep = 0 \<or> s = CHR ''['' # t @ '']'' \<and> ep_port ep = 0 \<or>
         s = CHR ''['' # t @ '']:'' @ dec_string (unat (ep_port ep)))" by (intro exI [of _ t]) simp
    with wf Inr show ?thesis by simp
  qed
qed

text \<open>
  C13: \<open>operator<=>\<close> is a strict total order on endpoints whose equivalence is \<open>operator==\<close>, as
  ordered containers need: exactly one of less, equal and greater holds, swapping the arguments
  reverses the order, and less is transitive. On the endpoints that the constructors build,
  \<open>operator==\<close> is equality of all fields.
\<close>

theorem endpoint_order_total:
  "(endpoint_cmp a b = so_equal \<longleftrightarrow> endpoint_eq a b) \<and>
   endpoint_cmp b a = so_reverse (endpoint_cmp a b) \<and>
   (endpoint_cmp a b = so_less \<and> endpoint_cmp b c = so_less \<longrightarrow> endpoint_cmp a c = so_less) \<and>
   (wf_endpoint a \<and> wf_endpoint b \<longrightarrow> (endpoint_eq a b \<longleftrightarrow> a = b))"
  using ep_order.cmp_equal ep_order.cmp_reverse ep_order.less_trans endpoint_eq_wf by blast

theorem endpoint_order_total_witness:
  "endpoint_cmp (endpoint_v4 v4_any 1) (endpoint_v4 v4_loopback 0) = so_less \<and>
   endpoint_cmp (endpoint_v4 v4_loopback 0) (endpoint_v6 v6_default 0) = so_less \<and>
   endpoint_cmp (endpoint_v4 v4_any 1) (endpoint_v6 v6_default 0) = so_less \<and>
   wf_endpoint (endpoint_v4 v4_any 1) \<and> wf_endpoint (endpoint_v4 v4_loopback 0)"
proof -
  have "endpoint_cmp (endpoint_v4 v4_any 1) (endpoint_v4 v4_loopback 0) = so_less"
    "endpoint_cmp (endpoint_v4 v4_loopback 0) (endpoint_v6 v6_default 0) = so_less"
    by (simp_all add: endpoint_cmp_def endpoint_v4_def endpoint_v6_def cmp_val_def v4_any_def
        v4_loopback_def)
  with endpoint_order_total [of "endpoint_v4 v4_any 1" "endpoint_v4 v4_loopback 0"
      "endpoint_v6 v6_default 0"] show ?thesis by simp
qed

end
