(* ===== verification/Endpoint_Convert.thy ===== *)
theory Endpoint_Convert
  imports Endpoint
begin

text \<open>
  Unix domain endpoints (local_endpoint.hpp, local_endpoint.cpp) and the conversions between
  endpoints and the socket address structures of the operating system (endpoint_convert.hpp).

  A socket address structure is modelled by the bytes the code reads and writes: the port and
  the address in network order, and the path bytes that follow the family of a Unix address. A
  read behind the end of the local \<^verbatim>\<open>sockaddr_un\<close> copy is the error \<open>out_of_bounds\<close>.
\<close>

section \<open>Local endpoints\<close>

definition max_path_length :: nat where
  "max_path_length = 103"

record local_endpoint =
  le_path :: "u8 list"
  le_len :: u8

definition local_endpoint_default :: local_endpoint where
  "local_endpoint_default = \<lparr>le_path = replicate 104 0, le_len = 0\<rparr>"

text \<open>\<^verbatim>\<open>memcpy\<close> of a prefix into an array.\<close>

definition copy_into :: "u8 list \<Rightarrow> u8 list \<Rightarrow> u8 list" where
  "copy_into dst src = src @ drop (length src) dst"

definition local_endpoint_throwing :: "u8 list \<Rightarrow> errc + local_endpoint" where
  "local_endpoint_throwing path =
     (if length path > max_path_length then Inl filename_too_long
      else Inr \<lparr>le_path = copy_into (replicate 104 0) path, le_len = of_nat (length path)\<rparr>)"

definition local_endpoint_ec :: "u8 list \<Rightarrow> local_endpoint \<times> errc option" where
  "local_endpoint_ec path =
     (if length path > max_path_length then (local_endpoint_default, Some filename_too_long)
      else (\<lparr>le_path = copy_into (replicate 104 0) path, le_len = of_nat (length path)\<rparr>, None))"

definition local_path :: "local_endpoint \<Rightarrow> u8 list" where
  "local_path ep = take (unat (le_len ep)) (le_path ep)"

definition local_is_abstract :: "local_endpoint \<Rightarrow> bool" where
  "local_is_abstract ep \<longleftrightarrow> le_len ep > 0 \<and> le_path ep ! 0 = 0"

definition local_empty :: "local_endpoint \<Rightarrow> bool" where
  "local_empty ep \<longleftrightarrow> le_len ep = 0"

text \<open>\<^verbatim>\<open>memcmp\<close> on the first \<open>n\<close> bytes compares them as unsigned characters.\<close>

definition memcmp :: "u8 list \<Rightarrow> u8 list \<Rightarrow> nat \<Rightarrow> strong_ordering" where
  "memcmp a b n = array_cmp (take n a) (take n b)"

definition local_eq :: "local_endpoint \<Rightarrow> local_endpoint \<Rightarrow> bool" where
  "local_eq a b \<longleftrightarrow> le_len a = le_len b \<and> memcmp (le_path a) (le_path b) (unat (le_len a)) = so_equal"

definition local_cmp :: "local_endpoint \<Rightarrow> local_endpoint \<Rightarrow> strong_ordering" where
  "local_cmp a b =
     (let common = min (le_len a) (le_len b);
          c = memcmp (le_path a) (le_path b) (unat common) in
      if c \<noteq> so_equal then c else cmp_val (le_len a) (le_len b))"

definition local_format :: "local_endpoint \<Rightarrow> u8 list" where
  "local_format ep =
     (if local_empty ep then []
      else if local_is_abstract ep then
        map (of_char :: char \<Rightarrow> u8) ''[abstract:'' @ take (unat (le_len ep) - 1) (drop 1 (le_path ep)) @
        map of_char '']''
      else local_path ep)"

definition wf_local :: "local_endpoint \<Rightarrow> bool" where
  "wf_local ep \<longleftrightarrow> length (le_path ep) = 104 \<and> unat (le_len ep) \<le> max_path_length \<and>
     drop (unat (le_len ep)) (le_path ep) = replicate (104 - unat (le_len ep)) 0"

section \<open>Socket addresses\<close>

record sockaddr_in =
  sin_port :: "u8 \<times> u8"
  sin_addr :: v4_bytes

record sockaddr_in6 =
  sin6_port :: "u8 \<times> u8"
  sin6_addr :: "u8 list"

text \<open>
  \<^verbatim>\<open>sockaddr_storage\<close> by family. The bytes of \<open>SS_unix\<close> are those behind \<^verbatim>\<open>ss_family\<close>.
\<close>

datatype sockaddr_storage = SS_inet sockaddr_in | SS_inet6 sockaddr_in6 | SS_unix "u8 list" | SS_other

datatype address_family = AF_UNSPEC | AF_INET | AF_INET6 | AF_UNIX

fun ss_family :: "sockaddr_storage \<Rightarrow> address_family" where
  "ss_family (SS_inet _) = AF_INET"
| "ss_family (SS_inet6 _) = AF_INET6"
| "ss_family (SS_unix _) = AF_UNIX"
| "ss_family SS_other = AF_UNSPEC"

text \<open>\<^verbatim>\<open>htons\<close> and \<^verbatim>\<open>ntohs\<close>: the two bytes of a port in network order.\<close>

definition htons :: "u16 \<Rightarrow> u8 \<times> u8" where
  "htons p = (of_nat (unat p div 256), of_nat (unat p mod 256))"

definition ntohs :: "u8 \<times> u8 \<Rightarrow> u16" where
  "ntohs b = of_nat (unat (fst b) * 256 + unat (snd b))"

definition to_sockaddr_in :: "endpoint \<Rightarrow> sockaddr_in" where
  "to_sockaddr_in ep = \<lparr>sin_port = htons (ep_port ep), sin_addr = v4_to_bytes (ep_v4_address ep)\<rparr>"

definition to_sockaddr_in6 :: "endpoint \<Rightarrow> sockaddr_in6" where
  "to_sockaddr_in6 ep = \<lparr>sin6_port = htons (ep_port ep), sin6_addr = ep_v6_address ep\<rparr>"

definition from_sockaddr_in :: "sockaddr_in \<Rightarrow> endpoint" where
  "from_sockaddr_in sa = endpoint_v4 (ipv4_of_bytes (sin_addr sa)) (ntohs (sin_port sa))"

definition from_sockaddr_in6 :: "sockaddr_in6 \<Rightarrow> endpoint" where
  "from_sockaddr_in6 sa = endpoint_v6 (sin6_addr sa) (ntohs (sin6_port sa))"

definition to_v4_mapped_sockaddr_in6 :: "endpoint \<Rightarrow> sockaddr_in6" where
  "to_v4_mapped_sockaddr_in6 ep =
     (let addr = (replicate 16 0) [10 := 0xff, 11 := 0xff] in
      \<lparr>sin6_port = htons (ep_port ep),
       sin6_addr = take 12 addr @ bytes4_list (v4_to_bytes (ep_v4_address ep))\<rparr>)"

definition to_sockaddr :: "endpoint \<Rightarrow> sockaddr_storage \<times> nat" where
  "to_sockaddr ep =
     (if ep_is_v4 ep then (SS_inet (to_sockaddr_in ep), 16)
      else (SS_inet6 (to_sockaddr_in6 ep), 28))"

definition to_sockaddr_family :: "endpoint \<Rightarrow> address_family \<Rightarrow> sockaddr_storage \<times> nat" where
  "to_sockaddr_family ep family =
     (if ep_is_v4 ep \<and> family = AF_INET6 then (SS_inet6 (to_v4_mapped_sockaddr_in6 ep), 28)
      else to_sockaddr ep)"

definition from_sockaddr :: "sockaddr_storage \<Rightarrow> endpoint" where
  "from_sockaddr st = (case st of
     SS_inet sa \<Rightarrow> from_sockaddr_in sa
   | SS_inet6 sa6 \<Rightarrow> from_sockaddr_in6 sa6
   | _ \<Rightarrow> endpoint_default)"

definition endpoint_family :: "endpoint \<Rightarrow> address_family" where
  "endpoint_family ep = (if \<not> ep_is_v4 ep then AF_INET6 else AF_INET)"

text \<open>
  \<^verbatim>\<open>sizeof(sun_path)\<close>, \<^verbatim>\<open>offsetof(un_sa_t, sun_path)\<close> and \<^verbatim>\<open>sizeof(un_sa_t)\<close>, as on Linux and in the
  structure that the header declares for Windows.
\<close>

abbreviation sun_path_size :: nat where "sun_path_size \<equiv> 108"
abbreviation sun_path_offset :: nat where "sun_path_offset \<equiv> 2"
abbreviation sockaddr_un_size :: nat where "sockaddr_un_size \<equiv> 110"

definition to_sockaddr_local :: "local_endpoint \<Rightarrow> sockaddr_storage \<times> nat" where
  "to_sockaddr_local ep =
     (let path = local_path ep;
          copy_len = min (length path) sun_path_size;
          sun_path = copy_into (replicate sun_path_size 0) (take copy_len path) in
      (SS_unix (copy_into (replicate 126 0) sun_path),
       if local_is_abstract ep then sun_path_offset + copy_len else sockaddr_un_size))"

definition memchr_nul :: "u8 list \<Rightarrow> nat \<Rightarrow> errc + nat option" where
  "memchr_nul buf n =
     (let k = length (takeWhile (\<lambda>b. b \<noteq> 0) buf) in
      if k < length buf then Inr (if k < n then Some k else None)
      else if n \<le> length buf then Inr None
      else Inl out_of_bounds)"

definition from_sockaddr_local :: "sockaddr_storage \<Rightarrow> nat \<Rightarrow> errc + local_endpoint" where
  "from_sockaddr_local st len = (case st of
     SS_unix bytes \<Rightarrow>
       let copied = min len sockaddr_un_size - sun_path_offset;
           sun_path = copy_into (replicate sun_path_size 0) (take copied bytes) in
       if len \<le> sun_path_offset then Inr local_endpoint_default
       else
         let path_len = len - sun_path_offset in
         (case (if path_len > 0 \<and> sun_path ! 0 \<noteq> 0 then memchr_nul sun_path path_len else Inr None) of
            Inl e \<Rightarrow> Inl e
          | Inr nul \<Rightarrow>
              let path_len' = (case nul of Some k \<Rightarrow> k | None \<Rightarrow> path_len) in
              (case local_endpoint_ec (take path_len' sun_path @ replicate (path_len' - sun_path_size) 0) of
                 (ep, None) \<Rightarrow> Inr ep
               | (ep, Some _) \<Rightarrow> Inr local_endpoint_default))
   | _ \<Rightarrow> Inr local_endpoint_default)"

section \<open>IP socket addresses\<close>

lemma ntohs_htons [simp]: "ntohs (htons p) = p"
proof -
  have "unat p div 256 < 256" using unat_u16_less [of p] by (simp add: less_mult_imp_div_less)
  then show ?thesis by (simp add: ntohs_def htons_def)
qed

lemma from_to_sockaddr: "wf_endpoint ep \<Longrightarrow> from_sockaddr (fst (to_sockaddr ep)) = ep"
  by (elim wf_endpoint_cases)
    (simp_all add: to_sockaddr_def from_sockaddr_def from_sockaddr_in_def to_sockaddr_in_def
      from_sockaddr_in6_def to_sockaddr_in6_def endpoint_v4_def endpoint_v6_def ipv4_of_bytes_to_bytes)

lemma to_v4_mapped: "to_v4_mapped_sockaddr_in6 (endpoint_v4 a p) =
    \<lparr>sin6_port = htons p, sin6_addr = v6_of_v4 a\<rparr>"
  by (simp add: to_v4_mapped_sockaddr_in6_def endpoint_v4_def v6_of_v4_def bytes4_list_def
      numeral_eq_Suc split: prod.splits)

section \<open>Local endpoints\<close>

lemma length_copy_into [simp]: "length src \<le> length dst \<Longrightarrow> length (copy_into dst src) = length dst"
  by (simp add: copy_into_def)

lemma copy_into_zeros: "copy_into (replicate n 0) src = src @ replicate (n - length src) 0"
  by (simp add: copy_into_def)

lemma wf_local_default: "wf_local local_endpoint_default"
  by (simp add: wf_local_def local_endpoint_default_def)

lemma local_path_default [simp]: "local_path local_endpoint_default = []"
  by (simp add: local_path_def local_endpoint_default_def)

lemma local_endpoint_ec_ok:
  assumes "length path \<le> max_path_length"
  shows "\<exists>ep. local_endpoint_ec path = (ep, None) \<and> local_endpoint_throwing path = Inr ep \<and>
    wf_local ep \<and> local_path ep = path"
  using assms
  by (simp add: local_endpoint_ec_def local_endpoint_throwing_def wf_local_def local_path_def
      max_path_length_def copy_into_zeros)

lemma wf_local_length: "wf_local ep \<Longrightarrow> length (local_path ep) = unat (le_len ep)"
  by (simp add: wf_local_def local_path_def max_path_length_def)

lemma wf_local_bound: "wf_local ep \<Longrightarrow> length (local_path ep) \<le> 103"
  by (simp add: wf_local_length) (simp add: wf_local_def max_path_length_def)

lemma wf_local_eq:
  assumes "wf_local a" "wf_local b" "local_path a = local_path b"
  shows "a = b"
proof (rule local_endpoint.equality)
  have len: "unat (le_len a) = unat (le_len b)" using assms wf_local_length by metis
  then show "le_len a = le_len b" by (simp add: word_unat_eq_iff)
  have "le_path x = local_path x @ replicate (104 - unat (le_len x)) 0" if "wf_local x" for x
    using that append_take_drop_id [of "unat (le_len x)" "le_path x"]
    by (simp add: wf_local_def local_path_def)
  with assms len show "le_path a = le_path b" by metis
qed simp

lemma local_endpoint_ec_path: "wf_local ep \<Longrightarrow> local_endpoint_ec (local_path ep) = (ep, None)"
  using local_endpoint_ec_ok [of "local_path ep"] wf_local_bound [of ep] wf_local_eq
  by (auto simp: max_path_length_def)

lemma local_is_abstract_path:
  "wf_local ep \<Longrightarrow> local_is_abstract ep \<longleftrightarrow> (\<exists>p. local_path ep = 0 # p)"
  by (cases "le_path ep"; cases "unat (le_len ep)")
    (auto simp: local_is_abstract_def local_path_def wf_local_def word_greater_zero_iff unat_eq_0
      simp flip: word_neq_0_conv)

lemma array_cmp_common:
  "array_cmp xs ys =
    (let n = min (length xs) (length ys); c = array_cmp (take n xs) (take n ys) in
     if c \<noteq> so_equal then c else cmp_val (length xs) (length ys))"
  by (induction xs ys rule: array_cmp.induct) (auto simp: cmp_val_def Let_def)

lemma local_cmp_path:
  assumes "wf_local a" "wf_local b"
  shows "local_cmp a b = cmp_val (local_path a) (local_path b)"
proof -
  let ?n = "min (unat (le_len a)) (unat (le_len b))"
  have "unat (min (le_len a) (le_len b)) = ?n"
    by (simp add: min_def word_le_nat_alt)
  moreover have "take ?n (local_path x) = take ?n (le_path x)" if "x = a \<or> x = b" for x
    using that by (auto simp: local_path_def min_def)
  moreover have "cmp_val (le_len a) (le_len b) = cmp_val (unat (le_len a)) (unat (le_len b))"
    by (simp add: cmp_val_def word_less_nat_alt word_unat_eq_iff)
  ultimately show ?thesis
    using array_cmp_common [of "local_path a" "local_path b"] assms
    by (simp add: local_cmp_def memcmp_def array_cmp_val [symmetric] wf_local_length Let_def)
qed

lemma local_eq_path: "wf_local a \<Longrightarrow> wf_local b \<Longrightarrow> local_eq a b \<longleftrightarrow> local_path a = local_path b"
proof -
  assume "wf_local a" "wf_local b"
  then have "local_path a = local_path b \<Longrightarrow> le_len a = le_len b"
    by (metis wf_local_length word_unat_eq_iff)
  then show ?thesis
    by (auto simp: local_eq_def memcmp_def array_cmp_val cmp_val_def local_path_def split: if_splits)
qed

interpretation local_order: three_way wf_local local_eq local_cmp
  by (rule three_way_key [where key = local_path]) (simp_all add: local_cmp_path local_eq_path)

section \<open>Unix socket addresses\<close>

lemma to_sockaddr_local_path:
  assumes "wf_local ep"
  shows "to_sockaddr_local ep =
    (SS_unix (local_path ep @ replicate (126 - length (local_path ep)) 0),
     if local_is_abstract ep then 2 + length (local_path ep) else 110)"
proof -
  have "length (local_path ep) \<le> 103" using assms by (rule wf_local_bound)
  then show ?thesis
    by (simp add: to_sockaddr_local_def Let_def copy_into_zeros replicate_add [symmetric]
        min_absorb1)
qed

lemma memchr_nul_found:
  assumes "length p < n" "n \<le> length p + k"
  shows "memchr_nul (p @ replicate k 0) n = Inr (Some (length (takeWhile (\<lambda>b. b \<noteq> 0) p)))"
proof -
  have "length (takeWhile (\<lambda>b. b \<noteq> 0) (p @ replicate k 0)) = length (takeWhile (\<lambda>b. b \<noteq> 0) p)"
    by (induction p) auto
  moreover have "length (takeWhile (\<lambda>b. b \<noteq> 0) p) \<le> length p" by (rule length_takeWhile_le)
  ultimately show ?thesis using assms by (simp add: memchr_nul_def Let_def)
qed

lemma take_takeWhile: "take (length (takeWhile P p)) (p @ r) = takeWhile P p"
  by (induction p) auto

lemma from_sockaddr_local_abstract:
  assumes "wf_local ep" "local_is_abstract ep"
  shows "from_sockaddr_local (fst (to_sockaddr_local ep)) (snd (to_sockaddr_local ep)) = Inr ep"
proof -
  obtain p where p: "local_path ep = 0 # p" using assms local_is_abstract_path by blast
  then have "length p \<le> 102" using wf_local_bound [OF assms(1)] by simp
  with assms p local_endpoint_ec_path [OF assms(1)] show ?thesis
    by (simp add: from_sockaddr_local_def to_sockaddr_local_path Let_def copy_into_zeros)
qed

lemma from_sockaddr_local_path:
  assumes "wf_local ep" "\<not> local_is_abstract ep" "local_path ep = c # p"
  shows "\<exists>ep'. from_sockaddr_local (fst (to_sockaddr_local ep)) (snd (to_sockaddr_local ep)) = Inr ep'
    \<and> wf_local ep' \<and> local_path ep' = takeWhile (\<lambda>b. b \<noteq> 0) (local_path ep)"
proof -
  let ?p = "local_path ep" and ?q = "takeWhile (\<lambda>b. b \<noteq> 0) (local_path ep)"
  have len: "length ?p \<le> 103" using wf_local_bound [OF assms(1)] .
  have c: "c \<noteq> 0" using assms local_is_abstract_path by auto
  have q: "length ?q \<le> 103" using len length_takeWhile_le [of "\<lambda>b. b \<noteq> 0" ?p] by linarith
  then obtain ep' where ep': "local_endpoint_ec ?q = (ep', None)" "wf_local ep'" "local_path ep' = ?q"
    using local_endpoint_ec_ok [of ?q] by (auto simp: max_path_length_def)
  have sun: "copy_into (replicate 108 0) (take 108 (?p @ replicate (126 - length ?p) 0)) =
      ?p @ replicate (108 - length ?p) 0"
    using len by (simp add: copy_into_zeros min_absorb1)
  have head: "(?p @ replicate (108 - length ?p) 0) ! 0 \<noteq> 0" using c assms(3) by simp
  have "memchr_nul (?p @ replicate (108 - length ?p) 0) 108 = Inr (Some (length ?q))"
    using len by (intro memchr_nul_found) auto
  with assms(1,2) len sun head q ep' show ?thesis
    by (simp add: from_sockaddr_local_def to_sockaddr_local_path Let_def take_takeWhile
        del: take_append)
qed

lemma from_sockaddr_local_empty:
  assumes "wf_local ep" "local_path ep = []"
  shows "from_sockaddr_local (fst (to_sockaddr_local ep)) (snd (to_sockaddr_local ep)) = Inr ep"
proof -
  have "ep = local_endpoint_default" using assms wf_local_default wf_local_eq by simp
  moreover have "\<not> local_is_abstract ep" using assms local_is_abstract_path by simp
  ultimately show ?thesis
    using assms
    by (simp add: from_sockaddr_local_def to_sockaddr_local_path copy_into_zeros
        local_endpoint_ec_def max_path_length_def)
qed

lemma memchr_nul_oob: "memchr_nul buf n = Inl e \<longleftrightarrow> e = out_of_bounds \<and> length buf < n \<and> 0 \<notin> set buf"
proof -
  have "length (takeWhile (\<lambda>b. b \<noteq> 0) buf) < length buf \<longleftrightarrow> 0 \<in> set buf"
    by (induction buf) auto
  then show ?thesis by (auto simp: memchr_nul_def Let_def)
qed

lemma from_sockaddr_local_oob:
  assumes "length bytes = 126"
  shows "from_sockaddr_local (SS_unix bytes) len = Inl e \<longleftrightarrow>
    e = out_of_bounds \<and> 110 < len \<and> 0 \<notin> set (take 108 bytes)"
proof (cases "110 < len")
  case True
  then have "take (min len 110 - 2) bytes = take 108 bytes" by (simp add: min_def)
  moreover have "copy_into (replicate 108 0) (take 108 bytes) = take 108 bytes"
    using assms by (simp add: copy_into_zeros)
  moreover have "take 108 bytes ! 0 \<in> set (take 108 bytes)"
    using assms by (intro nth_mem) simp
  ultimately show ?thesis
    using True assms memchr_nul_oob [of "take 108 bytes" "len - 2" e]
    by (auto simp: from_sockaddr_local_def Let_def split: if_splits sum.splits option.splits prod.splits)
next
  case False
  let ?sun = "copy_into (replicate 108 0) (take (min len 110 - 2) bytes)"
  have "length ?sun = 108" using assms False by (simp add: copy_into_def)
  then have "\<not> length ?sun < len - 2" using False by linarith
  then have "memchr_nul ?sun (len - 2) \<noteq> Inl x" for x
    unfolding memchr_nul_oob by blast
  with False show ?thesis
    by (auto simp: from_sockaddr_local_def Let_def split: if_splits sum.splits option.splits prod.splits)
qed

section \<open>Properties\<close>

text \<open>
  C14: an IP endpoint survives the conversion to the address structure of its own family, and an
  IPv4 endpoint sent through an IPv6 socket becomes the IPv4-mapped IPv6 endpoint with the same
  port. The reported lengths are those of the structure that was filled in.
\<close>

theorem sockaddr_roundtrip:
  assumes "wf_endpoint ep"
  shows "from_sockaddr (fst (to_sockaddr ep)) = ep \<and>
    from_sockaddr (fst (to_sockaddr_family ep (endpoint_family ep))) = ep \<and>
    from_sockaddr (fst (to_sockaddr_family ep AF_INET6)) =
      (if ep_is_v4 ep then endpoint_v6 (v6_of_v4 (ep_v4_address ep)) (ep_port ep) else ep) \<and>
    (ss_family (fst (to_sockaddr ep)), snd (to_sockaddr ep)) =
      (endpoint_family ep, if ep_is_v4 ep then 16 else 28)"
proof -
  have "from_sockaddr (SS_inet6 (to_v4_mapped_sockaddr_in6 ep)) =
      endpoint_v6 (v6_of_v4 (ep_v4_address ep)) (ep_port ep)" if "ep_is_v4 ep"
    using that assms
    by (elim wf_endpoint_cases)
      (simp_all add: to_v4_mapped from_sockaddr_def from_sockaddr_in6_def, simp_all add: endpoint_v4_def endpoint_v6_def)
  with from_to_sockaddr [OF assms] show ?thesis
    by (cases "ep_is_v4 ep") (simp_all add: to_sockaddr_family_def endpoint_family_def to_sockaddr_def)
qed

theorem sockaddr_roundtrip_witness:
  "wf_endpoint (endpoint_v4 v4_loopback 8080) \<and>
   from_sockaddr (fst (to_sockaddr (endpoint_v4 v4_loopback 8080))) = endpoint_v4 v4_loopback 8080"
  using sockaddr_roundtrip [of "endpoint_v4 v4_loopback 8080"] by simp

text \<open>
  C15: a Unix endpoint converted to \<open>sockaddr_un\<close> and back keeps its path, abstract names with all
  their bytes; a file system path is cut at its first null byte, and the empty endpoint stays
  empty.
\<close>

theorem local_sockaddr_roundtrip:
  assumes "wf_local ep"
  shows "\<exists>ep'. from_sockaddr_local (fst (to_sockaddr_local ep)) (snd (to_sockaddr_local ep)) = Inr ep' \<and>
    wf_local ep' \<and>
    local_path ep' = (if local_is_abstract ep then local_path ep
                      else takeWhile (\<lambda>b. b \<noteq> 0) (local_path ep))"
proof (cases "local_path ep")
  case Nil
  with assms show ?thesis
    using from_sockaddr_local_empty local_is_abstract_path by auto
next
  case (Cons c p)
  with assms show ?thesis
    using from_sockaddr_local_abstract from_sockaddr_local_path by (cases "local_is_abstract ep") auto
qed

theorem local_sockaddr_roundtrip_witness:
  "wf_local \<lparr>le_path = 47 # 97 # replicate 102 0, le_len = 2\<rparr> \<and>
   (\<exists>ep'. from_sockaddr_local (fst (to_sockaddr_local \<lparr>le_path = 47 # 97 # replicate 102 0, le_len = 2\<rparr>))
      (snd (to_sockaddr_local \<lparr>le_path = 47 # 97 # replicate 102 0, le_len = 2\<rparr>)) = Inr ep' \<and>
    local_path ep' = [47, 97])"
proof -
  let ?ep = "\<lparr>le_path = 47 # 97 # replicate 102 0, le_len = 2\<rparr>"
  have "wf_local ?ep" "\<not> local_is_abstract ?ep" "local_path ?ep = [47, 97]"
    by (simp_all add: wf_local_def max_path_length_def local_is_abstract_def local_path_def)
  with local_sockaddr_roundtrip [of ?ep] show ?thesis by auto
qed

text \<open>
  C16: \<open>from_sockaddr_local\<close> reads behind the end of its copy of the structure exactly when the
  reported length exceeds \<open>sizeof(sockaddr_un)\<close> and the path fills \<open>sun_path\<close> without a null byte.
\<close>

theorem from_sockaddr_local_overread:
  assumes "length bytes = 126"
  shows "from_sockaddr_local (SS_unix bytes) len = Inl e \<longleftrightarrow>
    e = out_of_bounds \<and> sockaddr_un_size < len \<and> 0 \<notin> set (take sun_path_size bytes)"
  using assms by (rule from_sockaddr_local_oob)

theorem from_sockaddr_local_overread_witness:
  "length (replicate 108 (47 :: u8) @ replicate 18 0) = 126 \<and>
   from_sockaddr_local (SS_unix (replicate 108 47 @ replicate 18 0)) 111 = Inl out_of_bounds"
  using from_sockaddr_local_overread [of "replicate 108 47 @ replicate 18 0" 111 out_of_bounds] by simp

text \<open>
  C17: the comparison of Unix endpoints is a strict total order consistent with \<open>operator==\<close>, and it
  is the lexicographic order of the path bytes.
\<close>

theorem local_order_total:
  assumes "wf_local a" "wf_local b" "wf_local c"
  shows "(local_cmp a b = so_equal \<longleftrightarrow> local_eq a b) \<and> (local_eq a b \<longleftrightarrow> a = b) \<and>
    local_cmp b a = so_reverse (local_cmp a b) \<and>
    (local_cmp a b = so_less \<and> local_cmp b c = so_less \<longrightarrow> local_cmp a c = so_less) \<and>
    (local_cmp a b = so_less \<longleftrightarrow> local_path a < local_path b)"
proof (intro conjI impI)
  show "local_cmp a b = so_equal \<longleftrightarrow> local_eq a b" using assms by (simp add: local_order.cmp_equal)
  show "local_eq a b \<longleftrightarrow> a = b" using wf_local_eq [OF assms(1,2)] by (auto simp: local_eq_path [OF assms(1,2)])
  show "local_cmp b a = so_reverse (local_cmp a b)" by (rule local_order.cmp_reverse [OF assms(1,2)])
  show "local_cmp a b = so_less \<longleftrightarrow> local_path a < local_path b"
    using assms by (simp add: local_cmp_path cmp_val_def)
next
  assume "local_cmp a b = so_less \<and> local_cmp b c = so_less"
  then show "local_cmp a c = so_less" using local_order.less_trans [OF assms] by blast
qed

theorem local_order_total_witness:
  "wf_local local_endpoint_default \<and> wf_local \<lparr>le_path = 47 # replicate 103 0, le_len = 1\<rparr> \<and>
   local_cmp local_endpoint_default \<lparr>le_path = 47 # replicate 103 0, le_len = 1\<rparr> = so_less"
proof -
  let ?b = "\<lparr>le_path = 47 # replicate 103 0, le_len = 1\<rparr>"
  have wf: "wf_local local_endpoint_default" "wf_local ?b"
    by (simp_all add: wf_local_default) (simp add: wf_local_def max_path_length_def)
  have "local_path ?b = [47]" by (simp add: local_path_def)
  then have "local_path local_endpoint_default < local_path ?b" by simp
  with local_order_total [OF wf(1) wf(2) wf(2)] wf show ?thesis by simp
qed

end
