(* ===== verification/Intrusive.thy ===== *)
theory Intrusive
  imports Corosio_Prelude
begin

text \<open>
  The intrusive containers of detail/intrusive.hpp, at the level of their link fields: the doubly
  linked \<^verbatim>\<open>intrusive_list\<close> and the singly linked \<^verbatim>\<open>intrusive_queue\<close>. A node is an identity of an arbitrary
  type, \<open>None\<close> is the null pointer, and the links of all nodes are functions on nodes, so that two
  containers can share the same nodes' memory and aliasing is visible.

  The locale \<open>fifo\<close> is the contract of a queue; the containers of this theory and the ready queue
  are its instances, and the order in which elements leave a queue is proved once, in the locale.
\<close>

section \<open>The contract of a queue\<close>

datatype 'e qop = Push 'e | Pop

text \<open>
  A sequence of operations run on an implementation, with what the \<open>Pop\<close>s return, and the same on
  lists.
\<close>

fun run_queue :: "('e \<Rightarrow> 's \<Rightarrow> 's) \<Rightarrow> ('s \<Rightarrow> 'e option \<times> 's) \<Rightarrow> 'e qop list \<Rightarrow> 's \<Rightarrow>
    'e option list \<times> 's" where
  "run_queue push pop [] s = ([], s)"
| "run_queue push pop (Push e # ops) s = run_queue push pop ops (push e s)"
| "run_queue push pop (Pop # ops) s = (case pop s of
     (r, s') \<Rightarrow> (case run_queue push pop ops s' of (rs, s'') \<Rightarrow> (r # rs, s'')))"

fun list_pop :: "'e list \<Rightarrow> 'e option \<times> 'e list" where
  "list_pop [] = (None, [])"
| "list_pop (x # xs) = (Some x, xs)"

abbreviation run_list :: "'e qop list \<Rightarrow> 'e list \<Rightarrow> 'e option list \<times> 'e list" where
  "run_list \<equiv> run_queue (\<lambda>e xs. xs @ [e]) list_pop"

text \<open>A node is linked into a queue at most once at a time.\<close>

fun pushes_ok :: "('e \<Rightarrow> bool) \<Rightarrow> 'e qop list \<Rightarrow> 'e list \<Rightarrow> bool" where
  "pushes_ok valid [] xs \<longleftrightarrow> True"
| "pushes_ok valid (Push e # ops) xs \<longleftrightarrow> valid e \<and> e \<notin> set xs \<and> pushes_ok valid ops (xs @ [e])"
| "pushes_ok valid (Pop # ops) xs \<longleftrightarrow> pushes_ok valid ops (tl xs)"

locale fifo =
  fixes repr :: "'s \<Rightarrow> 'e list \<Rightarrow> bool"
    and valid :: "'e \<Rightarrow> bool"
    and is_empty :: "'s \<Rightarrow> bool"
    and push :: "'e \<Rightarrow> 's \<Rightarrow> 's"
    and pop :: "'s \<Rightarrow> 'e option \<times> 's"
  assumes repr_is_empty: "repr s xs \<Longrightarrow> is_empty s \<longleftrightarrow> xs = []"
    and repr_push: "repr s xs \<Longrightarrow> valid e \<Longrightarrow> e \<notin> set xs \<Longrightarrow> repr (push e s) (xs @ [e])"
    and repr_pop: "repr s xs \<Longrightarrow> fst (pop s) = fst (list_pop xs) \<and> repr (snd (pop s)) (snd (list_pop xs))"
begin

lemma run_refines:
  "repr s xs \<Longrightarrow> pushes_ok valid ops xs \<Longrightarrow>
     fst (run_queue push pop ops s) = fst (run_list ops xs) \<and>
     repr (snd (run_queue push pop ops s)) (snd (run_list ops xs))"
proof (induction ops arbitrary: s xs)
  case (Cons op ops)
  show ?case
  proof (cases op)
    case (Push e)
    with Cons show ?thesis by (simp add: repr_push)
  next
    case Pop
    obtain r s' where p: "pop s = (r, s')" by fastforce
    have l: "list_pop xs = (r, tl xs)" and r: "repr s' (tl xs)"
      using repr_pop [OF Cons.prems(1)] p by (cases xs; simp)+
    from Cons.IH [OF r] Cons.prems Pop show ?thesis by (simp add: p l case_prod_beta)
  qed
qed simp

end

text \<open>
  First in, first out: what was in the queue followed by what was pushed is what was popped
  followed by what is still in the queue.
\<close>

definition pushed :: "'e qop list \<Rightarrow> 'e list" where
  "pushed ops = concat (map (\<lambda>op. case op of Push e \<Rightarrow> [e] | Pop \<Rightarrow> []) ops)"

definition popped :: "'e option list \<Rightarrow> 'e list" where
  "popped rs = concat (map (\<lambda>r. case r of Some e \<Rightarrow> [e] | None \<Rightarrow> []) rs)"

lemma pushed_simps [simp]:
  "pushed [] = []" "pushed (Push e # ops) = e # pushed ops" "pushed (Pop # ops) = pushed ops"
  by (simp_all add: pushed_def)

lemma popped_simps [simp]:
  "popped [] = []" "popped (None # rs) = popped rs" "popped (Some e # rs) = e # popped rs"
  by (simp_all add: popped_def)

lemma run_list_fifo: "run_list ops xs = (rs, ys) \<Longrightarrow> xs @ pushed ops = popped rs @ ys"
proof (induction ops arbitrary: xs rs ys)
  case (Cons op ops)
  show ?case
  proof (cases op)
    case (Push e)
    with Cons.prems have "run_list ops (xs @ [e]) = (rs, ys)" by simp
    from Cons.IH [OF this] Push show ?thesis by simp
  next
    case Pop
    obtain rs' ys' where r: "run_list ops (snd (list_pop xs)) = (rs', ys')" by fastforce
    from Cons.IH [OF this] Cons.prems Pop r show ?thesis
      by (cases xs) (auto split: prod.splits)
  qed
qed simp

context fifo
begin

lemma fifo_order:
  assumes "repr s xs" "pushes_ok valid ops xs" "run_queue push pop ops s = (rs, s')"
  shows "\<exists>ys. repr s' ys \<and> xs @ pushed ops = popped rs @ ys"
  using run_refines [OF assms(1,2)] run_list_fifo [of ops xs] assms(3)
  by (metis fst_conv prod.collapse snd_conv)

end

section \<open>Chains of links\<close>

primrec chain :: "('a \<Rightarrow> 'a option) \<Rightarrow> 'a option \<Rightarrow> 'a list \<Rightarrow> bool" where
  "chain nx p [] \<longleftrightarrow> p = None"
| "chain nx p (x # xs) \<longleftrightarrow> p = Some x \<and> chain nx (nx x) xs"

definition last_of :: "'a list \<Rightarrow> 'a option" where
  "last_of xs = (if xs = [] then None else Some (last xs))"

definition first_of :: "'a list \<Rightarrow> 'a option" where
  "first_of xs = (case xs of [] \<Rightarrow> None | x # _ \<Rightarrow> Some x)"

lemma last_of_simps [simp]:
  "last_of [] = None" "last_of (xs @ [x]) = Some x" "last_of [x] = Some x"
  "last_of xs = None \<longleftrightarrow> xs = []"
  by (simp_all add: last_of_def)

lemma first_of_simps [simp]:
  "first_of [] = None" "first_of (x # xs) = Some x" "first_of xs = None \<longleftrightarrow> xs = []"
  by (simp_all add: first_of_def split: list.splits)

lemma last_of_append [simp]:
  "ys \<noteq> [] \<Longrightarrow> last_of (xs @ ys) = last_of ys" "ys \<noteq> [] \<Longrightarrow> last_of (y # ys) = last_of ys"
  by (simp_all add: last_of_def)

lemma last_of_Some: "last_of xs = Some t \<longleftrightarrow> (\<exists>ys. xs = ys @ [t])"
  by (cases xs rule: rev_cases) auto

lemma ends_mem: "first_of xs = Some x \<Longrightarrow> x \<in> set xs" "last_of xs = Some x \<Longrightarrow> x \<in> set xs"
  by (cases xs; auto simp: last_of_def split: if_splits)+

lemma chain_first: "chain nx p xs \<Longrightarrow> p = first_of xs"
  by (cases xs) auto

lemma chain_upd [simp]: "w \<notin> set xs \<Longrightarrow> chain (nx(w := q)) p xs = chain nx p xs"
  by (induction xs arbitrary: p) auto

lemma chain_append_upd:
  "chain nx p (xs @ [t]) \<Longrightarrow> t \<notin> set xs \<Longrightarrow> chain nx q ys \<Longrightarrow> t \<notin> set ys \<Longrightarrow>
     chain (nx(t := q)) p (xs @ [t] @ ys)"
  by (induction xs arbitrary: p) auto

definition queue_repr :: "('a \<Rightarrow> 'a option) \<Rightarrow> 'a option \<Rightarrow> 'a option \<Rightarrow> 'a list \<Rightarrow> bool" where
  "queue_repr nx h l xs \<longleftrightarrow> chain nx h xs \<and> distinct xs \<and> l = last_of xs"

lemma queue_repr_append:
  assumes xs: "queue_repr nx h l xs" and ys: "queue_repr nx h' l' ys"
    and disj: "set xs \<inter> set ys = {}" and ne: "ys \<noteq> []"
  shows "queue_repr (case l of None \<Rightarrow> nx | Some t \<Rightarrow> nx(t := h'))
    (if l = None then h' else h) l' (xs @ ys)"
proof (cases l)
  case None
  then have "xs = []" using xs by (metis last_of_simps(4) queue_repr_def)
  with assms None show ?thesis by (simp add: queue_repr_def)
next
  case (Some t)
  then obtain zs where zs: "xs = zs @ [t]" using xs by (metis queue_repr_def last_of_Some)
  with assms Some chain_append_upd [of nx h zs t h' ys] show ?thesis
    by (auto simp: queue_repr_def)
qed

lemma queue_repr_pop:
  assumes "queue_repr nx (Some x) l xs"
  obtains ys where "xs = x # ys" "queue_repr nx (nx x) (if nx x = None then None else l) ys"
proof -
  obtain ys where ys: "xs = x # ys" using assms by (cases xs) (auto simp: queue_repr_def)
  with assms have "nx x = first_of ys" by (auto simp: queue_repr_def dest: chain_first)
  with assms ys show thesis
    by (intro that [of ys]) (auto simp: queue_repr_def last_of_def)
qed

lemma queue_repr_Nil: "queue_repr nx None None []"
  by (simp add: queue_repr_def)

lemma queue_repr_upd: "w \<notin> set xs \<Longrightarrow> queue_repr (nx(w := q)) h l xs = queue_repr nx h l xs"
  by (simp add: queue_repr_def)

section \<open>The singly linked queue\<close>

type_synonym 'a queue_links = "'a \<Rightarrow> 'a option"

record 'a intrusive_queue =
  q_head :: "'a option"
  q_tail :: "'a option"

type_synonym 'a queue_state = "'a queue_links \<times> 'a intrusive_queue"

definition empty_queue :: "'a intrusive_queue" where
  "empty_queue = \<lparr>q_head = None, q_tail = None\<rparr>"

text \<open>The move constructor: the new queue and the emptied source.\<close>

definition q_move :: "'a intrusive_queue \<Rightarrow> 'a intrusive_queue \<times> 'a intrusive_queue" where
  "q_move other = (\<lparr>q_head = q_head other, q_tail = q_tail other\<rparr>, other\<lparr>q_head := None, q_tail := None\<rparr>)"

definition q_empty :: "'a queue_state \<Rightarrow> bool" where
  "q_empty s \<longleftrightarrow> q_head (snd s) = None"

definition q_push :: "'a \<Rightarrow> 'a queue_state \<Rightarrow> 'a queue_state" where
  "q_push w s = (case s of (nx, q) \<Rightarrow>
     let nx1 = nx(w := None) in
     (case q_tail q of
        Some t \<Rightarrow> (nx1(t := Some w), q\<lparr>q_tail := Some w\<rparr>)
      | None \<Rightarrow> (nx1, q\<lparr>q_head := Some w, q_tail := Some w\<rparr>)))"

definition q_splice :: "'a queue_links \<Rightarrow> 'a intrusive_queue \<Rightarrow> 'a intrusive_queue \<Rightarrow>
    'a queue_links \<times> 'a intrusive_queue \<times> 'a intrusive_queue" where
  "q_splice nx q other =
     (if q_head other = None then (nx, q, other)
      else
        (let (nx', q') = (case q_tail q of
               Some t \<Rightarrow> (nx(t := q_head other), q)
             | None \<Rightarrow> (nx, q\<lparr>q_head := q_head other\<rparr>)) in
         (nx', q'\<lparr>q_tail := q_tail other\<rparr>, other\<lparr>q_head := None, q_tail := None\<rparr>)))"

definition q_pop :: "'a queue_state \<Rightarrow> 'a option \<times> 'a queue_state" where
  "q_pop s = (case s of (nx, q) \<Rightarrow>
     (case q_head q of
        None \<Rightarrow> (None, s)
      | Some w \<Rightarrow>
          (let q1 = q\<lparr>q_head := nx w\<rparr>;
               q2 = (if q_head q1 = None then q1\<lparr>q_tail := None\<rparr> else q1) in
           (Some w, nx(w := None), q2))))"

definition q_repr :: "'a queue_state \<Rightarrow> 'a list \<Rightarrow> bool" where
  "q_repr s xs \<longleftrightarrow> queue_repr (fst s) (q_head (snd s)) (q_tail (snd s)) xs"

lemma q_repr_empty [simp]: "q_repr (nx, empty_queue) []"
  by (simp add: q_repr_def queue_repr_def empty_queue_def)

lemma queue_repr_single: "nx w = None \<Longrightarrow> queue_repr nx (Some w) (Some w) [w]"
  by (simp add: queue_repr_def)

lemma q_repr_push: "q_repr s xs \<Longrightarrow> w \<notin> set xs \<Longrightarrow> q_repr (q_push w s) (xs @ [w])"
  using queue_repr_append [of "(fst s)(w := None)" "q_head (snd s)" "q_tail (snd s)" xs "Some w" "Some w" "[w]"]
  by (cases s; cases "q_tail (snd s)")
    (simp_all add: q_repr_def q_push_def queue_repr_upd queue_repr_single Let_def)

lemma q_repr_pop: "q_repr s xs \<Longrightarrow>
    fst (q_pop s) = fst (list_pop xs) \<and> q_repr (snd (q_pop s)) (snd (list_pop xs))"
proof -
  assume r: "q_repr s xs"
  obtain nx q where s: "s = (nx, q)" by (cases s)
  show ?thesis
  proof (cases "q_head q")
    case None
    with r s have "xs = []" by (cases xs) (auto simp: q_repr_def queue_repr_def)
    with None r s show ?thesis by (simp add: q_pop_def)
  next
    case (Some w)
    with r s have "queue_repr nx (Some w) (q_tail q) xs" by (simp add: q_repr_def)
    then obtain ys where ys: "xs = w # ys"
        "queue_repr nx (nx w) (if nx w = None then None else q_tail q) ys"
      by (rule queue_repr_pop)
    moreover from ys r s have "w \<notin> set ys" by (simp add: q_repr_def queue_repr_def)
    ultimately show ?thesis
      using Some s by (auto simp: q_pop_def q_repr_def queue_repr_upd Let_def)
  qed
qed

lemma q_repr_splice:
  assumes "q_repr (nx, q) xs" "q_repr (nx, other) ys" "set xs \<inter> set ys = {}"
    and "q_splice nx q other = (nx', q', other')"
  shows "q_repr (nx', q') (xs @ ys) \<and> q_repr (nx', other') []"
proof (cases "q_head other")
  case None
  with assms have "ys = []" by (cases ys) (auto simp: q_repr_def queue_repr_def)
  with None assms show ?thesis by (auto simp: q_splice_def)
next
  case (Some w)
  with assms have "ys \<noteq> []" by (auto simp: q_repr_def queue_repr_def)
  with Some assms queue_repr_append [of nx "q_head q" "q_tail q" xs "q_head other" "q_tail other" ys]
  show ?thesis
    by (cases "q_tail q") (auto simp: q_splice_def q_repr_def queue_repr_Nil)
qed

interpretation iq: fifo q_repr "\<lambda>_. True" q_empty q_push q_pop
proof unfold_locales
  show "q_repr s xs \<Longrightarrow> q_empty s \<longleftrightarrow> xs = []" for s :: "'a queue_state" and xs
    by (cases xs) (auto simp: q_empty_def q_repr_def queue_repr_def)
qed (simp_all add: q_repr_push q_repr_pop)

section \<open>The doubly linked list\<close>

record 'a list_links =
  l_next :: "'a \<Rightarrow> 'a option"
  l_prev :: "'a \<Rightarrow> 'a option"

record 'a intrusive_list =
  l_head :: "'a option"
  l_tail :: "'a option"

type_synonym 'a list_state = "'a list_links \<times> 'a intrusive_list"

definition set_next :: "'a \<Rightarrow> 'a option \<Rightarrow> 'a list_links \<Rightarrow> 'a list_links" where
  "set_next w q lk = lk\<lparr>l_next := (l_next lk)(w := q)\<rparr>"

definition set_prev :: "'a \<Rightarrow> 'a option \<Rightarrow> 'a list_links \<Rightarrow> 'a list_links" where
  "set_prev w q lk = lk\<lparr>l_prev := (l_prev lk)(w := q)\<rparr>"

definition empty_list :: "'a intrusive_list" where
  "empty_list = \<lparr>l_head = None, l_tail = None\<rparr>"

definition il_move :: "'a intrusive_list \<Rightarrow> 'a intrusive_list \<times> 'a intrusive_list" where
  "il_move other = (\<lparr>l_head = l_head other, l_tail = l_tail other\<rparr>, other\<lparr>l_head := None, l_tail := None\<rparr>)"

definition il_empty :: "'a list_state \<Rightarrow> bool" where
  "il_empty s \<longleftrightarrow> l_head (snd s) = None"

definition il_front :: "'a list_state \<Rightarrow> 'a option" where
  "il_front s = l_head (snd s)"

definition il_push_back :: "'a \<Rightarrow> 'a list_state \<Rightarrow> 'a list_state" where
  "il_push_back w s = (case s of (lk, l) \<Rightarrow>
     let lk1 = set_prev w (l_tail l) (set_next w None lk);
         (lk2, l2) = (case l_tail l of
             Some t \<Rightarrow> (set_next t (Some w) lk1, l)
           | None \<Rightarrow> (lk1, l\<lparr>l_head := Some w\<rparr>)) in
     (lk2, l2\<lparr>l_tail := Some w\<rparr>))"

definition il_splice_back :: "'a list_links \<Rightarrow> 'a intrusive_list \<Rightarrow> 'a intrusive_list \<Rightarrow>
    'a list_links \<times> 'a intrusive_list \<times> 'a intrusive_list" where
  "il_splice_back lk l other = (case l_head other of
     None \<Rightarrow> (lk, l, other)
   | Some oh \<Rightarrow>
       (let (lk', l') = (case l_tail l of
              Some t \<Rightarrow> (set_prev oh (Some t) (set_next t (Some oh) lk), l\<lparr>l_tail := l_tail other\<rparr>)
            | None \<Rightarrow> (lk, l\<lparr>l_head := Some oh, l_tail := l_tail other\<rparr>)) in
        (lk', l', other\<lparr>l_head := None, l_tail := None\<rparr>)))"

definition il_pop_front :: "'a list_state \<Rightarrow> 'a option \<times> 'a list_state" where
  "il_pop_front s = (case s of (lk, l) \<Rightarrow>
     (case l_head l of
        None \<Rightarrow> (None, s)
      | Some w \<Rightarrow>
          (let l1 = l\<lparr>l_head := l_next lk w\<rparr>;
               (lk1, l2) = (case l_head l1 of
                   Some h \<Rightarrow> (set_prev h None lk, l1)
                 | None \<Rightarrow> (lk, l1\<lparr>l_tail := None\<rparr>)) in
           (Some w, set_prev w None (set_next w None lk1), l2))))"

definition il_remove :: "'a \<Rightarrow> 'a list_state \<Rightarrow> 'a list_state" where
  "il_remove w s = (case s of (lk, l) \<Rightarrow>
     if l_next lk w = None \<and> l_prev lk w = None \<and> l_head l \<noteq> Some w \<and> l_tail l \<noteq> Some w then s
     else
       (let (lk1, l1) = (case l_prev lk w of
                Some p \<Rightarrow> (set_next p (l_next lk w) lk, l)
              | None \<Rightarrow> (lk, l\<lparr>l_head := l_next lk w\<rparr>));
            (lk2, l2) = (case l_next lk1 w of
                Some n \<Rightarrow> (set_prev n (l_prev lk1 w) lk1, l1)
              | None \<Rightarrow> (lk1, l1\<lparr>l_tail := l_prev lk1 w\<rparr>)) in
        (set_prev w None (set_next w None lk2), l2)))"

text \<open>
  \<open>for_each\<close> follows the links from the head. The fuel bounds the number of elements visited; with
  fuel for the length of the list it visits all of them.
\<close>

fun il_for_each :: "nat \<Rightarrow> ('a \<Rightarrow> 'b \<Rightarrow> 'b) \<Rightarrow> 'a list_links \<Rightarrow> 'a option \<Rightarrow> 'b \<Rightarrow> 'b option" where
  "il_for_each fuel f lk None b = Some b"
| "il_for_each 0 f lk (Some p) b = None"
| "il_for_each (Suc fuel) f lk (Some p) b = il_for_each fuel f lk (l_next lk p) (f p b)"

definition il_repr :: "'a list_state \<Rightarrow> 'a list \<Rightarrow> bool" where
  "il_repr s xs \<longleftrightarrow> distinct xs \<and>
     chain (l_next (fst s)) (l_head (snd s)) xs \<and>
     chain (l_prev (fst s)) (l_tail (snd s)) (rev xs)"

definition detached :: "'a \<Rightarrow> 'a list_state \<Rightarrow> bool" where
  "detached w s \<longleftrightarrow> l_next (fst s) w = None \<and> l_prev (fst s) w = None \<and>
     l_head (snd s) \<noteq> Some w \<and> l_tail (snd s) \<noteq> Some w"

lemma set_links_simps [simp]:
  "l_next (set_next w q lk) = (l_next lk)(w := q)" "l_prev (set_next w q lk) = l_prev lk"
  "l_next (set_prev w q lk) = l_next lk" "l_prev (set_prev w q lk) = (l_prev lk)(w := q)"
  by (simp_all add: set_next_def set_prev_def)

lemma chain_next: "chain nx p (as @ w # bs) \<Longrightarrow> nx w = first_of bs"
  by (induction as arbitrary: p) (auto dest: chain_first)

lemma first_of_rev: "first_of (rev xs) = last_of xs"
  by (cases xs rule: rev_cases) auto

lemma last_of_rev: "last_of (rev xs) = first_of xs"
  by (cases xs) auto

lemma chain_last_upd:
  "chain nx p xs \<Longrightarrow> distinct xs \<Longrightarrow> chain nx q ys \<Longrightarrow> set xs \<inter> set ys = {} \<Longrightarrow>
     chain (case last_of xs of Some t \<Rightarrow> nx(t := q) | None \<Rightarrow> nx)
       (case last_of xs of Some t \<Rightarrow> p | None \<Rightarrow> q) (xs @ ys)"
  by (cases xs rule: rev_cases) (use chain_append_upd [of nx p _ _ q ys] in auto)

text \<open>Unlinking the node \<open>w\<close> of a chain.\<close>

lemma chain_unlink:
  "chain nx p (as @ w # bs) \<Longrightarrow> distinct (as @ w # bs) \<Longrightarrow>
     chain (case last_of as of Some a \<Rightarrow> nx(a := nx w) | None \<Rightarrow> nx)
       (case last_of as of Some a \<Rightarrow> p | None \<Rightarrow> nx w) (as @ bs)"
proof (cases as rule: rev_cases)
  case (snoc cs a)
  assume "chain nx p (as @ w # bs)" "distinct (as @ w # bs)"
  with snoc have "chain (nx(a := nx w)) p (cs @ a # bs)"
    by (induction cs arbitrary: p as) auto
  with snoc show ?thesis by simp
qed auto

lemma il_repr_ends:
  assumes "il_repr s xs"
  shows "l_head (snd s) = first_of xs" "l_tail (snd s) = last_of xs"
  using assms chain_first first_of_rev by (metis il_repr_def)+

lemma il_repr_links:
  assumes "il_repr s (as @ w # bs)"
  shows "l_next (fst s) w = first_of bs" "l_prev (fst s) w = last_of as"
  using assms chain_next [of "l_next (fst s)" _ as w bs]
    chain_next [of "l_prev (fst s)" _ "rev bs" w "rev as"] first_of_rev [of as]
  by (auto simp: il_repr_def)

lemma il_repr_empty [simp]: "il_repr (lk, empty_list) []"
  by (simp add: il_repr_def empty_list_def)

lemma il_repr_push_back:
  assumes r: "il_repr s xs" and w: "w \<notin> set xs"
  shows "il_repr (il_push_back w s) (xs @ [w])"
proof -
  obtain lk l where s: "s = (lk, l)" by (cases s)
  have "chain ((l_next lk)(w := None)) (l_head l) xs" "chain ((l_next lk)(w := None)) (Some w) [w]"
    "chain ((l_prev lk)(w := l_tail l)) (l_tail l) (rev xs)" "distinct xs"
    using r w s by (auto simp: il_repr_def)
  moreover from this chain_last_upd [of "(l_next lk)(w := None)" "l_head l" xs "Some w" "[w]"] w
  have "chain (case last_of xs of Some t \<Rightarrow> ((l_next lk)(w := None))(t := Some w) | None \<Rightarrow> (l_next lk)(w := None))
       (case last_of xs of Some t \<Rightarrow> l_head l | None \<Rightarrow> Some w) (xs @ [w])" by auto
  ultimately show ?thesis
    using w s il_repr_ends(2) [OF r]
    by (cases "last_of xs") (auto simp: il_push_back_def il_repr_def)
qed

lemma il_repr_pop_front:
  assumes r: "il_repr s xs"
  shows "fst (il_pop_front s) = fst (list_pop xs) \<and> il_repr (snd (il_pop_front s)) (snd (list_pop xs))"
proof -
  obtain lk l where s: "s = (lk, l)" by (cases s)
  show ?thesis
  proof (cases xs)
    case Nil
    with il_repr_ends [OF r] s r show ?thesis by (simp add: il_pop_front_def)
  next
    case (Cons w ys)
    with r s have c: "l_head l = Some w" "chain (l_next lk) (l_next lk w) ys" "distinct ys" "w \<notin> set ys"
      "chain (l_prev lk) (l_tail l) (rev ys @ w # [])" by (auto simp: il_repr_def)
    have n: "l_next lk w = first_of ys" using c(2) by (rule chain_first)
    have "chain (case last_of (rev ys) of Some a \<Rightarrow> (l_prev lk)(a := l_prev lk w) | None \<Rightarrow> l_prev lk)
       (case last_of (rev ys) of Some a \<Rightarrow> l_tail l | None \<Rightarrow> l_prev lk w) (rev ys @ [])"
      using c by (intro chain_unlink) auto
    moreover have "l_prev lk w = None" using chain_next [OF c(5)] by simp
    ultimately show ?thesis
      using s c n Cons
      by (cases "first_of ys") (auto simp: il_pop_front_def il_repr_def last_of_rev)
  qed
qed

lemma il_pop_front_detaches:
  assumes "il_repr s xs" "il_pop_front s = (Some w, s')"
  shows "detached w s'"
proof -
  obtain ys where ys: "xs = w # ys" "il_repr s' ys"
    using il_repr_pop_front [OF assms(1)] assms(2) by (cases xs) auto
  moreover have "w \<notin> set ys" using assms(1) ys by (simp add: il_repr_def)
  moreover have "l_next (fst s') w = None" "l_prev (fst s') w = None"
    using assms(2) by (auto simp: il_pop_front_def Let_def split: prod.splits option.splits)
  ultimately show ?thesis
    using il_repr_ends [OF ys(2)] by (auto simp: detached_def dest: ends_mem)
qed

lemma il_remove_detached: "detached w s \<Longrightarrow> il_remove w s = s"
  by (cases s) (simp add: il_remove_def detached_def)

lemma detached_not_mem:
  assumes "il_repr s xs" "detached w s"
  shows "w \<notin> set xs"
proof
  assume "w \<in> set xs"
  then obtain as bs where xs: "xs = as @ w # bs" by (metis split_list)
  with assms have "first_of bs = None" "last_of as = None"
    using il_repr_links [of s as w bs] by (auto simp: detached_def)
  then have "l_head (snd s) = Some w" using il_repr_ends(1) [OF assms(1)] xs by simp
  with assms(2) show False by (simp add: detached_def)
qed

lemma il_repr_remove:
  assumes r: "il_repr s xs" and w: "w \<in> set xs"
  shows "il_repr (il_remove w s) (remove1 w xs) \<and> detached w (il_remove w s)"
proof -
  obtain lk l where s: "s = (lk, l)" by (cases s)
  obtain as bs where xs: "xs = as @ w # bs" and was: "w \<notin> set as" using w by (metis split_list_first)
  have wbs: "w \<notin> set bs" and d: "distinct (as @ w # bs)" "set as \<inter> set bs = {}"
    using r xs by (auto simp: il_repr_def)
  have lnk: "l_next lk w = first_of bs" "l_prev lk w = last_of as"
    using il_repr_links [OF r [unfolded xs]] s by auto
  have nx: "chain (case last_of as of Some a \<Rightarrow> (l_next lk)(a := first_of bs) | None \<Rightarrow> l_next lk)
       (case last_of as of Some a \<Rightarrow> l_head l | None \<Rightarrow> first_of bs) (as @ bs)"
    using chain_unlink [of "l_next lk" "l_head l" as w bs, unfolded lnk] r d xs s by (simp add: il_repr_def)
  have pv: "chain (case first_of bs of Some b \<Rightarrow> (l_prev lk)(b := last_of as) | None \<Rightarrow> l_prev lk)
       (case first_of bs of Some b \<Rightarrow> l_tail l | None \<Rightarrow> last_of as) (rev bs @ rev as)"
    using chain_unlink [of "l_prev lk" "l_tail l" "rev bs" w "rev as", unfolded lnk last_of_rev] r d xs s
    by (auto simp: il_repr_def)
  have nd: "\<not> (l_next lk w = None \<and> l_prev lk w = None \<and> l_head l \<noteq> Some w \<and> l_tail l \<noteq> Some w)"
    using il_repr_ends [OF r] xs s lnk by auto
  have ne: "last_of as \<noteq> Some w" "first_of bs \<noteq> Some w"
    using was wbs by (auto dest: ends_mem)
  have "il_repr (il_remove w s) (as @ bs)"
    using s nd lnk nx pv d was wbs ne
    by (cases "last_of as"; cases "first_of bs") (auto simp: il_remove_def il_repr_def Let_def)
  moreover have "l_next (fst (il_remove w s)) w = None" "l_prev (fst (il_remove w s)) w = None"
    using s nd by (auto simp: il_remove_def Let_def split: option.splits prod.splits)
  ultimately show ?thesis
    using xs was wbs il_repr_ends [of "il_remove w s" "as @ bs"]
    by (auto simp: detached_def remove1_append dest: ends_mem)
qed

lemma il_repr_splice_back:
  assumes r: "il_repr (lk, l) xs" "il_repr (lk, other) ys" and disj: "set xs \<inter> set ys = {}"
    and sp: "il_splice_back lk l other = (lk', l', other')"
  shows "il_repr (lk', l') (xs @ ys) \<and> il_repr (lk', other') []"
proof (cases "first_of ys")
  case None
  with r sp il_repr_ends [OF r(2)] show ?thesis by (auto simp: il_splice_back_def)
next
  case (Some oh)
  note ends = il_repr_ends [OF r(1)] il_repr_ends [OF r(2)]
  have "chain (case last_of xs of Some t \<Rightarrow> (l_next lk)(t := l_head other) | None \<Rightarrow> l_next lk)
       (case last_of xs of Some t \<Rightarrow> l_head l | None \<Rightarrow> l_head other) (xs @ ys)"
    using r disj by (intro chain_last_upd) (auto simp: il_repr_def)
  moreover have "chain (case last_of (rev ys) of Some t \<Rightarrow> (l_prev lk)(t := l_tail l) | None \<Rightarrow> l_prev lk)
       (case last_of (rev ys) of Some t \<Rightarrow> l_tail other | None \<Rightarrow> l_tail l) (rev ys @ rev xs)"
    using r disj by (intro chain_last_upd) (auto simp: il_repr_def)
  ultimately show ?thesis
    using Some sp r disj ends
    by (cases "last_of xs") (auto simp: il_splice_back_def il_repr_def last_of_rev)
qed

lemma il_for_each_all:
  "chain (l_next lk) p xs \<Longrightarrow> length xs \<le> fuel \<Longrightarrow> il_for_each fuel f lk p b = Some (fold f xs b)"
proof (induction xs arbitrary: fuel p b)
  case (Cons x xs)
  then show ?case by (cases fuel) auto
qed simp

interpretation il: fifo il_repr "\<lambda>_. True" il_empty il_push_back il_pop_front
proof unfold_locales
  show "il_repr s xs \<Longrightarrow> il_empty s \<longleftrightarrow> xs = []" for s :: "'a list_state" and xs
    using il_repr_ends(1) [of s xs] by (simp add: il_empty_def)
qed (simp_all add: il_repr_push_back il_repr_pop_front)

section \<open>Properties\<close>

text \<open>
  C18: the intrusive queue is first in, first out for every sequence of pushes and pops in which a
  node is not pushed while it is queued: the pops return what a list-based queue returns, and what
  was queued or pushed is what was popped followed by what is still queued.
\<close>

theorem intrusive_queue_fifo:
  assumes "q_repr s xs" "pushes_ok (\<lambda>_. True) ops xs" "run_queue q_push q_pop ops s = (rs, s')"
  shows "\<exists>ys. run_list ops xs = (rs, ys) \<and> q_repr s' ys \<and> xs @ pushed ops = popped rs @ ys"
  using iq.run_refines [OF assms(1,2)] run_list_fifo [of ops xs rs] assms(3)
  by (cases "run_list ops xs") auto

theorem intrusive_queue_fifo_witness:
  "\<exists>s' ys. run_queue q_push q_pop [Push (1::nat), Push 2, Pop, Push 3, Pop] (\<lambda>_. None, empty_queue) =
      ([Some 1, Some 2], s') \<and> q_repr s' ys \<and>
    [] @ pushed [Push (1::nat), Push 2, Pop, Push 3, Pop] = popped [Some 1, Some 2] @ ys"
proof -
  let ?ops = "[Push (1::nat), Push 2, Pop, Push 3, Pop]" and ?s = "(\<lambda>_. None, empty_queue)"
  obtain rs s' where run: "run_queue q_push q_pop ?ops ?s = (rs, s')" by (rule prod.exhaust)
  have "pushes_ok (\<lambda>_. True) ?ops []" by simp
  from intrusive_queue_fifo [OF q_repr_empty this run] run show ?thesis by auto
qed

text \<open>
  C19: removal from the intrusive list unlinks the node wherever it stands, leaves the order of the
  others as it was, and clears the node's links; removing a node that is not linked, in particular
  one that \<open>pop_front\<close> returned, changes nothing.
\<close>

theorem intrusive_list_remove:
  assumes "il_repr s xs" "w \<in> set xs \<or> detached w s"
  shows "il_repr (il_remove w s) (remove1 w xs) \<and> detached w (il_remove w s) \<and>
    (\<forall>v s'. il_pop_front s = (Some v, s') \<longrightarrow> il_remove v s' = s')"
proof -
  have "il_repr (il_remove w s) (remove1 w xs) \<and> detached w (il_remove w s)"
    using assms(2)
  proof
    assume "w \<in> set xs"
    with assms(1) show ?thesis by (rule il_repr_remove)
  next
    assume "detached w s"
    with assms(1) detached_not_mem [OF assms(1)] show ?thesis
      by (simp add: il_remove_detached remove1_idem)
  qed
  moreover have "il_remove v s' = s'" if "il_pop_front s = (Some v, s')" for v s'
    by (rule il_remove_detached [OF il_pop_front_detaches [OF assms(1) that]])
  ultimately show ?thesis by blast
qed

theorem intrusive_list_remove_witness:
  "il_repr (il_push_back (2::nat) (il_push_back 1 (\<lparr>l_next = \<lambda>_. None, l_prev = \<lambda>_. None\<rparr>, empty_list))) [1, 2] \<and>
   il_repr (il_remove 1 (il_push_back (2::nat) (il_push_back 1 (\<lparr>l_next = \<lambda>_. None, l_prev = \<lambda>_. None\<rparr>, empty_list)))) [2]"
proof -
  let ?s = "il_push_back (2::nat) (il_push_back 1 (\<lparr>l_next = \<lambda>_. None, l_prev = \<lambda>_. None\<rparr>, empty_list))"
  have r: "il_repr ?s [1, 2]"
    using il_repr_push_back [OF il_repr_push_back [OF il_repr_empty], of "1::nat" 2] by simp
  with intrusive_list_remove [OF r, of 1] show ?thesis by simp
qed

text \<open>
  C20: splicing appends the other container's elements in order and leaves it empty, for the queue
  and for the list, without visiting the elements.
\<close>

theorem intrusive_splice:
  assumes "q_repr (nx, q) xs" "q_repr (nx, q2) ys" "il_repr (lk, l) xs" "il_repr (lk, l2) ys"
    and "set xs \<inter> set ys = {}"
    and "q_splice nx q q2 = (nx', q', q2')" "il_splice_back lk l l2 = (lk', l', l2')"
  shows "q_repr (nx', q') (xs @ ys) \<and> q_repr (nx', q2') [] \<and>
    il_repr (lk', l') (xs @ ys) \<and> il_repr (lk', l2') []"
  using assms q_repr_splice il_repr_splice_back by blast

theorem intrusive_splice_witness:
  "\<exists>nx' q' q2' lk' l' l2'.
     q_splice (\<lambda>_. None) \<lparr>q_head = Some (1::nat), q_tail = Some 1\<rparr> \<lparr>q_head = Some 2, q_tail = Some 2\<rparr> =
       (nx', q', q2') \<and>
     il_splice_back \<lparr>l_next = \<lambda>_. None, l_prev = \<lambda>_. None\<rparr> \<lparr>l_head = Some (1::nat), l_tail = Some 1\<rparr>
       \<lparr>l_head = Some 2, l_tail = Some 2\<rparr> = (lk', l', l2') \<and>
     q_repr (nx', q') [1, 2] \<and> il_repr (lk', l') [1, 2]"
proof -
  let ?q = "\<lambda>k::nat. \<lparr>q_head = Some k, q_tail = Some k\<rparr>" and ?l = "\<lambda>k::nat. \<lparr>l_head = Some k, l_tail = Some k\<rparr>"
    and ?lk = "\<lparr>l_next = \<lambda>_::nat. None, l_prev = \<lambda>_. None\<rparr>"
  have "q_repr (\<lambda>_. None, ?q k) [k]" "il_repr (?lk, ?l k) [k]" for k
    by (simp_all add: q_repr_def queue_repr_def il_repr_def)
  moreover obtain nx' q' q2' where "q_splice (\<lambda>_. None) (?q 1) (?q 2) = (nx', q', q2')"
    by (rule prod_cases3)
  moreover obtain lk' l' l2' where "il_splice_back ?lk (?l 1) (?l 2) = (lk', l', l2')"
    by (rule prod_cases3)
  ultimately show ?thesis
    using intrusive_splice [of "\<lambda>_. None" "?q 1" "[1]" "?q 2" "[2]" ?lk "?l 1" "?l 2" nx' q' q2' lk' l' l2']
    by auto
qed

end
