(* ===== verification/Ready_Queue.thy ===== *)
theory Ready_Queue
  imports Intrusive
begin

text \<open>
  The ready queue of detail/ready_queue.hpp: one FIFO of scheduler operations and continuations whose
  entries are tagged 64-bit pointers. The memory of the two kinds of nodes is one link word per
  address and kind; operations and continuations are different objects, so their link words are
  different cells.
\<close>

type_synonym u64 = "64 word"

section \<open>Model\<close>

record ready_mem =
  q_next :: "u64 \<Rightarrow> u64"
  cont_reserved :: "u64 \<Rightarrow> u64"

record ready_queue =
  rq_head :: u64
  rq_tail :: u64

type_synonym ready_state = "ready_mem \<times> ready_queue"

definition ready_cont_bit :: u64 where
  "ready_cont_bit = 1"

definition ready_is_continuation :: "u64 \<Rightarrow> bool" where
  "ready_is_continuation e \<longleftrightarrow> e AND ready_cont_bit \<noteq> 0"

definition ready_as_op :: "u64 \<Rightarrow> u64" where
  "ready_as_op e = e AND NOT ready_cont_bit"

definition ready_as_cont :: "u64 \<Rightarrow> u64" where
  "ready_as_cont e = e AND NOT ready_cont_bit"

definition next_of :: "ready_mem \<Rightarrow> u64 \<Rightarrow> u64" where
  "next_of m e = (if ready_is_continuation e then cont_reserved m (ready_as_cont e)
                  else q_next m (ready_as_op e))"

definition set_next_entry :: "u64 \<Rightarrow> u64 \<Rightarrow> ready_mem \<Rightarrow> ready_mem" where
  "set_next_entry e nxt m =
     (if ready_is_continuation e
      then m\<lparr>cont_reserved := (cont_reserved m)(ready_as_cont e := nxt)\<rparr>
      else m\<lparr>q_next := (q_next m)(ready_as_op e := nxt)\<rparr>)"

definition push_entry :: "u64 \<Rightarrow> ready_state \<Rightarrow> ready_state" where
  "push_entry e s = (case s of (m, q) \<Rightarrow>
     let m1 = set_next_entry e 0 m;
         (m2, q2) = (if rq_tail q \<noteq> 0 then (set_next_entry (rq_tail q) e m1, q)
                     else (m1, q\<lparr>rq_head := e\<rparr>)) in
     (m2, q2\<lparr>rq_tail := e\<rparr>))"

definition rq_init :: ready_queue where
  "rq_init = \<lparr>rq_head = 0, rq_tail = 0\<rparr>"

definition rq_move :: "ready_queue \<Rightarrow> ready_queue \<times> ready_queue" where
  "rq_move other = (\<lparr>rq_head = rq_head other, rq_tail = rq_tail other\<rparr>, other\<lparr>rq_head := 0, rq_tail := 0\<rparr>)"

definition rq_empty :: "ready_state \<Rightarrow> bool" where
  "rq_empty s \<longleftrightarrow> rq_head (snd s) = 0"

definition rq_push_op :: "u64 \<Rightarrow> ready_state \<Rightarrow> ready_state" where
  "rq_push_op op s = push_entry op s"

definition rq_push_cont :: "u64 \<Rightarrow> ready_state \<Rightarrow> ready_state" where
  "rq_push_cont c s = push_entry (c OR ready_cont_bit) s"

definition rq_splice :: "ready_mem \<Rightarrow> ready_queue \<Rightarrow> ready_queue \<Rightarrow> ready_mem \<times> ready_queue \<times> ready_queue" where
  "rq_splice m q other =
     (if rq_head other = 0 then (m, q, other)
      else
        (let (m', q') = (if rq_tail q \<noteq> 0 then (set_next_entry (rq_tail q) (rq_head other) m, q)
                         else (m, q\<lparr>rq_head := rq_head other\<rparr>)) in
         (m', q'\<lparr>rq_tail := rq_tail other\<rparr>, other\<lparr>rq_head := 0, rq_tail := 0\<rparr>)))"

definition rq_pop :: "ready_state \<Rightarrow> u64 \<times> ready_state" where
  "rq_pop s = (case s of (m, q) \<Rightarrow>
     let e = rq_head q in
     if e = 0 then (0, s)
     else
       let q1 = q\<lparr>rq_head := next_of m e\<rparr>;
           q2 = (if rq_head q1 = 0 then q1\<lparr>rq_tail := 0\<rparr> else q1) in
       (e, m, q2))"

text \<open>What a consumer makes of a popped entry.\<close>

datatype ready_item = item_op u64 | item_cont u64

definition decode_entry :: "u64 \<Rightarrow> ready_item option" where
  "decode_entry e =
     (if e = 0 then None
      else if ready_is_continuation e then Some (item_cont (ready_as_cont e))
      else Some (item_op (ready_as_op e)))"

fun encode_item :: "ready_item \<Rightarrow> u64" where
  "encode_item (item_op a) = a"
| "encode_item (item_cont a) = a OR ready_cont_bit"

fun rq_push :: "ready_item \<Rightarrow> ready_state \<Rightarrow> ready_state" where
  "rq_push (item_op a) s = rq_push_op a s"
| "rq_push (item_cont a) s = rq_push_cont a s"

definition rq_pop_item :: "ready_state \<Rightarrow> ready_item option \<times> ready_state" where
  "rq_pop_item s = (case rq_pop s of (e, s') \<Rightarrow> (decode_entry e, s'))"

section \<open>Tags\<close>

text \<open>A node's address is not null and, by the alignment assertions of the header, even.\<close>

definition aligned :: "u64 \<Rightarrow> bool" where
  "aligned a \<longleftrightarrow> a \<noteq> 0 \<and> a AND ready_cont_bit = 0"

fun valid_item :: "ready_item \<Rightarrow> bool" where
  "valid_item (item_op a) = aligned a"
| "valid_item (item_cont a) = aligned a"

lemma tag_bits:
  "a AND ready_cont_bit = 0 \<Longrightarrow> a AND NOT ready_cont_bit = a"
  "a AND ready_cont_bit = 0 \<Longrightarrow> (a OR ready_cont_bit) AND NOT ready_cont_bit = a"
  "(a OR ready_cont_bit) AND ready_cont_bit \<noteq> 0" "a OR ready_cont_bit \<noteq> 0"
proof -
  have b: "a AND ready_cont_bit = 0 \<longleftrightarrow> \<not> bit a 0"
    by (simp add: ready_cont_bit_def and_one_eq bit_0 mod_2_eq_odd)
  show "a AND ready_cont_bit = 0 \<Longrightarrow> a AND NOT ready_cont_bit = a"
    "a AND ready_cont_bit = 0 \<Longrightarrow> (a OR ready_cont_bit) AND NOT ready_cont_bit = a"
    unfolding b by (auto intro!: bit_word_eqI simp: ready_cont_bit_def bit_simps) (metis gr0I)+
  have "bit (a OR ready_cont_bit) 0" by (simp add: ready_cont_bit_def bit_simps)
  then show "(a OR ready_cont_bit) AND ready_cont_bit \<noteq> 0" "a OR ready_cont_bit \<noteq> 0"
    by (auto simp: ready_cont_bit_def and_one_eq bit_0 mod_2_eq_odd)
qed

lemma ready_cont_bit_ne: "ready_cont_bit \<noteq> 0"
  by (simp add: ready_cont_bit_def)

lemma same_cell:
  "ready_is_continuation e = ready_is_continuation e' \<Longrightarrow> e AND NOT ready_cont_bit = e' AND NOT ready_cont_bit \<Longrightarrow>
     e = e'"
proof (rule bit_word_eqI)
  fix n assume t: "ready_is_continuation e = ready_is_continuation e'"
    and m: "e AND NOT ready_cont_bit = e' AND NOT ready_cont_bit" and n: "n < LENGTH(64)"
  have "bit e 0 = bit e' 0"
    using t by (simp add: ready_is_continuation_def ready_cont_bit_def and_one_eq bit_0 mod_2_eq_odd)
  moreover have "bit e n = bit e' n" if "n \<noteq> 0"
    using arg_cong [OF m, of "\<lambda>w. bit w n"] that n by (simp add: ready_cont_bit_def bit_simps)
  ultimately show "bit e n = bit e' n" by (cases n) auto
qed

lemma decode_encode:
  "valid_item i \<Longrightarrow> decode_entry (encode_item i) = Some i \<and> encode_item i \<noteq> 0"
  by (cases i)
    (simp_all add: decode_entry_def ready_is_continuation_def ready_as_op_def ready_as_cont_def
      aligned_def tag_bits ready_cont_bit_ne)

lemma encode_inj: "valid_item i \<Longrightarrow> valid_item j \<Longrightarrow> encode_item i = encode_item j \<Longrightarrow> i = j"
  using decode_encode by (metis option.inject)

lemma rq_push_entry: "rq_push i s = push_entry (encode_item i) s"
  by (cases i) (simp_all add: rq_push_op_def rq_push_cont_def)

section \<open>Refinement to a queue of links\<close>

definition ptr :: "u64 \<Rightarrow> u64 option" where
  "ptr e = (if e = 0 then None else Some e)"

definition links :: "ready_mem \<Rightarrow> u64 \<Rightarrow> u64 option" where
  "links m e = ptr (next_of m e)"

lemma ptr_simps [simp]: "ptr 0 = None" "e \<noteq> 0 \<Longrightarrow> ptr e = Some e" "ptr e = None \<longleftrightarrow> e = 0"
  "ptr e = Some e' \<longleftrightarrow> e = e' \<and> e \<noteq> 0"
  by (auto simp: ptr_def)

lemma links_upd [simp]: "links (set_next_entry e v m) = (links m)(e := ptr v)"
proof
  fix e'
  show "links (set_next_entry e v m) e' = ((links m)(e := ptr v)) e'"
    using same_cell [of e e']
    by (auto simp: links_def next_of_def set_next_entry_def ready_as_op_def ready_as_cont_def)
qed

definition rq_repr :: "ready_state \<Rightarrow> ready_item list \<Rightarrow> bool" where
  "rq_repr s xs \<longleftrightarrow> list_all valid_item xs \<and>
     queue_repr (links (fst s)) (ptr (rq_head (snd s))) (ptr (rq_tail (snd s))) (map encode_item xs)"

lemma rq_repr_empty [simp]: "rq_repr (m, rq_init) []"
  by (simp add: rq_repr_def rq_init_def queue_repr_def)

lemma encode_notin: "valid_item i \<Longrightarrow> list_all valid_item xs \<Longrightarrow> i \<notin> set xs \<Longrightarrow>
    encode_item i \<notin> encode_item ` set xs"
  using encode_inj by (auto simp: list_all_iff)

lemma rq_repr_push:
  assumes r: "rq_repr s xs" and i: "valid_item i" "i \<notin> set xs"
  shows "rq_repr (rq_push i s) (xs @ [i])"
proof -
  obtain m q where s: "s = (m, q)" by (cases s)
  let ?e = "encode_item i"
  have e: "?e \<noteq> 0" "?e \<notin> set (map encode_item xs)"
    using decode_encode i r encode_notin by (auto simp: rq_repr_def)
  then have "queue_repr (case ptr (rq_tail q) of None \<Rightarrow> (links m)(?e := None)
      | Some t \<Rightarrow> (links m)(?e := None, t := Some ?e))
    (if ptr (rq_tail q) = None then Some ?e else ptr (rq_head q)) (Some ?e) (map encode_item xs @ [?e])"
    using r s by (intro queue_repr_append) (auto simp: rq_repr_def queue_repr_upd queue_repr_single)
  with r s i e show ?thesis
    by (cases "rq_tail q = 0") (simp_all add: rq_repr_def rq_push_entry push_entry_def Let_def)
qed

lemma rq_repr_pop:
  assumes r: "rq_repr s xs"
  shows "fst (rq_pop_item s) = fst (list_pop xs) \<and> rq_repr (snd (rq_pop_item s)) (snd (list_pop xs))"
proof -
  obtain m q where s: "s = (m, q)" by (cases s)
  show ?thesis
  proof (cases "rq_head q = 0")
    case True
    with r s have "xs = []" by (cases xs) (auto simp: rq_repr_def queue_repr_def)
    with True r s show ?thesis by (simp add: rq_pop_item_def rq_pop_def decode_entry_def)
  next
    case False
    with r s have "queue_repr (links m) (Some (rq_head q)) (ptr (rq_tail q)) (map encode_item xs)"
      by (simp add: rq_repr_def)
    then obtain ys where ys: "map encode_item xs = rq_head q # ys"
        "queue_repr (links m) (links m (rq_head q))
          (if links m (rq_head q) = None then None else ptr (rq_tail q)) ys"
      by (rule queue_repr_pop)
    then obtain x zs where "xs = x # zs" "encode_item x = rq_head q" "ys = map encode_item zs"
      by auto
    with ys r s False decode_encode [of x] show ?thesis
      by (auto simp: rq_pop_item_def rq_pop_def rq_repr_def links_def Let_def split: if_splits)
  qed
qed

lemma rq_repr_splice:
  assumes "rq_repr (m, q) xs" "rq_repr (m, other) ys" "set xs \<inter> set ys = {}"
    and sp: "rq_splice m q other = (m', q', other')"
  shows "rq_repr (m', q') (xs @ ys) \<and> rq_repr (m', other') []"
proof (cases "rq_head other = 0")
  case True
  with assms have "ys = []" by (cases ys) (auto simp: rq_repr_def queue_repr_def)
  with True assms show ?thesis by (auto simp: rq_splice_def)
next
  case False
  have "encode_item x \<noteq> encode_item y" if "x \<in> set xs" "y \<in> set ys" for x y
    using that assms encode_inj [of x y] by (auto simp: rq_repr_def list_all_iff)
  then have "set (map encode_item xs) \<inter> set (map encode_item ys) = {}" by auto
  moreover have "ys \<noteq> []" using False assms by (auto simp: rq_repr_def queue_repr_def)
  ultimately have "queue_repr (case ptr (rq_tail q) of None \<Rightarrow> links m | Some t \<Rightarrow> (links m)(t := ptr (rq_head other)))
     (if ptr (rq_tail q) = None then ptr (rq_head other) else ptr (rq_head q)) (ptr (rq_tail other))
     (map encode_item xs @ map encode_item ys)"
    using assms by (intro queue_repr_append) (auto simp: rq_repr_def)
  with False assms show ?thesis
    by (cases "rq_tail q = 0") (auto simp: rq_splice_def rq_repr_def queue_repr_Nil)
qed

interpretation rq: fifo rq_repr valid_item rq_empty rq_push rq_pop_item
proof unfold_locales
  show "rq_repr s xs \<Longrightarrow> rq_empty s \<longleftrightarrow> xs = []" for s :: ready_state and xs
    by (cases xs) (auto simp: rq_empty_def rq_repr_def queue_repr_def)
qed (simp_all add: rq_repr_push rq_repr_pop)

section \<open>Properties\<close>

text \<open>
  C21: the ready queue returns operations and continuations in the order they were pushed, each
  with its kind and its address: for every sequence of pushes of aligned nodes that are not
  queued and of pops, the decoded results are those of a list of nodes.
\<close>

theorem ready_queue_fifo:
  assumes "rq_repr s xs" "pushes_ok valid_item ops xs" "run_queue rq_push rq_pop_item ops s = (rs, s')"
  shows "\<exists>ys. run_list ops xs = (rs, ys) \<and> rq_repr s' ys \<and> xs @ pushed ops = popped rs @ ys"
  using rq.run_refines [OF assms(1,2)] run_list_fifo [of ops xs rs] assms(3)
  by (cases "run_list ops xs") auto

theorem ready_queue_fifo_witness:
  "\<exists>s' ys. run_queue rq_push rq_pop_item [Push (item_op 16), Push (item_cont 16), Pop]
      (\<lparr>q_next = \<lambda>_. 0, cont_reserved = \<lambda>_. 0\<rparr>, rq_init) = ([Some (item_op 16)], s') \<and>
    rq_repr s' ys \<and> ys = [item_cont 16]"
proof -
  let ?ops = "[Push (item_op 16), Push (item_cont 16), Pop]"
    and ?s = "(\<lparr>q_next = \<lambda>_. 0, cont_reserved = \<lambda>_. 0\<rparr>, rq_init)"
  obtain rs s' where run: "run_queue rq_push rq_pop_item ?ops ?s = (rs, s')" by (rule prod.exhaust)
  have "pushes_ok valid_item ?ops []" by (simp add: aligned_def ready_cont_bit_def)
  from ready_queue_fifo [OF rq_repr_empty this run] run show ?thesis by auto
qed

text \<open>
  C22: splicing one ready queue onto another appends its entries in order and empties it, whatever
  mixture of operations and continuations the two hold.
\<close>

theorem ready_queue_splice:
  assumes "rq_repr (m, q) xs" "rq_repr (m, other) ys" "set xs \<inter> set ys = {}"
    and "rq_splice m q other = (m', q', other')"
  shows "rq_repr (m', q') (xs @ ys) \<and> rq_repr (m', other') []"
  using assms by (rule rq_repr_splice)

theorem ready_queue_splice_witness:
  "\<exists>m' q' other'.
     rq_splice \<lparr>q_next = \<lambda>_. 0, cont_reserved = \<lambda>_. 0\<rparr> \<lparr>rq_head = 16, rq_tail = 16\<rparr> \<lparr>rq_head = 33, rq_tail = 33\<rparr> =
       (m', q', other') \<and> rq_repr (m', q') [item_op 16, item_cont 32] \<and> rq_repr (m', other') []"
proof -
  let ?m = "\<lparr>q_next = \<lambda>_. 0, cont_reserved = \<lambda>_. 0\<rparr>"
  have "rq_repr (?m, \<lparr>rq_head = 16, rq_tail = 16\<rparr>) [item_op 16]"
    "rq_repr (?m, \<lparr>rq_head = 33, rq_tail = 33\<rparr>) [item_cont 32]"
    by (simp_all add: rq_repr_def queue_repr_def aligned_def ready_cont_bit_def links_def next_of_def)
  moreover obtain m' q' other' where
    "rq_splice ?m \<lparr>rq_head = 16, rq_tail = 16\<rparr> \<lparr>rq_head = 33, rq_tail = 33\<rparr> = (m', q', other')"
    by (rule prod_cases3)
  ultimately show ?thesis
    using ready_queue_splice [of ?m "\<lparr>rq_head = 16, rq_tail = 16\<rparr>" "[item_op 16]"
        "\<lparr>rq_head = 33, rq_tail = 33\<rparr>" "[item_cont 32]" m' q' other'] by auto
qed

end
