(* ===== verification/Timer_Heap.thy ===== *)
theory Timer_Heap
  imports Corosio_Prelude "HOL-Library.Multiset"
begin

text \<open>
  The array heap of the timer service, as functions on the list of its entries: what \<open>swap_heap\<close>,
  \<open>up_heap\<close> and \<open>down_heap\<close> of timer_service.hpp do to the vector \<open>heap_\<close>. The order of the keys with one
  defect is the invariant of the two loops.
\<close>

section \<open>Operations\<close>

abbreviation parent :: "nat \<Rightarrow> nat" where
  "parent i \<equiv> (i - 1) div 2"

definition hswap :: "nat \<Rightarrow> nat \<Rightarrow> 'a list \<Rightarrow> 'a list" where
  "hswap i j h = h[i := h ! j, j := h ! i]"

lemma length_hswap [simp]: "length (hswap i j h) = length h"
  by (simp add: hswap_def)

function hup :: "('a \<Rightarrow> 'k::linorder) \<Rightarrow> nat \<Rightarrow> 'a list \<Rightarrow> 'a list" where
  "hup key i h =
     (if 0 < i \<and> key (h ! i) < key (h ! parent i) then hup key (parent i) (hswap i (parent i) h) else h)"
  by pat_completeness auto
termination
  by (relation "measure (\<lambda>(_, i, _). i)") auto

definition min_child :: "('a \<Rightarrow> 'k::linorder) \<Rightarrow> 'a list \<Rightarrow> nat \<Rightarrow> nat" where
  "min_child key h c = (if c + 1 = length h \<or> key (h ! c) < key (h ! (c + 1)) then c else c + 1)"

lemma min_child_less: "i * 2 + 1 < length h \<Longrightarrow> i < min_child key h (i * 2 + 1) \<and> min_child key h (i * 2 + 1) < length h"
  by (auto simp: min_child_def)

function hdown :: "('a \<Rightarrow> 'k::linorder) \<Rightarrow> nat \<Rightarrow> 'a list \<Rightarrow> 'a list" where
  "hdown key i h =
     (let c = i * 2 + 1 in
      if c < length h \<and> \<not> key (h ! i) < key (h ! min_child key h c)
      then hdown key (min_child key h c) (hswap i (min_child key h c) h)
      else h)"
  by pat_completeness auto
termination
proof (relation "measure (\<lambda>(_, i, h). length h - i)")
  fix key :: "'a \<Rightarrow> 'k::linorder" and i :: nat and h :: "'a list" and c
  assume "c = i * 2 + 1" "c < length h \<and> \<not> key (h ! i) < key (h ! min_child key h c)"
  then show "((key, min_child key h c, hswap i (min_child key h c) h), key, i, h)
      \<in> measure (\<lambda>(_, i, h). length h - i)"
    using min_child_less [of i h key] by auto
qed simp

declare hup.simps [simp del] hdown.simps [simp del]

section \<open>Permutation\<close>

lemma mset_hswap [simp]: "i < length h \<Longrightarrow> j < length h \<Longrightarrow> mset (hswap i j h) = mset h"
  unfolding hswap_def by (rule mset_swap)

lemma parent_less: "0 < i \<Longrightarrow> i < n \<Longrightarrow> parent i < n"
  by auto

lemma mset_hup [simp]: "i < length h \<Longrightarrow> mset (hup key i h) = mset h"
proof (induction key i h rule: hup.induct)
  case (1 key i h)
  then show ?case using parent_less [of i "length h"] by (subst hup.simps) auto
qed

lemma mset_hdown [simp]: "i < length h \<Longrightarrow> mset (hdown key i h) = mset h"
proof (induction key i h rule: hdown.induct)
  case (1 key i h)
  then show ?case using min_child_less [of i h key] by (subst hdown.simps) (auto simp: Let_def)
qed

lemma length_hup [simp]: "i < length h \<Longrightarrow> length (hup key i h) = length h"
  using mset_hup mset_eq_length by blast

lemma length_hdown [simp]: "i < length h \<Longrightarrow> length (hdown key i h) = length h"
  using mset_hdown mset_eq_length by blast

section \<open>Order\<close>

definition heap_ok :: "('a \<Rightarrow> 'k::linorder) \<Rightarrow> 'a list \<Rightarrow> bool" where
  "heap_ok key h \<longleftrightarrow> (\<forall>j. 0 < j \<and> j < length h \<longrightarrow> key (h ! parent j) \<le> key (h ! j))"

text \<open>
  Ordered but for the entry \<open>i\<close>: towards its parent, towards its children, or both. In each case the
  children of \<open>i\<close> are ordered against the parent of \<open>i\<close>.
\<close>

definition heap_but :: "('a \<Rightarrow> 'k::linorder) \<Rightarrow> nat \<Rightarrow> 'a list \<Rightarrow> bool" where
  "heap_but key i h \<longleftrightarrow>
     (\<forall>j. 0 < j \<and> j < length h \<and> j \<noteq> i \<and> parent j \<noteq> i \<longrightarrow> key (h ! parent j) \<le> key (h ! j)) \<and>
     (\<forall>j. 0 < i \<and> 0 < j \<and> j < length h \<and> parent j = i \<longrightarrow> key (h ! parent i) \<le> key (h ! j))"

definition heap_up :: "('a \<Rightarrow> 'k::linorder) \<Rightarrow> nat \<Rightarrow> 'a list \<Rightarrow> bool" where
  "heap_up key i h \<longleftrightarrow> heap_but key i h \<and>
     (\<forall>j. 0 < j \<and> j < length h \<and> parent j = i \<longrightarrow> key (h ! i) \<le> key (h ! j))"

definition heap_down :: "('a \<Rightarrow> 'k::linorder) \<Rightarrow> nat \<Rightarrow> 'a list \<Rightarrow> bool" where
  "heap_down key i h \<longleftrightarrow> heap_but key i h \<and> (0 < i \<longrightarrow> key (h ! parent i) \<le> key (h ! i))"

lemma hswap_nth: "i < length h \<Longrightarrow> j < length h \<Longrightarrow>
    hswap i j h ! k = (if k = j then h ! i else if k = i then h ! j else h ! k)"
  by (auto simp: hswap_def nth_list_update)

lemma heap_up_step:
  assumes "heap_up key i h" "i < length h" "0 < i" "key (h ! i) < key (h ! parent i)"
  shows "heap_up key (parent i) (hswap i (parent i) h)"
proof -
  define p where "p = parent i"
  have p: "p < i" "p < length h" "0 < p \<Longrightarrow> parent p < p" using assms unfolding p_def by auto
  have nth: "hswap i p h ! j = (if j = p then h ! i else if j = i then h ! p else h ! j)" for j
    using assms p by (intro hswap_nth) auto
  have ord: "key (h ! parent j) \<le> key (h ! j)" if "0 < j" "j < length h" "j \<noteq> i" "parent j \<noteq> i" for j
    using assms(1) that by (simp add: heap_up_def heap_but_def)
  have gp: "key (h ! p) \<le> key (h ! j)" if "0 < j" "j < length h" "parent j = i" for j
    using assms(1,3) that by (auto simp: heap_up_def heap_but_def p_def)
  have below: "key (h ! p) \<le> key (h ! j)" if "0 < j" "j < length h" "j \<noteq> i" "parent j = p" for j
    using ord [of j] that p by auto
  have pp: "key (h ! parent p) \<le> key (h ! p)" if "0 < p"
    using ord [of p] that p by auto
  have "heap_but key p (hswap i p h)"
    unfolding heap_but_def
  proof (intro conjI allI impI)
    fix j assume j: "0 < j \<and> j < length (hswap i p h) \<and> j \<noteq> p \<and> parent j \<noteq> p"
    then have "j \<noteq> i" by (auto simp: p_def)
    with j ord [of j] gp [of j] p show "key (hswap i p h ! parent j) \<le> key (hswap i p h ! j)"
      by (cases "parent j = i") (auto simp: nth)
  next
    fix j assume j: "0 < p \<and> 0 < j \<and> j < length (hswap i p h) \<and> parent j = p"
    then have "parent p \<noteq> p" "parent p \<noteq> i" "j \<noteq> p" using p by auto
    with j pp below [of j] p show "key (hswap i p h ! parent p) \<le> key (hswap i p h ! j)"
      by (cases "j = i") (auto simp: nth intro: order_trans)
  qed
  moreover have "key (hswap i p h ! p) \<le> key (hswap i p h ! j)"
    if "0 < j" "j < length h" "parent j = p" for j
    using that below [of j] assms(4) p unfolding p_def [symmetric]
    by (cases "j = i") (auto simp: nth)
  ultimately show ?thesis unfolding heap_up_def p_def [symmetric] by simp
qed

lemma heap_up_done:
  assumes "heap_up key i h" "\<not> (0 < i \<and> key (h ! i) < key (h ! parent i))"
  shows "heap_ok key h"
  using assms unfolding heap_up_def heap_but_def heap_ok_def by (metis linorder_not_le)

lemma heap_ok_hup: "heap_up key i h \<Longrightarrow> i < length h \<Longrightarrow> heap_ok key (hup key i h)"
proof (induction key i h rule: hup.induct)
  case (1 key i h)
  show ?case
  proof (cases "0 < i \<and> key (h ! i) < key (h ! parent i)")
    case True
    with 1 heap_up_step [of key i h] parent_less [of i "length h"] show ?thesis
      by (subst hup.simps) simp
  next
    case False
    then have "hup key i h = h" by (subst hup.simps) auto
    with 1 heap_up_done [OF _ False] show ?thesis by simp
  qed
qed

lemma heap_down_step:
  assumes "heap_down key i h" "c = i * 2 + 1" "c < length h" "\<not> key (h ! i) < key (h ! min_child key h c)"
  shows "heap_down key (min_child key h c) (hswap i (min_child key h c) h)"
proof -
  define m where "m = min_child key h c"
  have m: "i < m" "m < length h" "parent m = i" "0 < m"
    using assms min_child_less [of i h key] by (auto simp: m_def min_child_def)
  have nth: "hswap i m h ! j = (if j = m then h ! i else if j = i then h ! m else h ! j)" for j
    using m by (intro hswap_nth) auto
  have ord: "key (h ! parent j) \<le> key (h ! j)" if "0 < j" "j < length h" "parent j \<noteq> i" for j
    using assms(1) that by (cases "j = i") (auto simp: heap_down_def heap_but_def)
  have gp: "key (h ! parent i) \<le> key (h ! m)" if "0 < i"
    using assms(1) that m by (auto simp: heap_down_def heap_but_def)
  have least: "key (h ! m) \<le> key (h ! j)" if "0 < j" "j < length h" "parent j = i" for j
  proof -
    have "j = c \<or> j = c + 1" using that assms(2) by presburger
    with that assms(3) show ?thesis by (auto simp: m_def min_child_def)
  qed
  have le: "key (h ! m) \<le> key (h ! i)" using assms(4) by (simp add: m_def)
  have "heap_but key m (hswap i m h)"
    unfolding heap_but_def
  proof (intro conjI allI impI)
    fix j assume j: "0 < j \<and> j < length (hswap i m h) \<and> j \<noteq> m \<and> parent j \<noteq> m"
    consider "j = i" | "j \<noteq> i" "parent j = i" | "j \<noteq> i" "parent j \<noteq> i" by blast
    then show "key (hswap i m h ! parent j) \<le> key (hswap i m h ! j)"
    proof cases
      case 1
      with j gp m show ?thesis by (auto simp: nth)
    next
      case 2
      with j least [of j] show ?thesis by (auto simp: nth)
    next
      case 3
      with j ord [of j] show ?thesis by (auto simp: nth)
    qed
  next
    fix j assume j: "0 < m \<and> 0 < j \<and> j < length (hswap i m h) \<and> parent j = m"
    then have "j \<noteq> i" "j \<noteq> m" "parent j \<noteq> i" using m by auto
    with j ord [of j] m show "key (hswap i m h ! parent m) \<le> key (hswap i m h ! j)"
      by (auto simp: nth)
  qed
  moreover have "key (hswap i m h ! parent m) \<le> key (hswap i m h ! m)" using m le by (auto simp: nth)
  ultimately show ?thesis unfolding heap_down_def m_def [symmetric] by simp
qed

lemma heap_down_done:
  assumes "heap_down key i h" "c = i * 2 + 1"
    "\<not> (c < length h \<and> \<not> key (h ! i) < key (h ! min_child key h c))"
  shows "heap_ok key h"
  unfolding heap_ok_def
proof (intro allI impI)
  fix j assume j: "0 < j \<and> j < length h"
  show "key (h ! parent j) \<le> key (h ! j)"
  proof (cases "parent j = i")
    case True
    then have "j = c \<or> j = c + 1" using j assms(2) by presburger
    with True j assms(3) show ?thesis by (auto simp: min_child_def split: if_splits)
  next
    case False
    with j assms(1) show ?thesis by (cases "j = i") (auto simp: heap_down_def heap_but_def)
  qed
qed

lemma heap_ok_hdown: "heap_down key i h \<Longrightarrow> i < length h \<Longrightarrow> heap_ok key (hdown key i h)"
proof (induction key i h rule: hdown.induct)
  case (1 key i h)
  let ?c = "i * 2 + 1"
  show ?case
  proof (cases "?c < length h \<and> \<not> key (h ! i) < key (h ! min_child key h ?c)")
    case True
    with 1 heap_down_step [of key i h ?c] min_child_less [of i h key] show ?thesis
      by (subst hdown.simps) (simp add: Let_def)
  next
    case False
    then have "hdown key i h = h" by (subst hdown.simps) (auto simp: Let_def)
    with 1 heap_down_done [OF _ refl False] show ?thesis by simp
  qed
qed

text \<open>The first entry is a minimum.\<close>

lemma heap_ok_min: "heap_ok key h \<Longrightarrow> j < length h \<Longrightarrow> key (h ! 0) \<le> key (h ! j)"
proof (induction j rule: less_induct)
  case (less j)
  show ?case
  proof (cases "j = 0")
    case False
    then have "key (h ! 0) \<le> key (h ! parent j)" using less by auto
    also have "\<dots> \<le> key (h ! j)" using less False by (auto simp: heap_ok_def)
    finally show ?thesis .
  qed simp
qed

section \<open>Making and repairing the defect\<close>

lemma heap_but_cases:
  assumes "heap_but key i h" "i < length h"
  shows "0 < i \<and> key (h ! i) < key (h ! parent i) \<Longrightarrow> heap_up key i h"
    and "\<not> (0 < i \<and> key (h ! i) < key (h ! parent i)) \<Longrightarrow> heap_down key i h"
proof -
  assume l: "0 < i \<and> key (h ! i) < key (h ! parent i)"
  have "key (h ! i) \<le> key (h ! j)" if "0 < j" "j < length h" "parent j = i" for j
  proof -
    have "key (h ! parent i) \<le> key (h ! j)" using assms(1) l that by (auto simp: heap_but_def)
    with l show ?thesis by auto
  qed
  with assms(1) show "heap_up key i h" by (simp add: heap_up_def)
next
  assume "\<not> (0 < i \<and> key (h ! i) < key (h ! parent i))"
  with assms(1) show "heap_down key i h" by (auto simp: heap_down_def)
qed

lemma heap_but_update:
  assumes "heap_ok key h"
  shows "heap_but key i (h[i := x])"
proof -
  have ord: "0 < j \<Longrightarrow> j < length h \<Longrightarrow> key (h ! parent j) \<le> key (h ! j)" for j
    using assms by (simp add: heap_ok_def)
  show ?thesis
    unfolding heap_but_def
  proof (intro conjI allI impI)
    fix j assume j: "0 < j \<and> j < length (h[i := x]) \<and> j \<noteq> i \<and> parent j \<noteq> i"
    then show "key (h[i := x] ! parent j) \<le> key (h[i := x] ! j)" using ord [of j] by auto
  next
    fix j assume j: "0 < i \<and> 0 < j \<and> j < length (h[i := x]) \<and> parent j = i"
    then have "i < length h" by auto
    with j have "key (h ! parent i) \<le> key (h ! i)" "key (h ! i) \<le> key (h ! j)"
      using ord [of i] ord [of j] by auto
    moreover have "parent i \<noteq> i" "j \<noteq> i" using j by auto
    ultimately show "key (h[i := x] ! parent i) \<le> key (h[i := x] ! j)"
      by (metis nth_list_update_neq order_trans)
  qed
qed

lemma heap_ok_append: "heap_ok key h \<Longrightarrow> heap_up key (length h) (h @ [x])"
proof -
  assume ok: "heap_ok key h"
  have old: "(h @ [x]) ! k = h ! k" if "k < length h" for k using that by (simp add: nth_append)
  have no: "\<not> (0 < j \<and> j < length (h @ [x]) \<and> parent j = length h)" for j by auto
  have "key ((h @ [x]) ! parent j) \<le> key ((h @ [x]) ! j)"
    if "0 < j" "j < length (h @ [x])" "j \<noteq> length h" for j
  proof -
    have "j < length h" "parent j < length h" using that by auto
    with ok that show ?thesis by (simp add: heap_ok_def old)
  qed
  with no show ?thesis unfolding heap_up_def heap_but_def by blast
qed

lemma heap_ok_butlast: "heap_ok key h \<Longrightarrow> heap_ok key (butlast h)"
  by (auto simp: heap_ok_def nth_butlast)

lemma butlast_hswap:
  "i < length h - 1 \<Longrightarrow> butlast (hswap i (length h - 1) h) = (butlast h)[i := last h]"
  by (cases h rule: rev_cases) (auto simp: hswap_def nth_append list_update_append)

lemma heap_but_remove:
  assumes "heap_ok key h" "i < length h - 1"
  shows "heap_but key i (butlast (hswap i (length h - 1) h))"
  unfolding butlast_hswap [OF assms(2)] by (rule heap_but_update [OF heap_ok_butlast [OF assms(1)]])

text \<open>Replacing a key by a smaller one moves the entry up, by another one down.\<close>

lemma heap_update_up:
  assumes "heap_ok key h" "i < length h" "key x < key (h ! i)"
  shows "heap_up key i (h[i := x])"
proof -
  have "key x \<le> key (h ! j)" if "0 < j" "j < length h" "parent j = i" for j
  proof -
    have "key (h ! i) \<le> key (h ! j)" using assms(1) that by (auto simp: heap_ok_def)
    with assms(3) show ?thesis by auto
  qed
  with heap_but_update [OF assms(1), of i x] assms(2) show ?thesis
    by (auto simp: heap_up_def nth_list_update)
qed

lemma heap_update_down:
  assumes "heap_ok key h" "i < length h" "\<not> key x < key (h ! i)"
  shows "heap_down key i (h[i := x])"
proof -
  have "key (h ! parent i) \<le> key x" if "0 < i"
  proof -
    have "key (h ! parent i) \<le> key (h ! i)" using assms(1,2) that by (auto simp: heap_ok_def)
    with assms(3) show ?thesis by auto
  qed
  moreover have "0 < i \<Longrightarrow> parent i \<noteq> i" by auto
  ultimately show ?thesis
    using heap_but_update [OF assms(1), of i x] assms(2) by (auto simp: heap_down_def)
qed

end
