(* ===== verification/Timer_Service.thy ===== *)
theory Timer_Service
  imports Timer_Heap "HOL-Library.Monad_Syntax"
begin

text \<open>
  The timer service (detail/timer_service.hpp), the timers and waiters it manages (detail/timer.hpp) and
  the wait and completion code of timer.cpp.

  A timer implementation and a waiter node are identities whose fields live in two stores. The list
  of waiters is the list that the \<^verbatim>\<open>intrusive_list\<close> of the implementation represents, and the free list
  is the list that \<^verbatim>\<open>free_list_\<close> and the \<^verbatim>\<open>next_free_\<close> links represent. What the service asks of its
  environment is recorded in order: completion operations posted to the scheduler, continuations
  posted to an executor, coroutine frames destroyed, the count of outstanding work, and how often
  the callback for a changed earliest expiry was invoked. Each operation is one step: its locked
  section is atomic, and nothing runs between its parts.
\<close>

section \<open>State\<close>

type_synonym timer_id = nat
type_synonym waiter_id = nat

text \<open>Time points are counts of nanoseconds in 64 bits.\<close>

definition time_max :: int where
  "time_max = 2 ^ 63 - 1"

definition time_min :: int where
  "time_min = - (2 ^ 63)"

definition npos :: nat where
  "npos = 2 ^ 64 - 1"

datatype wait_error = canceled

record timer_impl =
  expiry :: int
  heap_index :: nat
  might_have_pending_waits :: bool
  impl_svc :: nat
  waiters :: "waiter_id list"

record waiter_node =
  w_impl :: "timer_id option"
  w_ec :: "wait_error option"
  w_stop_possible :: bool
  w_stop_requested :: bool
  w_cb_active :: bool
  w_handle :: bool

type_synonym heap_entry = "int \<times> timer_id"

record timer_service =
  ts_self :: nat
  ts_heap :: "heap_entry list"
  ts_free_list :: "timer_id list"
  ts_shutting_down :: bool
  ts_cached_nearest :: int
  ts_tl_cache :: "timer_id option"
  ts_impls :: "timer_id \<Rightarrow> timer_impl"
  ts_nodes :: "waiter_id \<Rightarrow> waiter_node"
  ts_fresh :: timer_id
  ts_deleted :: "timer_id list"
  ts_posted :: "waiter_id list"
  ts_resumed :: "waiter_id list"
  ts_destroyed :: "waiter_id list"
  ts_work :: int
  ts_notified :: nat

definition upd_impl :: "timer_id \<Rightarrow> (timer_impl \<Rightarrow> timer_impl) \<Rightarrow> timer_service \<Rightarrow> timer_service" where
  "upd_impl t f s = s\<lparr>ts_impls := (ts_impls s)(t := f (ts_impls s t))\<rparr>"

definition upd_node :: "waiter_id \<Rightarrow> (waiter_node \<Rightarrow> waiter_node) \<Rightarrow> timer_service \<Rightarrow> timer_service" where
  "upd_node w f s = s\<lparr>ts_nodes := (ts_nodes s)(w := f (ts_nodes s w))\<rparr>"

definition set_index :: "timer_id \<Rightarrow> nat \<Rightarrow> timer_service \<Rightarrow> timer_service" where
  "set_index t i = upd_impl t (heap_index_update (\<lambda>_. i))"

definition set_flag :: "timer_id \<Rightarrow> bool \<Rightarrow> timer_service \<Rightarrow> timer_service" where
  "set_flag t b = upd_impl t (might_have_pending_waits_update (\<lambda>_. b))"

definition set_waiters :: "timer_id \<Rightarrow> waiter_id list \<Rightarrow> timer_service \<Rightarrow> timer_service" where
  "set_waiters t ws = upd_impl t (waiters_update (\<lambda>_. ws))"

definition sched_post :: "waiter_id \<Rightarrow> timer_service \<Rightarrow> timer_service" where
  "sched_post w s = s\<lparr>ts_posted := ts_posted s @ [w]\<rparr>"

definition notify_earliest :: "timer_service \<Rightarrow> timer_service" where
  "notify_earliest s = s\<lparr>ts_notified := ts_notified s + 1\<rparr>"

section \<open>Queries\<close>

definition ts_empty :: "timer_service \<Rightarrow> bool" where
  "ts_empty s \<longleftrightarrow> ts_cached_nearest s = time_max"

definition nearest_expiry :: "timer_service \<Rightarrow> int" where
  "nearest_expiry s = ts_cached_nearest s"

definition refresh_cached_nearest :: "timer_service \<Rightarrow> timer_service" where
  "refresh_cached_nearest s =
     s\<lparr>ts_cached_nearest := (if ts_heap s = [] then time_max else fst (ts_heap s ! 0))\<rparr>"

section \<open>The heap\<close>

definition swap_heap :: "nat \<Rightarrow> nat \<Rightarrow> timer_service \<Rightarrow> timer_service" where
  "swap_heap i1 i2 s =
     (let s1 = s\<lparr>ts_heap := hswap i1 i2 (ts_heap s)\<rparr>;
          s2 = set_index (snd (ts_heap s1 ! i1)) i1 s1 in
      set_index (snd (ts_heap s2 ! i2)) i2 s2)"

lemma ts_heap_swap_heap [simp]: "ts_heap (swap_heap i1 i2 s) = hswap i1 i2 (ts_heap s)"
  by (simp add: swap_heap_def set_index_def upd_impl_def Let_def)

function up_heap :: "nat \<Rightarrow> timer_service \<Rightarrow> timer_service" where
  "up_heap index s =
     (if 0 < index then
        if \<not> fst (ts_heap s ! index) < fst (ts_heap s ! parent index) then s
        else up_heap (parent index) (swap_heap index (parent index) s)
      else s)"
  by pat_completeness auto
termination
  by (relation "measure fst") auto

function down_heap :: "nat \<Rightarrow> timer_service \<Rightarrow> timer_service" where
  "down_heap index s =
     (let child = index * 2 + 1 in
      if child < length (ts_heap s) then
        let m = min_child fst (ts_heap s) child in
        if fst (ts_heap s ! index) < fst (ts_heap s ! m) then s
        else down_heap m (swap_heap index m s)
      else s)"
  by pat_completeness auto
termination
proof (relation "measure (\<lambda>(i, s). length (ts_heap s) - i)")
  fix index :: nat and s :: timer_service and child m
  assume "child = index * 2 + 1" "child < length (ts_heap s)" "m = min_child fst (ts_heap s) child"
  then show "((m, swap_heap index m s), index, s) \<in> measure (\<lambda>(i, s). length (ts_heap s) - i)"
    using min_child_less [of index "ts_heap s" fst] by auto
qed simp

declare up_heap.simps [simp del] down_heap.simps [simp del]

definition remove_timer_impl :: "timer_id \<Rightarrow> timer_service \<Rightarrow> timer_service" where
  "remove_timer_impl t s =
     (let index = heap_index (ts_impls s t); n = length (ts_heap s) in
      if index \<ge> n then s
      else if index = n - 1 then
        let s1 = set_index t npos s in s1\<lparr>ts_heap := butlast (ts_heap s1)\<rparr>
      else
        let s1 = set_index t npos (swap_heap index (n - 1) s);
            s2 = s1\<lparr>ts_heap := butlast (ts_heap s1)\<rparr> in
        if 0 < index \<and> fst (ts_heap s2 ! index) < fst (ts_heap s2 ! parent index)
        then up_heap index s2
        else down_heap index s2)"

text \<open>
  Entering a timer into the heap, in \<open>insert_waiter\<close>, and moving it to a new time, in \<open>update_timer\<close>.
\<close>

definition push_timer :: "timer_id \<Rightarrow> timer_service \<Rightarrow> timer_service" where
  "push_timer t s = (let a = set_index t (length (ts_heap s)) s;
     b = a\<lparr>ts_heap := ts_heap a @ [(expiry (ts_impls a t), t)]\<rparr> in up_heap (length (ts_heap b) - 1) b)"

definition retime :: "timer_id \<Rightarrow> int \<Rightarrow> timer_service \<Rightarrow> timer_service" where
  "retime t new_time s =
     (let idx = heap_index (ts_impls s t);
          old_time = fst (ts_heap s ! idx);
          s' = s\<lparr>ts_heap := (ts_heap s)[idx := (new_time, snd (ts_heap s ! idx))]\<rparr> in
      if new_time < old_time then up_heap idx s' else down_heap idx s')"

section \<open>Completing waiters\<close>

text \<open>
  The loops \<open>while (auto* w = impl.waiters_.pop_front())\<close> that mark each waiter as removed, by \<open>f\<close>, and
  move it to a local list.
\<close>

fun drain_loop :: "(waiter_node \<Rightarrow> waiter_node) \<Rightarrow> waiter_id list \<Rightarrow> waiter_id list \<Rightarrow> timer_service \<Rightarrow>
    waiter_id list \<times> timer_service" where
  "drain_loop f [] acc s = (acc, s)"
| "drain_loop f (w # ws) acc s = drain_loop f ws (acc @ [w]) (upd_node w f s)"

definition drain_waiters :: "(waiter_node \<Rightarrow> waiter_node) \<Rightarrow> timer_id \<Rightarrow> waiter_id list \<Rightarrow> timer_service \<Rightarrow>
    waiter_id list \<times> timer_service" where
  "drain_waiters f t acc s = drain_loop f (waiters (ts_impls s t)) acc (set_waiters t [] s)"

abbreviation mark_removed :: "waiter_node \<Rightarrow> waiter_node" where
  "mark_removed n \<equiv> n\<lparr>w_impl := None\<rparr>"

abbreviation mark_expired :: "waiter_node \<Rightarrow> waiter_node" where
  "mark_expired n \<equiv> n\<lparr>w_impl := None, w_ec := None\<rparr>"

fun complete_canceled :: "waiter_id list \<Rightarrow> timer_service \<Rightarrow> timer_service" where
  "complete_canceled [] s = s"
| "complete_canceled (w # ws) s =
     complete_canceled ws (sched_post w (upd_node w (w_ec_update (\<lambda>_. Some canceled)) s))"

fun complete_expired :: "waiter_id list \<Rightarrow> timer_service \<Rightarrow> timer_service" where
  "complete_expired [] s = s"
| "complete_expired (w # ws) s = complete_expired ws (sched_post w s)"

definition update_timer :: "timer_id \<Rightarrow> int \<Rightarrow> timer_service \<Rightarrow> nat \<times> timer_service" where
  "update_timer t new_time s =
     (if heap_index (ts_impls s t) = npos \<and> \<not> might_have_pending_waits (ts_impls s t) then (0, s)
      else
        let (cs, s1) = drain_waiters mark_removed t [] s;
            idx = heap_index (ts_impls s1 t);
            (notify, s2) =
              (if idx < length (ts_heap s1) then
                 let s' = retime t new_time s1 in (heap_index (ts_impls s' t) = 0, s')
               else (False, s1));
            s3 = refresh_cached_nearest s2;
            s4 = complete_canceled cs s3 in
        (length cs, if notify then notify_earliest s4 else s4))"

definition undo_insert :: "timer_id \<Rightarrow> waiter_id \<Rightarrow> timer_service \<Rightarrow> timer_service" where
  "undo_insert t w s =
     (let s1 = upd_node w (w_impl_update (\<lambda>_. None)) s;
          s2 = set_waiters t (remove1 w (waiters (ts_impls s1 t))) s1;
          s3 = (if waiters (ts_impls s2 t) = [] then set_flag t False (remove_timer_impl t s2) else s2) in
      refresh_cached_nearest s3)"

definition publish_waiter :: "timer_id \<Rightarrow> waiter_id \<Rightarrow> timer_service \<Rightarrow> bool \<times> timer_service" where
  "publish_waiter t w s =
     (let s1 = upd_node w (w_impl_update (\<lambda>_. Some t)) s;
          (notify, s2) =
            (if heap_index (ts_impls s1 t) = npos then
               let s' = push_timer t s1 in (heap_index (ts_impls s' t) = 0, refresh_cached_nearest s')
             else (False, s1)) in
      (notify, set_waiters t (waiters (ts_impls s2 t) @ [w]) s2))"

definition insert_waiter :: "timer_id \<Rightarrow> waiter_id \<Rightarrow> timer_service \<Rightarrow> timer_service" where
  "insert_waiter t w s =
     (let (notify, s1) = publish_waiter t w s in
      if w_stop_requested (ts_nodes s1 w)
      then sched_post w (upd_node w (w_ec_update (\<lambda>_. Some canceled)) (undo_insert t w s1))
      else if notify then notify_earliest s1 else s1)"

definition cancel_timer :: "timer_id \<Rightarrow> timer_service \<Rightarrow> nat \<times> timer_service" where
  "cancel_timer t s =
     (if \<not> might_have_pending_waits (ts_impls s t) then (0, s)
      else
        let s1 = remove_timer_impl t s;
            (cs, s2) = drain_waiters mark_removed t [] s1;
            s3 = refresh_cached_nearest (set_flag t False s2) in
        (length cs, complete_canceled cs s3))"

definition cancel_waiter :: "waiter_id \<Rightarrow> timer_service \<Rightarrow> timer_service" where
  "cancel_waiter w s = (case w_impl (ts_nodes s w) of
     None \<Rightarrow> s
   | Some t \<Rightarrow> sched_post w (upd_node w (w_ec_update (\<lambda>_. Some canceled)) (undo_insert t w s)))"

definition cancel_one_waiter :: "timer_id \<Rightarrow> timer_service \<Rightarrow> nat \<times> timer_service" where
  "cancel_one_waiter t s =
     (if \<not> might_have_pending_waits (ts_impls s t) then (0, s)
      else (case waiters (ts_impls s t) of
        [] \<Rightarrow> (0, s)
      | w # ws \<Rightarrow>
          let s1 = upd_node w (w_impl_update (\<lambda>_. None)) (set_waiters t ws s);
              s2 = (if waiters (ts_impls s1 t) = [] then set_flag t False (remove_timer_impl t s1) else s1);
              s3 = refresh_cached_nearest s2 in
          (1, sched_post w (upd_node w (w_ec_update (\<lambda>_. Some canceled)) s3))))"

text \<open>
  The loop of \<open>process_expired\<close> as a partial function: that it ends is a theorem about the states
  that satisfy the invariant.
\<close>

definition expire_first :: "waiter_id list \<Rightarrow> timer_service \<Rightarrow> waiter_id list \<times> timer_service" where
  "expire_first expired s =
     (let t = snd (ts_heap s ! 0);
          (expired', s1) = drain_waiters mark_expired t expired (remove_timer_impl t s) in
      (expired', set_flag t False s1))"

partial_function (option) process_expired_loop ::
    "int \<Rightarrow> waiter_id list \<Rightarrow> timer_service \<Rightarrow> (waiter_id list \<times> timer_service) option" where
  "process_expired_loop now expired s =
     (if ts_heap s \<noteq> [] \<and> fst (ts_heap s ! 0) \<le> now
      then (case expire_first expired s of (expired', s') \<Rightarrow> process_expired_loop now expired' s')
      else Some (expired, s))"

definition process_expired :: "int \<Rightarrow> timer_service \<Rightarrow> (nat \<times> timer_service) option" where
  "process_expired now s = (case process_expired_loop now [] s of
     None \<Rightarrow> None
   | Some (expired, s1) \<Rightarrow> Some (length expired, complete_expired expired (refresh_cached_nearest s1)))"

section \<open>Creating and destroying implementations\<close>

definition delete_impl :: "timer_id \<Rightarrow> timer_service \<Rightarrow> timer_service" where
  "delete_impl t s = s\<lparr>ts_deleted := ts_deleted s @ [t]\<rparr>"

definition try_pop_tl_cache :: "timer_service \<Rightarrow> timer_id option \<times> timer_service" where
  "try_pop_tl_cache s = (case ts_tl_cache s of
     None \<Rightarrow> (None, s)
   | Some t \<Rightarrow>
       let s1 = s\<lparr>ts_tl_cache := None\<rparr> in
       if impl_svc (ts_impls s1 t) = ts_self s1 then (Some t, s1) else (None, delete_impl t s1))"

definition try_push_tl_cache :: "timer_id \<Rightarrow> timer_service \<Rightarrow> bool \<times> timer_service" where
  "try_push_tl_cache t s = (case ts_tl_cache s of
     None \<Rightarrow> (True, s\<lparr>ts_tl_cache := Some t\<rparr>)
   | Some _ \<Rightarrow> (False, s))"

definition timer_service_invalidate_cache :: "timer_service \<Rightarrow> timer_service" where
  "timer_service_invalidate_cache s = (case ts_tl_cache s of
     None \<Rightarrow> s
   | Some t \<Rightarrow> (delete_impl t s)\<lparr>ts_tl_cache := None\<rparr>)"

definition new_impl :: "nat \<Rightarrow> timer_impl" where
  "new_impl svc = \<lparr>expiry = 0, heap_index = npos, might_have_pending_waits = False, impl_svc = svc, waiters = []\<rparr>"

definition ts_init :: "nat \<Rightarrow> (waiter_id \<Rightarrow> waiter_node) \<Rightarrow> timer_service" where
  "ts_init self nodes = \<lparr>ts_self = self, ts_heap = [], ts_free_list = [], ts_shutting_down = False,
     ts_cached_nearest = time_max, ts_tl_cache = None, ts_impls = \<lambda>_. new_impl self, ts_nodes = nodes,
     ts_fresh = 0, ts_deleted = [], ts_posted = [], ts_resumed = [], ts_destroyed = [], ts_work = 0, ts_notified = 0\<rparr>"

definition reset_impl :: "timer_id \<Rightarrow> timer_service \<Rightarrow> timer_service" where
  "reset_impl t s = upd_impl t (\<lambda>i. i\<lparr>impl_svc := ts_self s, expiry := 0, heap_index := npos,
     might_have_pending_waits := False\<rparr>) s"

definition construct :: "timer_service \<Rightarrow> timer_id \<times> timer_service" where
  "construct s = (case try_pop_tl_cache s of
     (Some t, s1) \<Rightarrow> (t, reset_impl t s1)
   | (None, s1) \<Rightarrow>
       (case ts_free_list s1 of
          t # ts \<Rightarrow> (t, reset_impl t (s1\<lparr>ts_free_list := ts\<rparr>))
        | [] \<Rightarrow>
            let t = ts_fresh s1 in
            (t, upd_impl t (\<lambda>_. new_impl (ts_self s1)) (s1\<lparr>ts_fresh := t + 1\<rparr>))))"

definition destroy_impl :: "timer_id \<Rightarrow> timer_service \<Rightarrow> timer_service" where
  "destroy_impl t s =
     (if ts_shutting_down s then s
      else
        let s1 = snd (cancel_timer t s);
            s2 = (if heap_index (ts_impls s1 t) \<noteq> npos
                  then refresh_cached_nearest (remove_timer_impl t s1) else s1) in
        (case try_push_tl_cache t s2 of
           (True, s3) \<Rightarrow> s3
         | (False, s3) \<Rightarrow> s3\<lparr>ts_free_list := t # ts_free_list s3\<rparr>))"

definition ts_destroy :: "timer_id \<Rightarrow> timer_service \<Rightarrow> timer_service" where
  "ts_destroy t s = (if ts_shutting_down s then s else destroy_impl t s)"

definition reset_stop_cb :: "waiter_id \<Rightarrow> timer_service \<Rightarrow> timer_service" where
  "reset_stop_cb w s =
     (if w_cb_active (ts_nodes s w) then upd_node w (w_cb_active_update (\<lambda>_. False)) s else s)"

definition work_started :: "timer_service \<Rightarrow> timer_service" where
  "work_started s = s\<lparr>ts_work := ts_work s + 1\<rparr>"

definition work_finished :: "timer_service \<Rightarrow> timer_service" where
  "work_finished s = s\<lparr>ts_work := ts_work s - 1\<rparr>"

text \<open>\<open>auto h = std::exchange(w->h_, {}); sched_->work_finished(); if (h) h.destroy();\<close>\<close>

definition destroy_waiter :: "waiter_id \<Rightarrow> timer_service \<Rightarrow> timer_service" where
  "destroy_waiter w s =
     (let s1 = reset_stop_cb w s;
          h = w_handle (ts_nodes s1 w);
          s2 = work_finished (upd_node w (w_handle_update (\<lambda>_. False)) s1) in
      if h then s2\<lparr>ts_destroyed := ts_destroyed s2 @ [w]\<rparr> else s2)"

fun destroy_waiters :: "waiter_id list \<Rightarrow> timer_service \<Rightarrow> timer_service" where
  "destroy_waiters [] s = s"
| "destroy_waiters (w # ws) s = destroy_waiters ws (destroy_waiter w s)"

fun shutdown_detach :: "heap_entry list \<Rightarrow> timer_service \<Rightarrow> timer_service" where
  "shutdown_detach [] s = s"
| "shutdown_detach (e # es) s = shutdown_detach es (set_index (snd e) npos s)"

fun shutdown_impls :: "timer_id list \<Rightarrow> timer_service \<Rightarrow> timer_service" where
  "shutdown_impls [] s = s"
| "shutdown_impls (t # ts) s =
     shutdown_impls ts (delete_impl t (destroy_waiters (waiters (ts_impls s t)) (set_waiters t [] s)))"

fun delete_impls :: "timer_id list \<Rightarrow> timer_service \<Rightarrow> timer_service" where
  "delete_impls [] s = s"
| "delete_impls (t # ts) s = delete_impls ts (delete_impl t s)"

definition ts_shutdown :: "timer_service \<Rightarrow> timer_service" where
  "ts_shutdown s =
     (let s1 = (timer_service_invalidate_cache s)\<lparr>ts_shutting_down := True\<rparr>;
          impls = map snd (ts_heap s1);
          s2 = (shutdown_detach (ts_heap s1) s1)\<lparr>ts_heap := [], ts_cached_nearest := time_max\<rparr>;
          s3 = shutdown_impls impls s2 in
      (delete_impls (ts_free_list s3) s3)\<lparr>ts_free_list := []\<rparr>)"

section \<open>Timers\<close>

definition timer_already_expired :: "timer_id \<Rightarrow> int \<Rightarrow> timer_service \<Rightarrow> bool" where
  "timer_already_expired t now s \<longleftrightarrow>
     heap_index (ts_impls s t) = npos \<and>
     (expiry (ts_impls s t) = time_min \<or> expiry (ts_impls s t) \<le> now)"

definition arm_stop_cb :: "waiter_id \<Rightarrow> timer_service \<Rightarrow> timer_service" where
  "arm_stop_cb w s =
     (let s1 = (if w_stop_requested (ts_nodes s w) then cancel_waiter w s else s) in
      upd_node w (w_cb_active_update (\<lambda>_. True)) s1)"

definition resume_post :: "waiter_id \<Rightarrow> timer_service \<Rightarrow> timer_service" where
  "resume_post w s = s\<lparr>ts_resumed := ts_resumed s @ [w]\<rparr>"

definition impl_wait :: "timer_id \<Rightarrow> waiter_id \<Rightarrow> int \<Rightarrow> timer_service \<Rightarrow> timer_service" where
  "impl_wait t w now s =
     (if timer_already_expired t now s
      then resume_post w (upd_node w (w_ec_update (\<lambda>_. None)) s)
      else
        let s1 = upd_node w (w_impl_update (\<lambda>_. None)) s;
            s2 = work_started (set_flag t True s1);
            s3 = (if w_stop_possible (ts_nodes s2 w) then arm_stop_cb w s2 else s2) in
        insert_waiter t w s3)"

definition await_suspend :: "timer_id \<Rightarrow> waiter_id \<Rightarrow> int \<Rightarrow> int \<Rightarrow> timer_service \<Rightarrow> timer_service" where
  "await_suspend t w now now' s =
     (let s1 = upd_node w (w_handle_update (\<lambda>_. True)) s in
      if timer_already_expired t now s1
      then resume_post w (upd_node w (w_ec_update (\<lambda>_. None)) s1)
      else impl_wait t w now' s1)"

definition timer_cancel :: "timer_id \<Rightarrow> timer_service \<Rightarrow> nat \<times> timer_service" where
  "timer_cancel t s =
     (if \<not> might_have_pending_waits (ts_impls s t) then (0, s) else cancel_timer t s)"

definition timer_cancel_one :: "timer_id \<Rightarrow> timer_service \<Rightarrow> nat \<times> timer_service" where
  "timer_cancel_one t s =
     (if \<not> might_have_pending_waits (ts_impls s t) then (0, s) else cancel_one_waiter t s)"

definition expires_at :: "timer_id \<Rightarrow> int \<Rightarrow> timer_service \<Rightarrow> nat \<times> timer_service" where
  "expires_at t tp s =
     (let s1 = upd_impl t (expiry_update (\<lambda>_. tp)) s in
      if heap_index (ts_impls s1 t) = npos \<and> \<not> might_have_pending_waits (ts_impls s1 t) then (0, s1)
      else update_timer t (expiry (ts_impls s1 t)) s1)"

definition expiry_after :: "int \<Rightarrow> int \<Rightarrow> int" where
  "expiry_after now d =
     (if d \<le> 0 then time_min else if time_max - now < d then time_max else now + d)"

definition expires_after :: "timer_id \<Rightarrow> int \<Rightarrow> int \<Rightarrow> timer_service \<Rightarrow> nat \<times> timer_service" where
  "expires_after t now d s =
     (let s1 = upd_impl t (expiry_update (\<lambda>_. expiry_after now d)) s in
      if heap_index (ts_impls s1 t) = npos \<and> \<not> might_have_pending_waits (ts_impls s1 t) then (0, s1)
      else update_timer t (expiry (ts_impls s1 t)) s1)"

text \<open>The stop callback of a waiter.\<close>

definition canceller_call :: "waiter_id \<Rightarrow> timer_service \<Rightarrow> timer_service" where
  "canceller_call w s = cancel_waiter w s"

text \<open>The completion operation run by the scheduler, and its destruction at shutdown.\<close>

definition completion_invoke :: "waiter_id \<Rightarrow> timer_service \<Rightarrow> timer_service" where
  "completion_invoke w s = work_finished (resume_post w (reset_stop_cb w s))"

definition completion_destroy :: "waiter_id \<Rightarrow> timer_service \<Rightarrow> timer_service" where
  "completion_destroy w s = destroy_waiter w s"

end
