(* ===== verification/Timer_Invariant.thy ===== *)
theory Timer_Invariant
  imports Timer_Service
begin

text \<open>
  The invariant of the timer service and what its operations do: the heap is ordered and agrees
  with the indices stored in the timers, the cached nearest expiry is the minimum of the heap, a
  timer is in the heap exactly while its flag is set, and a waiter is in the list of exactly the
  timer it points to.
\<close>

section \<open>Frames\<close>

lemmas setter_defs = upd_impl_def upd_node_def set_index_def set_flag_def set_waiters_def
  sched_post_def notify_earliest_def refresh_cached_nearest_def

text \<open>The heap operations change the heap and the indices of timers, and nothing else.\<close>

definition reindexed :: "timer_service \<Rightarrow> timer_service \<Rightarrow> bool" where
  "reindexed s s' \<longleftrightarrow> s' = s\<lparr>ts_heap := ts_heap s', ts_impls := ts_impls s'\<rparr> \<and>
     (\<forall>t. ts_impls s' t = (ts_impls s t)\<lparr>heap_index := heap_index (ts_impls s' t)\<rparr>)"

lemma reindexed_refl [simp]: "reindexed s s"
  by (simp add: reindexed_def)

lemma reindexed_trans: "reindexed s s' \<Longrightarrow> reindexed s' s'' \<Longrightarrow> reindexed s s''"
  unfolding reindexed_def
  by (metis (no_types, lifting) timer_impl.update_convs(2) timer_impl.surjective timer_service.surjective
      timer_service.update_convs(2,7))

lemma reindexed_impl:
  assumes "reindexed s s'"
  shows "waiters (ts_impls s' t) = waiters (ts_impls s t)" "expiry (ts_impls s' t) = expiry (ts_impls s t)"
    "might_have_pending_waits (ts_impls s' t) = might_have_pending_waits (ts_impls s t)"
proof -
  obtain i where "ts_impls s' t = (ts_impls s t)\<lparr>heap_index := i\<rparr>"
    using assms unfolding reindexed_def by blast
  then show "waiters (ts_impls s' t) = waiters (ts_impls s t)"
    "expiry (ts_impls s' t) = expiry (ts_impls s t)"
    "might_have_pending_waits (ts_impls s' t) = might_have_pending_waits (ts_impls s t)" by simp_all
qed

lemma reindexed_fields:
  assumes "reindexed s s'"
  shows "ts_nodes s' = ts_nodes s" "ts_posted s' = ts_posted s" "ts_resumed s' = ts_resumed s"
    "ts_destroyed s' = ts_destroyed s" "ts_work s' = ts_work s" "ts_notified s' = ts_notified s"
    "ts_cached_nearest s' = ts_cached_nearest s" "ts_shutting_down s' = ts_shutting_down s"
    "ts_free_list s' = ts_free_list s" "ts_tl_cache s' = ts_tl_cache s"
proof -
  obtain h im where "s' = s\<lparr>ts_heap := h, ts_impls := im\<rparr>"
    using assms unfolding reindexed_def by blast
  then show "ts_nodes s' = ts_nodes s" "ts_posted s' = ts_posted s" "ts_resumed s' = ts_resumed s"
    "ts_destroyed s' = ts_destroyed s" "ts_work s' = ts_work s" "ts_notified s' = ts_notified s"
    "ts_cached_nearest s' = ts_cached_nearest s" "ts_shutting_down s' = ts_shutting_down s"
    "ts_free_list s' = ts_free_list s" "ts_tl_cache s' = ts_tl_cache s" by simp_all
qed

lemmas reindexed_simps = reindexed_impl reindexed_fields

lemma reindexed_set_index [simp]: "reindexed s (set_index t i s)"
  by (simp add: reindexed_def setter_defs)

lemma reindexed_heap [simp]: "reindexed s (s\<lparr>ts_heap := h\<rparr>)"
  by (simp add: reindexed_def)

lemma reindexed_swap [simp]: "reindexed s (swap_heap i j s)"
  unfolding swap_heap_def Let_def
  by (rule reindexed_trans [OF reindexed_heap], rule reindexed_trans [OF reindexed_set_index],
      rule reindexed_set_index)

lemma reindexed_up: "reindexed s (up_heap i s)"
proof (induction i s rule: up_heap.induct)
  case (1 i s)
  then show ?case
    by (subst up_heap.simps) (auto intro: reindexed_trans [OF reindexed_swap])
qed

lemma reindexed_down: "reindexed s (down_heap i s)"
proof (induction i s rule: down_heap.induct)
  case (1 i s)
  then show ?case
    by (subst down_heap.simps) (auto simp: Let_def intro: reindexed_trans [OF reindexed_swap])
qed

section \<open>Indices\<close>

text \<open>The entry at position \<open>i\<close> belongs to a timer that stores the index \<open>i\<close>.\<close>

definition indexed :: "heap_entry list \<Rightarrow> (timer_id \<Rightarrow> timer_impl) \<Rightarrow> bool" where
  "indexed h im \<longleftrightarrow> (\<forall>i < length h. heap_index (im (snd (h ! i))) = i)"

definition outside_npos :: "heap_entry list \<Rightarrow> (timer_id \<Rightarrow> timer_impl) \<Rightarrow> bool" where
  "outside_npos h im \<longleftrightarrow> (\<forall>t. t \<notin> snd ` set h \<longrightarrow> heap_index (im t) = npos)"

lemma indexed_inj: "indexed h im \<Longrightarrow> i < length h \<Longrightarrow> j < length h \<Longrightarrow> snd (h ! i) = snd (h ! j) \<Longrightarrow> i = j"
  unfolding indexed_def by metis

lemma swap_heap_impls: "heap_index (ts_impls (swap_heap i j s) t) =
    (if t = snd (hswap i j (ts_heap s) ! j) then j
     else if t = snd (hswap i j (ts_heap s) ! i) then i else heap_index (ts_impls s t))"
  by (simp add: swap_heap_def setter_defs Let_def)

lemma indexed_swap:
  assumes "indexed (ts_heap s) (ts_impls s)" "i < length (ts_heap s)" "j < length (ts_heap s)"
  shows "indexed (ts_heap (swap_heap i j s)) (ts_impls (swap_heap i j s))"
  unfolding indexed_def
proof (intro allI impI)
  fix k assume k: "k < length (ts_heap (swap_heap i j s))"
  have "heap_index (ts_impls s (snd (ts_heap s ! k))) = k" using assms k by (simp add: indexed_def)
  moreover note indexed_inj [OF assms(1), of k i] indexed_inj [OF assms(1), of k j]
    indexed_inj [OF assms(1), of i j]
  ultimately show "heap_index (ts_impls (swap_heap i j s) (snd (ts_heap (swap_heap i j s) ! k))) = k"
    using assms k by (auto simp: swap_heap_impls hswap_nth)
qed

lemma outside_swap:
  assumes "outside_npos (ts_heap s) (ts_impls s)" "i < length (ts_heap s)" "j < length (ts_heap s)"
  shows "outside_npos (ts_heap (swap_heap i j s)) (ts_impls (swap_heap i j s))"
proof -
  have set: "set (hswap i j (ts_heap s)) = set (ts_heap s)"
    using mset_hswap assms(2,3) mset_eq_setD by blast
  have "snd (hswap i j (ts_heap s) ! k) \<in> snd ` set (ts_heap s)" if "k < length (ts_heap s)" for k
    using that set by (metis imageI length_hswap nth_mem)
  with assms set show ?thesis by (auto simp: outside_npos_def swap_heap_impls)
qed

definition index_ok :: "timer_service \<Rightarrow> bool" where
  "index_ok s \<longleftrightarrow> indexed (ts_heap s) (ts_impls s) \<and> outside_npos (ts_heap s) (ts_impls s)"

lemma up_heap_spec:
  "index_ok s \<Longrightarrow> i < length (ts_heap s) \<Longrightarrow>
     ts_heap (up_heap i s) = hup fst i (ts_heap s) \<and> index_ok (up_heap i s)"
proof (induction i s rule: up_heap.induct)
  case (1 i s)
  then show ?case
    using indexed_swap [of s i "parent i"] outside_swap [of s i "parent i"] parent_less [of i "length (ts_heap s)"]
    by (subst up_heap.simps, subst (2) up_heap.simps, subst hup.simps) (auto simp: index_ok_def)
qed

lemma down_heap_spec:
  "index_ok s \<Longrightarrow> i < length (ts_heap s) \<Longrightarrow>
     ts_heap (down_heap i s) = hdown fst i (ts_heap s) \<and> index_ok (down_heap i s)"
proof (induction i s rule: down_heap.induct)
  case (1 i s)
  let ?m = "min_child fst (ts_heap s) (i * 2 + 1)"
  show ?case
    using 1 indexed_swap [of s i ?m] outside_swap [of s i ?m] min_child_less [of i "ts_heap s" fst]
    by (subst down_heap.simps, subst (2) down_heap.simps, subst hdown.simps) (auto simp: index_ok_def Let_def)
qed

lemma index_ok_entry:
  assumes "index_ok s" "heap_index (ts_impls s t) \<noteq> npos"
  shows "heap_index (ts_impls s t) < length (ts_heap s)"
    "snd (ts_heap s ! heap_index (ts_impls s t)) = t"
proof -
  have "t \<in> snd ` set (ts_heap s)" using assms by (auto simp: index_ok_def outside_npos_def)
  then obtain i where "i < length (ts_heap s)" "snd (ts_heap s ! i) = t"
    by (auto simp: in_set_conv_nth)
  moreover from this have "heap_index (ts_impls s t) = i"
    using assms(1) by (auto simp: index_ok_def indexed_def)
  ultimately show "heap_index (ts_impls s t) < length (ts_heap s)"
    "snd (ts_heap s ! heap_index (ts_impls s t)) = t" by simp_all
qed

lemma index_ok_member:
  "index_ok s \<Longrightarrow> length (ts_heap s) < npos \<Longrightarrow> t \<in> snd ` set (ts_heap s) \<longleftrightarrow> heap_index (ts_impls s t) \<noteq> npos"
  by (fastforce simp: index_ok_def outside_npos_def indexed_def in_set_conv_nth)

text \<open>Dropping the last entry after its timer was told that it has no index.\<close>

lemma index_ok_pop:
  assumes "index_ok s" "ts_heap s \<noteq> []" "t = snd (last (ts_heap s))"
  shows "index_ok ((set_index t npos s)\<lparr>ts_heap := butlast (ts_heap s)\<rparr>)"
proof -
  let ?n = "length (ts_heap s) - 1"
  have last: "snd (ts_heap s ! ?n) = t" "?n < length (ts_heap s)"
    using assms(2,3) by (simp_all add: last_conv_nth)
  have ne: "snd (ts_heap s ! i) \<noteq> t" if "i < ?n" for i
    using indexed_inj [of "ts_heap s" "ts_impls s" i ?n] assms(1) last that
    by (auto simp: index_ok_def)
  have "set (ts_heap s) = insert (last (ts_heap s)) (set (butlast (ts_heap s)))"
    using assms(2) by (metis append_butlast_last_id list.simps(15) rotate1.simps(2) set_rotate1)
  then have mem: "u \<notin> snd ` set (butlast (ts_heap s)) \<Longrightarrow> u \<noteq> t \<Longrightarrow> u \<notin> snd ` set (ts_heap s)" for u
    using assms(3) by auto
  show ?thesis
    using assms(1) ne mem
    by (auto simp: index_ok_def indexed_def outside_npos_def setter_defs nth_butlast)
qed

lemma mset_butlast_hswap:
  assumes "i < length h - 1"
  shows "mset (butlast (hswap i (length h - 1) h)) = mset h - {#h ! i#}"
proof -
  have "hswap i (length h - 1) h \<noteq> []" using assms by (metis length_hswap length_0_conv not_less0 diff_0_eq_0 less_zeroE)
  moreover have "last (hswap i (length h - 1) h) = h ! i"
    using assms by (subst last_conv_nth) (auto simp: hswap_nth hswap_def)
  ultimately have "mset (hswap i (length h - 1) h) = add_mset (h ! i) (mset (butlast (hswap i (length h - 1) h)))"
    by (metis append_butlast_last_id mset.simps(2) mset_append add_mset_add_single mset_single_iff_right union_commute add.right_neutral)
  moreover have "mset (hswap i (length h - 1) h) = mset h" using assms by (intro mset_hswap) auto
  ultimately show ?thesis by (metis add_mset_remove_trivial)
qed

lemma remove_timer_absent:
  "heap_index (ts_impls s t) = npos \<Longrightarrow> length (ts_heap s) < npos \<Longrightarrow> remove_timer_impl t s = s"
  by (simp add: remove_timer_impl_def)

lemma remove_timer_present:
  assumes heap: "heap_ok fst (ts_heap s)" and ix: "index_ok s"
    and i: "i = heap_index (ts_impls s t)" "i \<noteq> npos"
  shows "mset (ts_heap (remove_timer_impl t s)) = mset (ts_heap s) - {#ts_heap s ! i#} \<and>
    heap_ok fst (ts_heap (remove_timer_impl t s)) \<and> index_ok (remove_timer_impl t s) \<and>
    reindexed s (remove_timer_impl t s)"
proof -
  let ?h = "ts_heap s" and ?n = "length (ts_heap s)"
  have len: "i < ?n" and t: "snd (?h ! i) = t" using index_ok_entry [OF ix] i by auto
  have ne: "?h \<noteq> []" using len by auto
  show ?thesis
  proof (cases "i = ?n - 1")
    case True
    then have last: "last ?h = ?h ! i" "?h \<noteq> []" using ne by (simp_all add: last_conv_nth)
    then have "mset ?h = add_mset (?h ! i) (mset (butlast ?h))"
      by (metis append_butlast_last_id mset.simps(2) mset_append add_mset_add_single mset.simps(1) add.left_neutral union_mset_add_mset_right)
    moreover have "remove_timer_impl t s = (set_index t npos s)\<lparr>ts_heap := butlast ?h\<rparr>"
      using True len i by (simp add: remove_timer_impl_def setter_defs Let_def)
    ultimately show ?thesis
      using index_ok_pop [OF ix, of t] last t heap_ok_butlast [OF heap]
        reindexed_trans [OF reindexed_set_index reindexed_heap] by simp
  next
    case False
    with len have lt: "i < ?n - 1" by simp
    define s1 where "s1 = swap_heap i (?n - 1) s"
    define s2 where "s2 = (set_index t npos s1)\<lparr>ts_heap := butlast (ts_heap s1)\<rparr>"
    have h1: "ts_heap s1 = hswap i (?n - 1) ?h" by (simp add: s1_def)
    have ix1: "index_ok s1"
      using ix len lt indexed_swap [of s i "?n - 1"] outside_swap [of s i "?n - 1"]
      by (auto simp: index_ok_def s1_def)
    have "ts_heap s1 \<noteq> []" using ne by (simp add: h1 hswap_def)
    moreover from this have "last (ts_heap s1) = ?h ! i"
      using lt len by (simp add: last_conv_nth h1 hswap_nth)
    ultimately have ix2: "index_ok s2" unfolding s2_def using ix1 t by (intro index_ok_pop) auto
    have h2: "ts_heap s2 = butlast (hswap i (?n - 1) ?h)" by (simp add: s2_def h1)
    have len2: "i < length (ts_heap s2)" using lt by (simp add: h2)
    have re: "reindexed s s2" unfolding s2_def s1_def
      by (rule reindexed_trans [OF reindexed_swap], rule reindexed_trans [OF reindexed_set_index], rule reindexed_heap)
    have m: "mset (ts_heap s2) = mset ?h - {#?h ! i#}" unfolding h2 by (rule mset_butlast_hswap [OF lt])
    have but: "heap_but fst i (ts_heap s2)" unfolding h2 by (rule heap_but_remove [OF heap lt])
    have r: "remove_timer_impl t s = (if 0 < i \<and> fst (ts_heap s2 ! i) < fst (ts_heap s2 ! parent i)
        then up_heap i s2 else down_heap i s2)"
      using i len False by (simp add: remove_timer_impl_def s1_def s2_def setter_defs Let_def)
    show ?thesis
    proof (cases "0 < i \<and> fst (ts_heap s2 ! i) < fst (ts_heap s2 ! parent i)")
      case True
      with r up_heap_spec [OF ix2 len2] heap_ok_hup [OF heap_but_cases(1) [OF but len2 True] len2] m len2
        reindexed_trans [OF re reindexed_up]
      show ?thesis by simp
    next
      case False
      with r down_heap_spec [OF ix2 len2] heap_ok_hdown [OF heap_but_cases(2) [OF but len2 False] len2] m len2
        reindexed_trans [OF re reindexed_down]
      show ?thesis by auto
    qed
  qed
qed

section \<open>The heap part of the invariant\<close>

definition heap_inv :: "timer_service \<Rightarrow> bool" where
  "heap_inv s \<longleftrightarrow> heap_ok fst (ts_heap s) \<and> index_ok s \<and> length (ts_heap s) < npos"

abbreviation in_heap :: "timer_service \<Rightarrow> timer_id \<Rightarrow> bool" where
  "in_heap s t \<equiv> heap_index (ts_impls s t) \<noteq> npos"

lemma heap_inv_member: "heap_inv s \<Longrightarrow> in_heap s t \<longleftrightarrow> t \<in> snd ` set (ts_heap s)"
  using index_ok_member [of s t] by (simp add: heap_inv_def)

lemma heap_inv_distinct: "heap_inv s \<Longrightarrow> distinct (map snd (ts_heap s))"
  by (auto simp: heap_inv_def index_ok_def distinct_conv_nth dest: indexed_inj)

lemma heap_inv_entry:
  assumes "heap_inv s" "in_heap s t"
  shows "heap_index (ts_impls s t) < length (ts_heap s)"
    "snd (ts_heap s ! heap_index (ts_impls s t)) = t"
  using assms index_ok_entry by (auto simp: heap_inv_def)

lemma set_remove_entry:
  assumes "distinct (map snd h)" "x \<in> set h" "mset h' = mset h - {#x#}"
  shows "set h' = {e \<in> set h. snd e \<noteq> snd x}"
proof -
  have "distinct h" using assms(1) by (simp add: distinct_map)
  then have "set h' = set h - {x}"
    using assms(3) by (metis mset_remove1 set_mset_mset set_remove1_eq)
  moreover have "e = x" if "e \<in> set h" "snd e = snd x" for e
    using assms(1,2) that by (metis inj_onD distinct_map)
  ultimately show ?thesis by auto
qed

lemma remove_heap_inv:
  assumes "heap_inv s"
  shows "heap_inv (remove_timer_impl t s)" "reindexed s (remove_timer_impl t s)"
    "set (ts_heap (remove_timer_impl t s)) = {e \<in> set (ts_heap s). snd e \<noteq> t}"
    "in_heap (remove_timer_impl t s) u \<longleftrightarrow> in_heap s u \<and> u \<noteq> t"
proof -
  let ?s' = "remove_timer_impl t s"
  have "heap_inv ?s' \<and> reindexed s ?s' \<and> set (ts_heap ?s') = {e \<in> set (ts_heap s). snd e \<noteq> t}"
  proof (cases "in_heap s t")
    case False
    then have "?s' = s" using remove_timer_absent [of s t] assms by (simp add: heap_inv_def)
    moreover have "\<forall>e \<in> set (ts_heap s). snd e \<noteq> t" using False heap_inv_member [OF assms] by auto
    ultimately show ?thesis using assms by auto
  next
    case True
    let ?i = "heap_index (ts_impls s t)"
    have m: "mset (ts_heap ?s') = mset (ts_heap s) - {#ts_heap s ! ?i#}"
      and ok: "heap_ok fst (ts_heap ?s')" "index_ok ?s'" "reindexed s ?s'"
      using remove_timer_present [of s ?i t] assms True by (auto simp: heap_inv_def)
    note e = heap_inv_entry [OF assms True]
    have "set (ts_heap ?s') = {e \<in> set (ts_heap s). snd e \<noteq> t}"
      using set_remove_entry [OF heap_inv_distinct [OF assms] nth_mem [OF e(1)] m] e(2) by simp
    moreover have "size (mset (ts_heap ?s')) \<le> size (mset (ts_heap s))"
      unfolding m by (rule size_mset_mono) simp
    then have "length (ts_heap ?s') \<le> length (ts_heap s)" unfolding size_mset .
    ultimately show ?thesis using ok assms by (auto simp: heap_inv_def)
  qed
  then show inv: "heap_inv ?s'" and "reindexed s ?s'"
    and set: "set (ts_heap ?s') = {e \<in> set (ts_heap s). snd e \<noteq> t}" by blast+
  show "in_heap ?s' u \<longleftrightarrow> in_heap s u \<and> u \<noteq> t"
    unfolding heap_inv_member [OF assms] heap_inv_member [OF inv] set by auto
qed

text \<open>Heap part of the invariant under changes that do not touch it.\<close>

lemma heap_inv_cong:
  "ts_heap s' = ts_heap s \<Longrightarrow> (\<And>t. heap_index (ts_impls s' t) = heap_index (ts_impls s t)) \<Longrightarrow>
     heap_inv s' = heap_inv s"
  by (simp add: heap_inv_def index_ok_def indexed_def outside_npos_def)

text \<open>Inserting a timer, and changing the time of one.\<close>

lemma push_heap_inv:
  assumes "heap_inv s" "\<not> in_heap s t" "length (ts_heap s) + 1 < npos"
  shows "heap_inv (push_timer t s)" "reindexed s (push_timer t s)"
    "set (ts_heap (push_timer t s)) = insert (expiry (ts_impls s t), t) (set (ts_heap s))"
    "in_heap (push_timer t s) u \<longleftrightarrow> in_heap s u \<or> u = t"
proof -
  define a where "a = set_index t (length (ts_heap s)) s"
  define b where "b = a\<lparr>ts_heap := ts_heap s @ [(expiry (ts_impls s t), t)]\<rparr>"
  let ?n = "length (ts_heap s)" and ?s' = "push_timer t s"
  have s': "?s' = up_heap ?n b" by (simp add: push_timer_def a_def b_def setter_defs)
  have notin: "t \<notin> snd ` set (ts_heap s)" using assms heap_inv_member by blast
  have "snd (ts_heap s ! i) \<noteq> t" if "i < ?n" for i using notin that by (metis imageI nth_mem)
  then have ix: "index_ok b"
    using assms(1)
    by (auto simp: heap_inv_def index_ok_def indexed_def outside_npos_def b_def a_def setter_defs nth_append)
  have hb: "ts_heap b = ts_heap s @ [(expiry (ts_impls s t), t)]" by (simp add: b_def)
  have n: "?n < length (ts_heap b)" by (simp add: hb)
  note up = up_heap_spec [OF ix n]
  have "heap_up fst ?n (ts_heap b)"
    unfolding hb using assms(1) by (intro heap_ok_append) (simp add: heap_inv_def)
  then have "heap_ok fst (ts_heap ?s')" using heap_ok_hup n up s' by metis
  moreover have m: "mset (ts_heap ?s') = mset (ts_heap b)" using up n s' by simp
  then have "length (ts_heap ?s') = ?n + 1" using mset_eq_length hb by fastforce
  ultimately show inv: "heap_inv ?s'" using up s' assms(3) by (simp add: heap_inv_def)
  show "reindexed s ?s'"
    unfolding s' b_def a_def
    by (rule reindexed_trans [OF reindexed_set_index], rule reindexed_trans [OF reindexed_heap], rule reindexed_up)
  show set: "set (ts_heap ?s') = insert (expiry (ts_impls s t), t) (set (ts_heap s))"
    using m hb by (metis mset_eq_setD list.simps(15) rotate1.simps(2) set_rotate1)
  show "in_heap ?s' u \<longleftrightarrow> in_heap s u \<or> u = t"
    using heap_inv_member [OF inv, of u] heap_inv_member [OF assms(1), of u] set by auto
qed

lemma retime_heap_inv:
  assumes "heap_inv s" "in_heap s t"
  shows "heap_inv (retime t x s)" "reindexed s (retime t x s)"
    "set (ts_heap (retime t x s)) = insert (x, t) {e \<in> set (ts_heap s). snd e \<noteq> t}"
    "in_heap (retime t x s) u \<longleftrightarrow> in_heap s u"
proof -
  let ?i = "heap_index (ts_impls s t)" and ?h = "ts_heap s" and ?s' = "retime t x s"
  define b where "b = s\<lparr>ts_heap := ?h[?i := (x, t)]\<rparr>"
  note e = heap_inv_entry [OF assms]
  have s': "?s' = (if x < fst (?h ! ?i) then up_heap ?i b else down_heap ?i b)"
    using e by (simp add: retime_def b_def Let_def)
  have i: "?i < length (ts_heap b)" using e by (simp add: b_def)
  have dist: "distinct (map snd ?h)" using assms(1) by (rule heap_inv_distinct)
  have snds: "snd (?h[?i := (x, t)] ! k) = snd (?h ! k)" if "k < length ?h" for k
    using e that by (auto simp: nth_list_update)
  have "map snd (?h[?i := (x, t)]) = map snd ?h" using e by (simp add: map_update list_update_same_conv)
  then have imgs: "snd ` set (?h[?i := (x, t)]) = snd ` set ?h" by (metis list.set_map)
  have ix: "index_ok b"
    using assms(1) snds imgs by (simp add: heap_inv_def index_ok_def indexed_def outside_npos_def b_def)
  note up = up_heap_spec [OF ix i] and down = down_heap_spec [OF ix i]
  have ok: "heap_ok fst (ts_heap ?s') \<and> index_ok ?s' \<and> mset (ts_heap ?s') = mset (ts_heap b)"
  proof (cases "x < fst (?h ! ?i)")
    case True
    then have "heap_up fst ?i (ts_heap b)"
      unfolding b_def using assms(1) e heap_update_up [of fst ?h ?i "(x, t)"] by (simp add: heap_inv_def)
    with up True s' i show ?thesis by (simp add: heap_ok_hup)
  next
    case False
    then have "heap_down fst ?i (ts_heap b)"
      unfolding b_def using assms(1) e heap_update_down [of fst ?h ?i "(x, t)"] by (simp add: heap_inv_def)
    with down False s' i show ?thesis by (simp add: heap_ok_hdown)
  qed
  then have "length (ts_heap ?s') = length (ts_heap b)" using mset_eq_length by blast
  with ok assms(1) show inv: "heap_inv ?s'" by (simp add: heap_inv_def b_def)
  show "reindexed s ?s'"
    unfolding s' b_def using reindexed_trans [OF reindexed_heap reindexed_up]
      reindexed_trans [OF reindexed_heap reindexed_down] by simp
  have "set (?h[?i := (x, t)]) = insert (x, t) {e \<in> set ?h. snd e \<noteq> t}"
  proof -
    have "set (?h[?i := (x, t)]) = insert (x, t) (set ?h - {?h ! ?i})"
      using e dist by (intro set_update_distinct) (simp_all add: distinct_map)
    moreover have "y = ?h ! ?i" if "y \<in> set ?h" "snd y = t" for y
      using dist that e by (metis distinct_map inj_onD nth_mem)
    then have "set ?h - {?h ! ?i} = {e \<in> set ?h. snd e \<noteq> t}" using e(2) by blast
    ultimately show ?thesis by simp
  qed
  moreover have "set (ts_heap ?s') = set (ts_heap b)" using ok mset_eq_setD by blast
  ultimately show set: "set (ts_heap ?s') = insert (x, t) {e \<in> set ?h. snd e \<noteq> t}"
    by (simp add: b_def)
  have "t \<in> snd ` set ?h" using assms heap_inv_member by blast
  moreover have "snd ` {e \<in> set ?h. snd e \<noteq> t} = snd ` set ?h - {t}" by auto
  ultimately show "in_heap ?s' u \<longleftrightarrow> in_heap s u"
    unfolding heap_inv_member [OF inv] heap_inv_member [OF assms(1)] set image_insert by auto
qed

section \<open>The invariant\<close>

definition waiters_ok :: "timer_service \<Rightarrow> bool" where
  "waiters_ok s \<longleftrightarrow>
     (\<forall>t. distinct (waiters (ts_impls s t))) \<and>
     (\<forall>w t. w_impl (ts_nodes s w) = Some t \<longleftrightarrow> w \<in> set (waiters (ts_impls s t))) \<and>
     distinct (ts_posted s) \<and> (\<forall>w \<in> set (ts_posted s). w_impl (ts_nodes s w) = None)"

definition core_inv :: "timer_service \<Rightarrow> bool" where
  "core_inv s \<longleftrightarrow> heap_inv s \<and> waiters_ok s \<and>
     (\<forall>t. in_heap s t \<longleftrightarrow> might_have_pending_waits (ts_impls s t)) \<and>
     (\<forall>t. waiters (ts_impls s t) \<noteq> [] \<longrightarrow> in_heap s t) \<and>
     (\<forall>e \<in> set (ts_heap s). fst e = expiry (ts_impls s (snd e)))"

definition heap_nearest :: "timer_service \<Rightarrow> int" where
  "heap_nearest s = (if ts_heap s = [] then time_max else fst (ts_heap s ! 0))"

definition timer_inv :: "timer_service \<Rightarrow> bool" where
  "timer_inv s \<longleftrightarrow> core_inv s \<and> ts_cached_nearest s = heap_nearest s"

lemma drain_loop_eq: "distinct ws \<Longrightarrow> drain_loop f ws acc s =
    (acc @ ws, s\<lparr>ts_nodes := \<lambda>w. if w \<in> set ws then f (ts_nodes s w) else ts_nodes s w\<rparr>)"
proof (induction ws arbitrary: acc s)
  case (Cons w ws)
  then show ?case by (auto simp: upd_node_def fun_eq_iff intro!: timer_service.equality)
qed (simp add: fun_eq_iff)

lemma complete_canceled_eq: "complete_canceled ws s =
    s\<lparr>ts_nodes := \<lambda>w. if w \<in> set ws then (ts_nodes s w)\<lparr>w_ec := Some canceled\<rparr> else ts_nodes s w,
      ts_posted := ts_posted s @ ws\<rparr>"
  by (induction ws arbitrary: s) (auto simp: setter_defs fun_eq_iff intro!: timer_service.equality)

lemma complete_expired_eq: "complete_expired ws s = s\<lparr>ts_posted := ts_posted s @ ws\<rparr>"
  by (induction ws arbitrary: s) (simp_all add: setter_defs)

lemma waiters_okD:
  assumes "waiters_ok s"
  shows "distinct (waiters (ts_impls s t))"
    "w_impl (ts_nodes s w) = Some t \<longleftrightarrow> w \<in> set (waiters (ts_impls s t))"
    "distinct (ts_posted s)" "w \<in> set (ts_posted s) \<Longrightarrow> w_impl (ts_nodes s w) = None"
  using assms by (auto simp: waiters_ok_def)

end
