(* ===== verification/Timer_Properties.thy ===== *)
theory Timer_Properties
  imports Timer_Invariant
begin

text \<open>
  What the operations of the timer service do to its heap, its waiters and the operations posted to
  the scheduler, and that they keep the invariant of the service.
\<close>

section \<open>Detaching and posting waiters\<close>

lemma heap_inv_setters [simp]:
  "heap_inv (refresh_cached_nearest s) = heap_inv s" "heap_inv (set_flag t b s) = heap_inv s"
  "heap_inv (set_waiters t ws s) = heap_inv s" "heap_inv (upd_node w f s) = heap_inv s"
  "heap_inv (sched_post w s) = heap_inv s" "heap_inv (notify_earliest s) = heap_inv s"
  by (rule heap_inv_cong; simp add: setter_defs)+

text \<open>The part of the state that only creation, destruction and shutdown change.\<close>

definition pool_view :: "timer_service \<Rightarrow>
    timer_id list \<times> timer_id option \<times> timer_id \<times> nat \<times> timer_id list \<times> bool \<times> (timer_id \<Rightarrow> nat)" where
  "pool_view s = (ts_free_list s, ts_tl_cache s, ts_fresh s, ts_self s, ts_deleted s, ts_shutting_down s,
     \<lambda>t. impl_svc (ts_impls s t))"

lemma pool_view_upd_impl: "(\<And>i. impl_svc (f i) = impl_svc i) \<Longrightarrow> pool_view (upd_impl t f s) = pool_view s"
  by (auto simp: pool_view_def upd_impl_def)

lemma pool_view_setters [simp]:
  "pool_view (refresh_cached_nearest s) = pool_view s" "pool_view (set_flag t b s) = pool_view s"
  "pool_view (set_waiters t ws s) = pool_view s" "pool_view (set_index t i s) = pool_view s"
  "pool_view (upd_node w f s) = pool_view s" "pool_view (sched_post w s) = pool_view s"
  "pool_view (notify_earliest s) = pool_view s" "pool_view (resume_post w s) = pool_view s"
  "pool_view (work_started s) = pool_view s" "pool_view (work_finished s) = pool_view s"
  "pool_view (upd_impl t (expiry_update g) s) = pool_view s"
  by (auto simp: pool_view_def setter_defs resume_post_def work_started_def work_finished_def)

lemma pool_view_record [simp]:
  "pool_view (s\<lparr>ts_heap := h\<rparr>) = pool_view s" "pool_view (s\<lparr>ts_nodes := n\<rparr>) = pool_view s"
  by (simp_all add: pool_view_def)

lemma pool_view_swap [simp]: "pool_view (swap_heap i j s) = pool_view s"
  by (simp add: swap_heap_def Let_def)

lemma pool_view_up [simp]: "pool_view (up_heap i s) = pool_view s"
  by (induction i s rule: up_heap.induct) (subst up_heap.simps, simp)

lemma pool_view_down [simp]: "pool_view (down_heap i s) = pool_view s"
  by (induction i s rule: down_heap.induct) (subst down_heap.simps, simp add: Let_def)

lemma pool_view_heap_ops [simp]:
  "pool_view (remove_timer_impl t s) = pool_view s" "pool_view (push_timer t s) = pool_view s"
  "pool_view (retime t x s) = pool_view s"
  by (simp_all add: remove_timer_impl_def push_timer_def retime_def Let_def)

lemma pool_view_drain_loop: "pool_view (snd (drain_loop f ws acc s)) = pool_view s"
  by (induction f ws acc s rule: drain_loop.induct) simp_all

lemma pool_view_drain [simp]: "pool_view (snd (drain_waiters f t acc s)) = pool_view s"
  by (simp add: drain_waiters_def pool_view_drain_loop)

lemma pool_view_complete [simp]: "pool_view (complete_canceled ws s) = pool_view s"
    "pool_view (complete_expired ws s) = pool_view s"
  by (induction ws arbitrary: s) simp_all

lemma pool_view_undo [simp]: "pool_view (undo_insert t w s) = pool_view s"
  by (simp add: undo_insert_def Let_def)

lemma pool_view_ops [simp]:
  "pool_view (snd (cancel_timer t s)) = pool_view s" "pool_view (cancel_waiter w s) = pool_view s"
  "pool_view (snd (cancel_one_waiter t s)) = pool_view s" "pool_view (snd (update_timer t x s)) = pool_view s"
  "pool_view (insert_waiter t w s) = pool_view s"
  using pool_view_drain [of mark_removed t "[]" "remove_timer_impl t s"] pool_view_drain [of mark_removed t "[]" s]
  by (auto simp: cancel_timer_def cancel_waiter_def cancel_one_waiter_def update_timer_def insert_waiter_def
      publish_waiter_def Let_def simp del: pool_view_drain split: prod.splits option.splits list.splits if_splits)

definition detached_nodes :: "(waiter_node \<Rightarrow> waiter_node) \<Rightarrow> waiter_id list \<Rightarrow> timer_service \<Rightarrow> waiter_id \<Rightarrow>
    waiter_node" where
  "detached_nodes f ws s = (\<lambda>w. if w \<in> set ws then f (ts_nodes s w) else ts_nodes s w)"

lemma drain_waiters_eq:
  assumes "distinct (waiters (ts_impls s t))"
  shows "drain_waiters f t acc s = (acc @ waiters (ts_impls s t),
    (set_waiters t [] s)\<lparr>ts_nodes := detached_nodes f (waiters (ts_impls s t)) s\<rparr>)"
  using assms by (simp add: drain_waiters_def drain_loop_eq detached_nodes_def setter_defs cong: if_cong)

lemma waiters_disjoint:
  "waiters_ok s \<Longrightarrow> w \<in> set (waiters (ts_impls s t)) \<Longrightarrow> w \<in> set (waiters (ts_impls s u)) \<Longrightarrow> t = u"
  using waiters_okD(2) [of s w t] waiters_okD(2) [of s w u] by simp

lemma waiters_ok_detach:
  assumes "waiters_ok s" "\<And>n. w_impl (f n) = None"
    and "ts_nodes s' = detached_nodes f ws s" "ts_posted s' = ts_posted s"
    and "\<And>u. waiters (ts_impls s' u) = filter (\<lambda>w. w \<notin> set ws) (waiters (ts_impls s u))"
  shows "waiters_ok s'"
  using assms by (auto simp: waiters_ok_def detached_nodes_def)

lemma waiters_ok_post:
  assumes "waiters_ok s" "distinct ws" "set ws \<inter> set (ts_posted s) = {}"
    and "\<And>w. w \<in> set ws \<Longrightarrow> w_impl (ts_nodes s w) = None"
    and "ts_posted s' = ts_posted s @ ws" "\<And>w. w_impl (ts_nodes s' w) = w_impl (ts_nodes s w)"
    and "\<And>u. waiters (ts_impls s' u) = waiters (ts_impls s u)"
  shows "waiters_ok s'"
  using assms by (auto simp: waiters_ok_def)

lemma pending_not_posted:
  "waiters_ok s \<Longrightarrow> w \<in> set (waiters (ts_impls s t)) \<Longrightarrow> w \<notin> set (ts_posted s)"
  using waiters_okD(2,4) [of s w] by auto

lemma filter_other_waiters:
  assumes "waiters_ok s"
  shows "filter (\<lambda>w. w \<notin> set (waiters (ts_impls s t))) (waiters (ts_impls s u)) =
    (if u = t then [] else waiters (ts_impls s u))"
  using waiters_disjoint [OF assms] by (auto simp: filter_id_conv filter_empty_conv)

lemma heap_nearest_cong: "ts_heap s' = ts_heap s \<Longrightarrow> heap_nearest s' = heap_nearest s"
  by (simp add: heap_nearest_def)

lemma timer_inv_refresh: "ts_cached_nearest s = heap_nearest s' \<Longrightarrow> ts_heap s = ts_heap s' \<Longrightarrow> core_inv s \<Longrightarrow> timer_inv s"
  by (simp add: timer_inv_def heap_nearest_def)

text \<open>The part of the invariant that does not mention the nodes depends only on these observations.\<close>

lemma core_inv_frame:
  assumes "heap_inv s'" "waiters_ok s'"
    and "\<And>u. in_heap s' u \<longleftrightarrow> might_have_pending_waits (ts_impls s' u)"
    and "\<And>u. waiters (ts_impls s' u) \<noteq> [] \<Longrightarrow> in_heap s' u"
    and "\<And>e. e \<in> set (ts_heap s') \<Longrightarrow> fst e = expiry (ts_impls s' (snd e))"
  shows "core_inv s'"
  using assms by (simp add: core_inv_def)

lemma core_invD:
  assumes "core_inv s"
  shows "heap_inv s" "waiters_ok s" "in_heap s t \<longleftrightarrow> might_have_pending_waits (ts_impls s t)"
    "waiters (ts_impls s t) \<noteq> [] \<Longrightarrow> in_heap s t"
    "e \<in> set (ts_heap s) \<Longrightarrow> fst e = expiry (ts_impls s (snd e))"
  using assms by (simp_all add: core_inv_def)

section \<open>Taking a timer out of the heap\<close>

text \<open>
  The common part of \<open>cancel_timer\<close> and of one round of \<open>process_expired\<close>: the timer leaves the heap, its
  waiters are detached and its flag is cleared.
\<close>

definition detach_timer :: "(waiter_node \<Rightarrow> waiter_node) \<Rightarrow> timer_id \<Rightarrow> timer_service \<Rightarrow> timer_service" where
  "detach_timer f t s = set_flag t False (snd (drain_waiters f t [] (remove_timer_impl t s)))"

lemma detach_timer_fields:
  assumes "core_inv s" and s'_def: "s' = detach_timer f t s"
  shows "waiters (ts_impls s' u) = (if u = t then [] else waiters (ts_impls s u))"
    "might_have_pending_waits (ts_impls s' u) \<longleftrightarrow> might_have_pending_waits (ts_impls s u) \<and> u \<noteq> t"
    "expiry (ts_impls s' u) = expiry (ts_impls s u)"
    "ts_nodes s' = detached_nodes f (waiters (ts_impls s t)) s"
    "ts_posted s' = ts_posted s" "ts_resumed s' = ts_resumed s" "ts_work s' = ts_work s"
    "ts_notified s' = ts_notified s" "ts_cached_nearest s' = ts_cached_nearest s"
    "set (ts_heap s') = {e \<in> set (ts_heap s). snd e \<noteq> t}"
    "in_heap s' u \<longleftrightarrow> in_heap s u \<and> u \<noteq> t" "heap_inv s'"
    "ts_shutting_down s' = ts_shutting_down s" "ts_free_list s' = ts_free_list s"
    "ts_tl_cache s' = ts_tl_cache s"
proof -
  let ?r = "remove_timer_impl t s"
  note r = remove_heap_inv [OF core_invD(1) [OF assms(1)], of t]
  note rs = reindexed_simps [OF r(2)]
  have d: "distinct (waiters (ts_impls ?r t))"
    using waiters_okD(1) [OF core_invD(2) [OF assms(1)]] by (simp add: rs)
  have s': "s' = set_flag t False
      ((set_waiters t [] ?r)\<lparr>ts_nodes := detached_nodes f (waiters (ts_impls s t)) ?r\<rparr>)"
    by (simp add: s'_def detach_timer_def drain_waiters_eq [OF d] rs)
  show "heap_inv s'"
    using r(1) heap_inv_cong [of s' ?r] by (simp add: s' setter_defs)
  show "waiters (ts_impls s' u) = (if u = t then [] else waiters (ts_impls s u))"
    "might_have_pending_waits (ts_impls s' u) \<longleftrightarrow> might_have_pending_waits (ts_impls s u) \<and> u \<noteq> t"
    "expiry (ts_impls s' u) = expiry (ts_impls s u)"
    "ts_nodes s' = detached_nodes f (waiters (ts_impls s t)) s"
    "ts_posted s' = ts_posted s" "ts_resumed s' = ts_resumed s" "ts_work s' = ts_work s"
    "ts_notified s' = ts_notified s" "ts_cached_nearest s' = ts_cached_nearest s"
    "set (ts_heap s') = {e \<in> set (ts_heap s). snd e \<noteq> t}"
    "ts_shutting_down s' = ts_shutting_down s" "ts_free_list s' = ts_free_list s"
    "ts_tl_cache s' = ts_tl_cache s"
    by (simp_all add: s' setter_defs rs r(3) detached_nodes_def fun_eq_iff)
  show "in_heap s' u \<longleftrightarrow> in_heap s u \<and> u \<noteq> t"
    using r(4) [of u] by (auto simp: s' setter_defs)
qed

lemma core_inv_detach_timer:
  assumes "core_inv s" "\<And>n. w_impl (f n) = None"
  shows "core_inv (detach_timer f t s)"
proof (rule core_inv_frame)
  note d = detach_timer_fields [OF assms(1) refl, where f = f and t = t] and c = core_invD [OF assms(1)]
  show "waiters_ok (detach_timer f t s)"
    using waiters_ok_detach [OF c(2) assms(2) d(4,5)] d(1) by (simp add: filter_other_waiters [OF c(2)])
  show "in_heap (detach_timer f t s) u \<longleftrightarrow> might_have_pending_waits (ts_impls (detach_timer f t s) u)" for u
    using d(2,11) c(3) by simp
  show "waiters (ts_impls (detach_timer f t s) u) \<noteq> [] \<Longrightarrow> in_heap (detach_timer f t s) u" for u
    using d(1,11) c(4) by (simp split: if_splits)
  show "fst e = expiry (ts_impls (detach_timer f t s) (snd e))" if "e \<in> set (ts_heap (detach_timer f t s))" for e
    using that d(3,10) c(5) by simp
qed (rule detach_timer_fields(12) [OF assms(1) refl])

section \<open>Cancelling a timer\<close>

abbreviation mark_canceled :: "waiter_node \<Rightarrow> waiter_node" where
  "mark_canceled n \<equiv> n\<lparr>w_impl := None, w_ec := Some canceled\<rparr>"

lemma detached_canceled: "(\<lambda>w. if w \<in> set ws then (detached_nodes mark_removed ws s w)\<lparr>w_ec := Some canceled\<rparr>
    else detached_nodes mark_removed ws s w) = detached_nodes mark_canceled ws s"
  by (auto simp: detached_nodes_def fun_eq_iff)

lemma cancel_timer_pending:
  assumes "core_inv s" "might_have_pending_waits (ts_impls s t)"
  defines "ws \<equiv> waiters (ts_impls s t)"
  shows "cancel_timer t s = (length ws,
    (refresh_cached_nearest (detach_timer mark_removed t s))
      \<lparr>ts_nodes := detached_nodes mark_canceled ws s, ts_posted := ts_posted s @ ws\<rparr>)"
proof -
  let ?r = "remove_timer_impl t s"
  have "distinct (waiters (ts_impls ?r t))" "waiters (ts_impls ?r t) = ws"
    using waiters_okD(1) [OF core_invD(2) [OF assms(1)]]
    by (simp_all add: reindexed_simps [OF remove_heap_inv(2) [OF core_invD(1) [OF assms(1)]]] ws_def)
  then obtain s2 where "drain_waiters mark_removed t [] ?r = (ws, s2)"
    by (simp add: drain_waiters_eq)
  then have "cancel_timer t s = (length ws, complete_canceled ws (refresh_cached_nearest (detach_timer mark_removed t s)))"
    using assms(2) by (simp add: cancel_timer_def detach_timer_def Let_def)
  moreover have "ts_nodes (detach_timer mark_removed t s) = detached_nodes mark_removed ws s"
    "ts_posted (detach_timer mark_removed t s) = ts_posted s"
    using detach_timer_fields(4,5) [OF assms(1) refl] by (simp_all add: ws_def)
  ultimately show ?thesis
    by (simp add: complete_canceled_eq refresh_cached_nearest_def detached_canceled cong: if_cong)
qed

lemma idle_timer:
  assumes "core_inv s" "\<not> might_have_pending_waits (ts_impls s t)"
  shows "waiters (ts_impls s t) = []" "\<not> in_heap s t" "e \<in> set (ts_heap s) \<Longrightarrow> snd e \<noteq> t"
  using assms core_invD(3,4) [OF assms(1), of t] heap_inv_member [OF core_invD(1) [OF assms(1)], of t]
  by (blast, blast, force)

lemma cancel_timer_fields:
  assumes "timer_inv s" and s'_def: "s' = snd (cancel_timer t s)"
  shows "fst (cancel_timer t s) = length (waiters (ts_impls s t))"
    "waiters (ts_impls s' u) = (if u = t then [] else waiters (ts_impls s u))"
    "might_have_pending_waits (ts_impls s' u) \<longleftrightarrow> might_have_pending_waits (ts_impls s u) \<and> u \<noteq> t"
    "expiry (ts_impls s' u) = expiry (ts_impls s u)"
    "ts_nodes s' = detached_nodes mark_canceled (waiters (ts_impls s t)) s"
    "ts_posted s' = ts_posted s @ waiters (ts_impls s t)" "ts_resumed s' = ts_resumed s"
    "ts_work s' = ts_work s" "ts_notified s' = ts_notified s" "ts_cached_nearest s' = heap_nearest s'"
    "set (ts_heap s') = {e \<in> set (ts_heap s). snd e \<noteq> t}"
    "in_heap s' u \<longleftrightarrow> in_heap s u \<and> u \<noteq> t" "heap_inv s'"
    "ts_shutting_down s' = ts_shutting_down s" "ts_free_list s' = ts_free_list s"
    "ts_tl_cache s' = ts_tl_cache s"
proof -
  have c: "core_inv s" and n: "ts_cached_nearest s = heap_nearest s" using assms(1) by (simp_all add: timer_inv_def)
  note d = detach_timer_fields [OF c refl, where f = mark_removed and t = t] and i = idle_timer [OF c, of t]
  have pend: "might_have_pending_waits (ts_impls s t) \<Longrightarrow>
      s' = (refresh_cached_nearest (detach_timer mark_removed t s))
        \<lparr>ts_nodes := detached_nodes mark_canceled (waiters (ts_impls s t)) s,
          ts_posted := ts_posted s @ waiters (ts_impls s t)\<rparr>"
    by (simp add: s'_def cancel_timer_pending [OF c])
  have idle: "\<not> might_have_pending_waits (ts_impls s t) \<Longrightarrow> s' = s"
    by (simp add: s'_def cancel_timer_def)
  show "fst (cancel_timer t s) = length (waiters (ts_impls s t))"
    using cancel_timer_pending [OF c] i
    by (cases "might_have_pending_waits (ts_impls s t)") (simp_all add: cancel_timer_def)
  show "heap_inv s'"
    using pend idle d(12) core_invD(1) [OF c] heap_inv_cong [of s' "detach_timer mark_removed t s"]
    by (cases "might_have_pending_waits (ts_impls s t)") (simp_all add: refresh_cached_nearest_def)
  show "set (ts_heap s') = {e \<in> set (ts_heap s). snd e \<noteq> t}"
  proof (cases "might_have_pending_waits (ts_impls s t)")
    case False
    with idle i(3) show ?thesis by auto
  qed (simp add: pend d refresh_cached_nearest_def)
  show "waiters (ts_impls s' u) = (if u = t then [] else waiters (ts_impls s u))"
    "might_have_pending_waits (ts_impls s' u) \<longleftrightarrow> might_have_pending_waits (ts_impls s u) \<and> u \<noteq> t"
    "expiry (ts_impls s' u) = expiry (ts_impls s u)"
    "ts_nodes s' = detached_nodes mark_canceled (waiters (ts_impls s t)) s"
    "ts_posted s' = ts_posted s @ waiters (ts_impls s t)" "ts_resumed s' = ts_resumed s"
    "ts_work s' = ts_work s" "ts_notified s' = ts_notified s" "ts_cached_nearest s' = heap_nearest s'"
    "in_heap s' u \<longleftrightarrow> in_heap s u \<and> u \<noteq> t"
    "ts_shutting_down s' = ts_shutting_down s" "ts_free_list s' = ts_free_list s"
    "ts_tl_cache s' = ts_tl_cache s"
    using i(1,2) by (cases "might_have_pending_waits (ts_impls s t)";
        auto simp: pend idle d n refresh_cached_nearest_def heap_nearest_def detached_nodes_def)+
qed

lemma timer_inv_core: "timer_inv s \<Longrightarrow> core_inv s"
  by (simp add: timer_inv_def)

lemma timer_inv_posted:
  assumes "core_inv s" "distinct ws" "\<And>w. w \<in> set ws \<Longrightarrow> w_impl (ts_nodes s w) \<noteq> None"
    and "heap_inv s'" "\<And>n. w_impl (f n) = None" "ts_nodes s' = detached_nodes f ws s"
    and "ts_posted s' = ts_posted s @ ws"
    and "\<And>u. waiters (ts_impls s' u) = filter (\<lambda>w. w \<notin> set ws) (waiters (ts_impls s u))"
    and "\<And>u. in_heap s' u \<longleftrightarrow> might_have_pending_waits (ts_impls s' u)"
    and "\<And>u. waiters (ts_impls s' u) \<noteq> [] \<Longrightarrow> in_heap s' u"
    and "\<And>e. e \<in> set (ts_heap s') \<Longrightarrow> fst e = expiry (ts_impls s' (snd e))"
    and "ts_cached_nearest s' = heap_nearest s'"
  shows "timer_inv s'"
proof -
  have "set (ts_posted s) \<inter> set ws = {}"
    using assms(3) waiters_okD(4) [OF core_invD(2) [OF assms(1)]] by blast
  then have "waiters_ok s'"
    using core_invD(2) [OF assms(1)] assms(2,3,5-8) by (auto simp: waiters_ok_def detached_nodes_def)
  with assms show ?thesis by (simp add: timer_inv_def core_inv_def)
qed

lemma waiters_pending: "core_inv s \<Longrightarrow> w \<in> set (waiters (ts_impls s t)) \<Longrightarrow> w_impl (ts_nodes s w) \<noteq> None"
  using waiters_okD(2) [OF core_invD(2), of s w t] by simp

lemma timer_inv_cancel_timer:
  assumes "timer_inv s"
  shows "timer_inv (snd (cancel_timer t s))"
proof -
  note c = timer_inv_core [OF assms] and f = cancel_timer_fields [OF assms refl, where t = t]
  show ?thesis
  proof (rule timer_inv_posted [OF c _ _ f(13) _ f(5,6) _ _ _ _ f(10)])
    show "distinct (waiters (ts_impls s t))" using waiters_okD(1) [OF core_invD(2) [OF c]] .
  qed (auto simp: f(2,3,4,11,12) filter_other_waiters [OF core_invD(2) [OF c]] core_invD(3,5) [OF c]
        dest: waiters_pending [OF c] core_invD(4) [OF c] split: if_splits)
qed

section \<open>Cancelling one waiter\<close>

definition last_waiter :: "timer_id \<Rightarrow> waiter_id \<Rightarrow> timer_service \<Rightarrow> bool" where
  "last_waiter t w s \<longleftrightarrow> remove1 w (waiters (ts_impls s t)) = []"

lemma undo_insert_fields:
  assumes "core_inv s" and s'_def: "s' = undo_insert t w s"
  shows "waiters (ts_impls s' u) = (if u = t then remove1 w (waiters (ts_impls s u)) else waiters (ts_impls s u))"
    "might_have_pending_waits (ts_impls s' u) \<longleftrightarrow>
       might_have_pending_waits (ts_impls s u) \<and> \<not> (u = t \<and> last_waiter t w s)"
    "expiry (ts_impls s' u) = expiry (ts_impls s u)"
    "ts_nodes s' = detached_nodes mark_removed [w] s"
    "ts_posted s' = ts_posted s" "ts_resumed s' = ts_resumed s" "ts_work s' = ts_work s"
    "ts_notified s' = ts_notified s" "ts_cached_nearest s' = heap_nearest s'"
    "set (ts_heap s') = {e \<in> set (ts_heap s). \<not> (snd e = t \<and> last_waiter t w s)}"
    "in_heap s' u \<longleftrightarrow> in_heap s u \<and> \<not> (u = t \<and> last_waiter t w s)" "heap_inv s'"
    "ts_shutting_down s' = ts_shutting_down s" "ts_free_list s' = ts_free_list s"
    "ts_tl_cache s' = ts_tl_cache s"
proof -
  define s2 where "s2 = set_waiters t (remove1 w (waiters (ts_impls s t))) (upd_node w (w_impl_update (\<lambda>_. None)) s)"
  have h: "heap_inv s2" using core_invD(1) [OF assms(1)] heap_inv_cong [of s2 s] by (simp add: s2_def setter_defs)
  note r = remove_heap_inv [OF h, of t]
  note rs = reindexed_simps [OF r(2)]
  have s': "s' = refresh_cached_nearest (if last_waiter t w s then set_flag t False (remove_timer_impl t s2) else s2)"
    by (simp add: s'_def undo_insert_def s2_def last_waiter_def setter_defs Let_def)
  have f2: "ts_impls s2 = (ts_impls s)(t := (ts_impls s t)\<lparr>waiters := remove1 w (waiters (ts_impls s t))\<rparr>)"
    "ts_nodes s2 = (ts_nodes s)(w := (ts_nodes s w)\<lparr>w_impl := None\<rparr>)" "ts_heap s2 = ts_heap s"
    "ts_posted s2 = ts_posted s" "ts_resumed s2 = ts_resumed s" "ts_work s2 = ts_work s"
    "ts_notified s2 = ts_notified s" "ts_shutting_down s2 = ts_shutting_down s"
    "ts_free_list s2 = ts_free_list s" "ts_tl_cache s2 = ts_tl_cache s"
    by (simp_all add: s2_def setter_defs)
  show "heap_inv s'" using r(1) h by (simp add: s')
  show "in_heap s' u \<longleftrightarrow> in_heap s u \<and> \<not> (u = t \<and> last_waiter t w s)"
    using r(4) [of u] by (auto simp: s' setter_defs f2)
  show "waiters (ts_impls s' u) = (if u = t then remove1 w (waiters (ts_impls s u)) else waiters (ts_impls s u))"
    "might_have_pending_waits (ts_impls s' u) \<longleftrightarrow>
       might_have_pending_waits (ts_impls s u) \<and> \<not> (u = t \<and> last_waiter t w s)"
    "expiry (ts_impls s' u) = expiry (ts_impls s u)"
    "ts_nodes s' = detached_nodes mark_removed [w] s"
    "ts_posted s' = ts_posted s" "ts_resumed s' = ts_resumed s" "ts_work s' = ts_work s"
    "ts_notified s' = ts_notified s" "ts_cached_nearest s' = heap_nearest s'"
    "set (ts_heap s') = {e \<in> set (ts_heap s). \<not> (snd e = t \<and> last_waiter t w s)}"
    "ts_shutting_down s' = ts_shutting_down s" "ts_free_list s' = ts_free_list s"
    "ts_tl_cache s' = ts_tl_cache s"
    by (auto simp: s' setter_defs rs r(3) f2 detached_nodes_def fun_eq_iff heap_nearest_def)
qed

lemma filter_neq: "filter (\<lambda>v. v \<noteq> w) xs = removeAll w xs"
  by (induction xs) auto

lemma undo_insert_inv:
  assumes "core_inv s" "w \<in> set (waiters (ts_impls s t))"
  defines "s' \<equiv> sched_post w (upd_node w (w_ec_update (\<lambda>_. Some canceled)) (undo_insert t w s))"
  shows "timer_inv s'" "ts_nodes s' = detached_nodes mark_canceled [w] s"
    "ts_posted s' = ts_posted s @ [w]"
proof -
  note f = undo_insert_fields [OF assms(1) refl, where t = t and w = w] and c = core_invD [OF assms(1)]
  show n: "ts_nodes s' = detached_nodes mark_canceled [w] s" and p: "ts_posted s' = ts_posted s @ [w]"
    by (auto simp: s'_def setter_defs f detached_nodes_def)
  have i: "ts_impls s' = ts_impls (undo_insert t w s)" and h: "ts_heap s' = ts_heap (undo_insert t w s)"
    by (simp_all add: s'_def setter_defs)
  have h': "heap_inv s'" using f(12) by (simp add: s'_def)
  have w: "waiters (ts_impls s' u) = filter (\<lambda>v. v \<notin> set [w]) (waiters (ts_impls s u))" for u
  proof (cases "u = t")
    case False
    then have "w \<notin> set (waiters (ts_impls s u))" using waiters_disjoint [OF c(2) assms(2), of u] by blast
    with False show ?thesis by (simp add: i f(1) filter_neq)
  qed (simp add: i f(1) filter_neq distinct_remove1_removeAll waiters_okD(1) [OF c(2)])
  show "timer_inv s'"
  proof (rule timer_inv_posted [OF assms(1) _ _ h' _ n p w])
    show "ts_cached_nearest s' = heap_nearest s'"
      using f(9) by (simp add: s'_def setter_defs heap_nearest_def)
    show "\<And>v. v \<in> set [w] \<Longrightarrow> w_impl (ts_nodes s v) \<noteq> None"
      using waiters_pending [OF assms(1,2)] by simp
    show "waiters (ts_impls s' u) \<noteq> [] \<Longrightarrow> in_heap s' u" for u
      using c(4) [of u]
      by (cases "waiters (ts_impls s u)") (auto simp: i f(1,11) last_waiter_def split: if_splits)
  qed (auto simp: i h f(1-3,10,11) c(3,5) split: if_splits)
qed

lemma upd_node_set_waiters: "upd_node w f (set_waiters t ws s) = set_waiters t ws (upd_node w f s)"
  by (rule timer_service.equality) (simp_all add: setter_defs)

lemma waiters_set_waiters [simp]: "waiters (ts_impls (set_waiters t ws s) t) = ws"
  by (simp add: setter_defs)

lemma ts_impls_upd_node [simp]: "ts_impls (upd_node w f s) = ts_impls s"
  by (simp add: setter_defs)

lemma cancel_one_is_cancel_waiter:
  assumes "timer_inv s" "waiters (ts_impls s t) = w # ws"
  shows "cancel_one_waiter t s = (1, cancel_waiter w s)"
proof -
  have "might_have_pending_waits (ts_impls s t)" "w_impl (ts_nodes s w) = Some t"
    using core_invD(3,4) [OF timer_inv_core [OF assms(1)], of t] assms(2)
      waiters_okD(2) [OF core_invD(2) [OF timer_inv_core [OF assms(1)]], of w t] by simp_all
  then show ?thesis
    using assms(2)
    by (simp add: cancel_one_waiter_def cancel_waiter_def undo_insert_def upd_node_set_waiters Let_def)
qed

lemma cancel_one_none: "waiters (ts_impls s t) = [] \<Longrightarrow> cancel_one_waiter t s = (0, s)"
  by (simp add: cancel_one_waiter_def)

lemma cancel_waiter_pending:
  assumes "timer_inv s" "w \<in> set (waiters (ts_impls s t))"
  shows "cancel_waiter w s = sched_post w (upd_node w (w_ec_update (\<lambda>_. Some canceled)) (undo_insert t w s))"
  using assms waiters_okD(2) [OF core_invD(2) [OF timer_inv_core [OF assms(1)]], of w t]
  by (simp add: cancel_waiter_def)

lemma timer_inv_cancel_waiter:
  assumes "timer_inv s"
  shows "timer_inv (cancel_waiter w s)"
proof (cases "w_impl (ts_nodes s w)")
  case (Some t)
  then have "w \<in> set (waiters (ts_impls s t))"
    using waiters_okD(2) [OF core_invD(2) [OF timer_inv_core [OF assms]]] by simp
  then show ?thesis
    using undo_insert_inv(1) [OF timer_inv_core [OF assms]] cancel_waiter_pending [OF assms] by simp
qed (use assms in \<open>simp add: cancel_waiter_def\<close>)

lemma timer_inv_cancel_one: "timer_inv s \<Longrightarrow> timer_inv (snd (cancel_one_waiter t s))"
  by (cases "waiters (ts_impls s t)")
    (simp_all add: cancel_one_none cancel_one_is_cancel_waiter timer_inv_cancel_waiter)

section \<open>The nearest expiry\<close>

lemma heap_nearest_le: "heap_inv s \<Longrightarrow> e \<in> set (ts_heap s) \<Longrightarrow> heap_nearest s \<le> fst e"
  using heap_ok_min [of fst "ts_heap s"] by (auto simp: heap_nearest_def heap_inv_def in_set_conv_nth)

lemma heap_nearest_root: "ts_heap s \<noteq> [] \<Longrightarrow> \<exists>e \<in> set (ts_heap s). e = ts_heap s ! 0 \<and> heap_nearest s = fst e"
  by (simp add: heap_nearest_def)

text \<open>When the root of the new heap was already in the old heap, the minimum has not become smaller.\<close>

lemma heap_nearest_not_lower:
  assumes "heap_inv s" "heap_inv s'" "set (ts_heap s') \<subseteq> insert (x, t) (set (ts_heap s))"
    and "in_heap s' t \<Longrightarrow> heap_index (ts_impls s' t) \<noteq> 0" "heap_nearest s \<le> time_max"
  shows "heap_nearest s \<le> heap_nearest s'"
proof (cases "ts_heap s' = []")
  case True
  with assms(5) show ?thesis by (simp add: heap_nearest_def)
next
  case False
  then obtain e where e: "e \<in> set (ts_heap s')" "e = ts_heap s' ! 0" "heap_nearest s' = fst e"
    using heap_nearest_root by blast
  have "heap_index (ts_impls s' (snd e)) = 0" "in_heap s' (snd e)"
    using assms(2) False e(1,2) heap_inv_member [OF assms(2), of "snd e"]
    by (auto simp: heap_inv_def index_ok_def indexed_def)
  then have "e \<in> set (ts_heap s)" using assms(3,4) e(1) by auto
  then show ?thesis using heap_nearest_le [OF assms(1)] e(3) by simp
qed

section \<open>Setting the expiry\<close>

lemma expires_at_idle:
  assumes "core_inv s" "\<not> in_heap s t"
  shows "expires_at t tp s = (0, upd_impl t (expiry_update (\<lambda>_. tp)) s)"
  using assms core_invD(3) [OF assms(1), of t] by (simp add: expires_at_def setter_defs)

lemma expires_at_pending:
  fixes tp :: int
  assumes "core_inv s" "in_heap s t"
  defines "ws \<equiv> waiters (ts_impls s t)"
  defines "b \<equiv> (set_waiters t [] (upd_impl t (expiry_update (\<lambda>_. tp)) s))\<lparr>ts_nodes := detached_nodes mark_removed ws s\<rparr>"
  defines "r \<equiv> refresh_cached_nearest (retime t tp b)"
  defines "p \<equiv> r\<lparr>ts_nodes := detached_nodes mark_canceled ws s, ts_posted := ts_posted s @ ws\<rparr>"
  shows "expires_at t tp s = (length ws, if heap_index (ts_impls r t) = 0 then notify_earliest p else p)"
    "heap_inv b" "reindexed b (retime t tp b)"
    "set (ts_heap (retime t tp b)) = insert (tp, t) {e \<in> set (ts_heap s). snd e \<noteq> t}"
    "in_heap (retime t tp b) u \<longleftrightarrow> in_heap s u" "heap_inv (retime t tp b)"
proof -
  let ?e = "upd_impl t (expiry_update (\<lambda>_. tp)) s"
  have hb: "ts_heap b = ts_heap s" "heap_index (ts_impls b v) = heap_index (ts_impls s v)" for v
    by (simp_all add: b_def setter_defs)
  show b: "heap_inv b" using core_invD(1) [OF assms(1)] heap_inv_cong [OF hb] by simp
  have t: "in_heap b t" using assms(2) hb by simp
  note rt = retime_heap_inv [OF b t, of tp]
  show "heap_inv (retime t tp b)" "reindexed b (retime t tp b)" by (rule rt)+
  show "set (ts_heap (retime t tp b)) = insert (tp, t) {e \<in> set (ts_heap s). snd e \<noteq> t}"
    using rt(3) hb(1) by simp
  show "in_heap (retime t tp b) u \<longleftrightarrow> in_heap s u" using rt(4) hb(2) by simp
  have "distinct (waiters (ts_impls ?e t))" "waiters (ts_impls ?e t) = ws"
    using waiters_okD(1) [OF core_invD(2) [OF assms(1)]] by (simp_all add: ws_def setter_defs)
  then have d: "drain_waiters mark_removed t [] ?e = (ws, b)"
    using drain_waiters_eq [of ?e t mark_removed "[]"]
    by (simp add: b_def detached_nodes_def) (simp add: setter_defs cong: if_cong)
  have i: "heap_index (ts_impls b t) < length (ts_heap b)" using heap_inv_entry(1) [OF b t] .
  have n: "ts_nodes (retime t tp b) = detached_nodes mark_removed ws s" "ts_posted (retime t tp b) = ts_posted s"
    unfolding reindexed_fields [OF rt(2)] by (simp_all add: b_def setter_defs)
  have "expires_at t tp s = update_timer t tp ?e"
    using assms(2) by (simp add: expires_at_def setter_defs)
  also have "\<dots> = (length ws, if heap_index (ts_impls r t) = 0 then notify_earliest (complete_canceled ws r)
      else complete_canceled ws r)"
    using assms(2) d i by (auto simp: update_timer_def r_def Let_def) (auto simp: setter_defs)
  also have "complete_canceled ws r = p"
    using n by (simp add: complete_canceled_eq p_def r_def refresh_cached_nearest_def detached_canceled cong: if_cong)
  finally show "expires_at t tp s = (length ws, if heap_index (ts_impls r t) = 0 then notify_earliest p else p)" .
qed

end
