(* ===== verification/Timer_Steps.thy ===== *)
theory Timer_Steps
  imports Timer_Properties
begin

text \<open>
  The remaining operations of the timer service: setting an expiry, waiting, and processing expired
  timers, whose loop terminates and completes exactly the waiters that are due, in order of time.
\<close>

section \<open>Setting the expiry\<close>

text \<open>What \<open>expires_at\<close> does to the observable parts of the service.\<close>

definition expiry_set :: "timer_id \<Rightarrow> int \<Rightarrow> timer_service \<Rightarrow> timer_service \<Rightarrow> bool" where
  "expiry_set t tp s s' \<longleftrightarrow>
     (\<forall>u. waiters (ts_impls s' u) = (if u = t then [] else waiters (ts_impls s u))) \<and>
     (\<forall>u. might_have_pending_waits (ts_impls s' u) = might_have_pending_waits (ts_impls s u)) \<and>
     (\<forall>u. expiry (ts_impls s' u) = (if u = t then tp else expiry (ts_impls s u))) \<and>
     ts_nodes s' = detached_nodes mark_canceled (waiters (ts_impls s t)) s \<and>
     ts_posted s' = ts_posted s @ waiters (ts_impls s t) \<and> ts_resumed s' = ts_resumed s \<and> ts_work s' = ts_work s \<and>
     ts_cached_nearest s' = heap_nearest s' \<and>
     set (ts_heap s') = (if in_heap s t then insert (tp, t) {e \<in> set (ts_heap s). snd e \<noteq> t} else set (ts_heap s)) \<and>
     (\<forall>u. in_heap s' u \<longleftrightarrow> in_heap s u) \<and> heap_inv s' \<and>
     ts_notified s' = ts_notified s + (if in_heap s t \<and> heap_index (ts_impls s' t) = 0 then 1 else 0) \<and>
     ts_shutting_down s' = ts_shutting_down s \<and> ts_free_list s' = ts_free_list s \<and> ts_tl_cache s' = ts_tl_cache s"

lemma expiry_set_idle:
  assumes "timer_inv s" "\<not> in_heap s t"
  shows "expiry_set t tp s (upd_impl t (expiry_update (\<lambda>_. tp)) s)"
proof -
  have "waiters (ts_impls s t) = []" using core_invD(4) [OF timer_inv_core [OF assms(1)], of t] assms(2) by blast
  moreover have "heap_inv (upd_impl t (expiry_update (\<lambda>_. tp)) s) = heap_inv s"
    by (rule heap_inv_cong) (simp_all add: setter_defs)
  ultimately show ?thesis
    using assms core_invD(1) [OF timer_inv_core [OF assms(1)]]
    unfolding expiry_set_def
    by (simp add: timer_inv_def heap_nearest_def detached_nodes_def) (simp add: setter_defs)
qed

lemma expiry_set_pending:
  assumes "heap_inv b" "reindexed b r" "heap_inv r" "in_heap s t"
    and "set (ts_heap r) = insert (tp, t) {e \<in> set (ts_heap s). snd e \<noteq> t}" "\<And>u. in_heap r u \<longleftrightarrow> in_heap s u"
    and b: "b = (set_waiters t [] (upd_impl t (expiry_update (\<lambda>_. tp)) s))\<lparr>ts_nodes := n\<rparr>"
    and p: "p = (refresh_cached_nearest r)\<lparr>ts_nodes := detached_nodes mark_canceled (waiters (ts_impls s t)) s,
      ts_posted := ts_posted s @ waiters (ts_impls s t)\<rparr>"
  shows "expiry_set t tp s (if heap_index (ts_impls r t) = 0 then notify_earliest p else p)" (is "expiry_set t tp s ?s'")
proof -
  note f = reindexed_simps [OF assms(2)]
  have pf: "ts_impls ?s' = ts_impls r" "ts_heap ?s' = ts_heap r" "ts_resumed ?s' = ts_resumed r"
    "ts_work ?s' = ts_work r" "ts_notified ?s' = ts_notified r + (if heap_index (ts_impls r t) = 0 then 1 else 0)"
    "ts_shutting_down ?s' = ts_shutting_down r" "ts_free_list ?s' = ts_free_list r" "ts_tl_cache ?s' = ts_tl_cache r"
    "ts_nodes ?s' = detached_nodes mark_canceled (waiters (ts_impls s t)) s"
    "ts_posted ?s' = ts_posted s @ waiters (ts_impls s t)" "ts_cached_nearest ?s' = heap_nearest r"
    by (simp_all add: p refresh_cached_nearest_def notify_earliest_def heap_nearest_def)
  have bf: "waiters (ts_impls b u) = (if u = t then [] else waiters (ts_impls s u))"
    "might_have_pending_waits (ts_impls b u) = might_have_pending_waits (ts_impls s u)"
    "expiry (ts_impls b u) = (if u = t then tp else expiry (ts_impls s u))"
    "ts_resumed b = ts_resumed s" "ts_work b = ts_work s" "ts_notified b = ts_notified s"
    "ts_shutting_down b = ts_shutting_down s" "ts_free_list b = ts_free_list s" "ts_tl_cache b = ts_tl_cache s" for u
    by (simp_all add: b setter_defs)
  have "heap_inv ?s'" "heap_nearest ?s' = heap_nearest r"
    using heap_inv_cong [of ?s' r] heap_nearest_cong [of ?s' r] assms(3) pf(1,2) by simp_all
  then show ?thesis
    unfolding expiry_set_def pf using assms(4-6) by (simp add: f bf)
qed

lemma expires_at_set:
  assumes "timer_inv s"
  shows "expiry_set t tp s (snd (expires_at t tp s))" "fst (expires_at t tp s) = length (waiters (ts_impls s t))"
proof -
  note c = timer_inv_core [OF assms]
  have "expiry_set t tp s (snd (expires_at t tp s)) \<and> fst (expires_at t tp s) = length (waiters (ts_impls s t))"
  proof (cases "in_heap s t")
    case True
    note e = expires_at_pending [OF c True, of tp]
    show ?thesis
      using expiry_set_pending [OF e(2,3,6) True e(4,5) refl refl]
      by (simp add: e(1) refresh_cached_nearest_def)
  next
    case False
    then have "waiters (ts_impls s t) = []" using core_invD(4) [OF c, of t] by blast
    then show ?thesis using expiry_set_idle [OF assms False] expires_at_idle [OF c False] by simp
  qed
  then show "expiry_set t tp s (snd (expires_at t tp s))" "fst (expires_at t tp s) = length (waiters (ts_impls s t))"
    by simp_all
qed

lemma timer_inv_expires_at:
  assumes "timer_inv s"
  shows "timer_inv (snd (expires_at t tp s))"
proof -
  note c = timer_inv_core [OF assms] and f = expires_at_set(1) [OF assms, of t tp, unfolded expiry_set_def]
  let ?s' = "snd (expires_at t tp s)"
  have w: "waiters (ts_impls ?s' u) = filter (\<lambda>w. w \<notin> set (waiters (ts_impls s t))) (waiters (ts_impls s u))" for u
    using f by (simp add: filter_other_waiters [OF core_invD(2) [OF c]])
  show ?thesis
  proof (rule timer_inv_posted [OF c _ _ _ _ _ _ w])
    show "distinct (waiters (ts_impls s t))" using waiters_okD(1) [OF core_invD(2) [OF c]] .
    show "w_impl (ts_nodes s v) \<noteq> None" if "v \<in> set (waiters (ts_impls s t))" for v
      using waiters_pending [OF c that] .
    show "ts_nodes ?s' = detached_nodes mark_canceled (waiters (ts_impls s t)) s"
      "heap_inv ?s'" "ts_posted ?s' = ts_posted s @ waiters (ts_impls s t)" "ts_cached_nearest ?s' = heap_nearest ?s'"
      using f by simp_all
    show "in_heap ?s' u \<longleftrightarrow> might_have_pending_waits (ts_impls ?s' u)" for u using f core_invD(3) [OF c, of u] by simp
    show "in_heap ?s' u" if "waiters (ts_impls ?s' u) \<noteq> []" for u
      using f that core_invD(4) [OF c, of u] by (simp split: if_splits)
    show "fst e = expiry (ts_impls ?s' (snd e))" if "e \<in> set (ts_heap ?s')" for e
    proof -
      have "e = (tp, t) \<or> e \<in> set (ts_heap s) \<and> snd e \<noteq> t"
        using that f heap_inv_member [OF core_invD(1) [OF c], of t] by (auto split: if_splits)
      then show ?thesis using f core_invD(5) [OF c, of e] by auto
    qed
  qed simp
qed

section \<open>Waiting\<close>

text \<open>What publishing a waiter does: it becomes the last waiter of its timer, which is in the heap.\<close>

definition published :: "timer_id \<Rightarrow> waiter_id \<Rightarrow> timer_service \<Rightarrow> bool \<Rightarrow> timer_service \<Rightarrow> bool" where
  "published t w s notify s' \<longleftrightarrow>
     (\<forall>u. waiters (ts_impls s' u) = (if u = t then waiters (ts_impls s t) @ [w] else waiters (ts_impls s u))) \<and>
     (\<forall>u. might_have_pending_waits (ts_impls s' u) = might_have_pending_waits (ts_impls s u)) \<and>
     (\<forall>u. expiry (ts_impls s' u) = expiry (ts_impls s u)) \<and>
     ts_nodes s' = (ts_nodes s)(w := (ts_nodes s w)\<lparr>w_impl := Some t\<rparr>) \<and>
     ts_posted s' = ts_posted s \<and> ts_resumed s' = ts_resumed s \<and> ts_work s' = ts_work s \<and>
     ts_notified s' = ts_notified s \<and>
     ts_cached_nearest s' = (if in_heap s t then ts_cached_nearest s else heap_nearest s') \<and>
     set (ts_heap s') = (if in_heap s t then set (ts_heap s) else insert (expiry (ts_impls s t), t) (set (ts_heap s))) \<and>
     (in_heap s t \<longrightarrow> ts_heap s' = ts_heap s) \<and>
     (\<forall>u. in_heap s' u \<longleftrightarrow> in_heap s u \<or> u = t) \<and> heap_inv s' \<and>
     (notify \<longleftrightarrow> \<not> in_heap s t \<and> heap_index (ts_impls s' t) = 0) \<and>
     ts_shutting_down s' = ts_shutting_down s \<and> ts_free_list s' = ts_free_list s \<and> ts_tl_cache s' = ts_tl_cache s"

lemma published_in_heap:
  assumes "heap_inv s" "in_heap s t"
  shows "case publish_waiter t w s of (notify, s') \<Rightarrow> published t w s notify s'"
proof -
  have "heap_inv (set_waiters t (waiters (ts_impls s t) @ [w]) (upd_node w (w_impl_update (\<lambda>_. Some t)) s))"
    using assms(1) by simp
  then show ?thesis using assms by (simp add: publish_waiter_def published_def setter_defs)
qed

lemma published_new:
  assumes "heap_inv s" "\<not> in_heap s t" "length (ts_heap s) + 1 < npos"
  shows "case publish_waiter t w s of (notify, s') \<Rightarrow> published t w s notify s'"
proof -
  define s1 where "s1 = upd_node w (w_impl_update (\<lambda>_. Some t)) s"
  define r where "r = push_timer t s1"
  let ?s' = "set_waiters t (waiters (ts_impls r t) @ [w]) (refresh_cached_nearest r)"
  have "heap_inv s1" "\<not> in_heap s1 t" "length (ts_heap s1) + 1 < npos"
    using assms by (simp_all add: s1_def) (simp add: setter_defs)
  note r = push_heap_inv [OF this, folded r_def]
  note f = reindexed_simps [OF r(2)]
  have f1: "ts_heap s1 = ts_heap s" "ts_nodes s1 = (ts_nodes s)(w := (ts_nodes s w)\<lparr>w_impl := Some t\<rparr>)"
    "ts_impls s1 = ts_impls s" "ts_posted s1 = ts_posted s" "ts_resumed s1 = ts_resumed s" "ts_work s1 = ts_work s"
    "ts_notified s1 = ts_notified s" "ts_shutting_down s1 = ts_shutting_down s" "ts_free_list s1 = ts_free_list s"
    "ts_tl_cache s1 = ts_tl_cache s"
    by (simp_all add: s1_def setter_defs)
  have "publish_waiter t w s = (heap_index (ts_impls r t) = 0, ?s')"
    using assms(2) by (simp add: publish_waiter_def s1_def [symmetric] r_def Let_def f1) (simp add: setter_defs)
  moreover have "heap_inv ?s'" using r(1) by simp
  ultimately show ?thesis
    using assms(2) r(3,4) by (simp add: published_def) (simp add: setter_defs f f1 heap_nearest_def)
qed

lemmas publish_waiter_published = published_in_heap published_new

text \<open>A waiter that has never been published: not linked and not posted.\<close>

definition fresh_waiter :: "waiter_id \<Rightarrow> timer_service \<Rightarrow> bool" where
  "fresh_waiter w s \<longleftrightarrow> w_impl (ts_nodes s w) = None \<and> w \<notin> set (ts_posted s)"

lemma published_inv:
  assumes "timer_inv p" "published t w (set_flag t True q) n s'" "fresh_waiter w p"
    and "ts_impls q = ts_impls p" "ts_heap q = ts_heap p" "ts_posted q = ts_posted p"
    and "ts_cached_nearest q = ts_cached_nearest p" "\<And>v. w_impl (ts_nodes q v) = w_impl (ts_nodes p v)"
  shows "timer_inv s'"
proof -
  note c = core_invD [OF timer_inv_core [OF assms(1)]] and pub = assms(2) [unfolded published_def]
  have i: "in_heap (set_flag t True q) u = in_heap p u" "waiters (ts_impls (set_flag t True q) u) = waiters (ts_impls p u)"
    "expiry (ts_impls (set_flag t True q) u) = expiry (ts_impls p u)"
    "might_have_pending_waits (ts_impls (set_flag t True q) u) \<longleftrightarrow> might_have_pending_waits (ts_impls p u) \<or> u = t"
    "ts_heap (set_flag t True q) = ts_heap p" "ts_posted (set_flag t True q) = ts_posted p"
    "ts_nodes (set_flag t True q) = ts_nodes q" "ts_cached_nearest (set_flag t True q) = ts_cached_nearest p" for u
    using assms(4-7) by (auto simp: setter_defs)
  have "w \<notin> set (waiters (ts_impls p u))" for u
    using waiters_okD(2) [OF c(2), of w u] assms(3) by (auto simp: fresh_waiter_def)
  then have "waiters_ok s'"
    using pub c(2) assms(3,8) by (auto simp: waiters_ok_def fresh_waiter_def i)
  moreover have "ts_cached_nearest s' = heap_nearest s'"
    using pub assms(1) heap_nearest_cong [of s' p] by (simp add: i timer_inv_def)
  moreover have "fst e = expiry (ts_impls s' (snd e))" if "e \<in> set (ts_heap s')" for e
    using pub that c(5) [of e] by (auto simp: i split: if_splits)
  ultimately show ?thesis
    using pub c(3,4) by (auto simp: timer_inv_def core_inv_def i)
qed

definition wait_base :: "waiter_id \<Rightarrow> timer_service \<Rightarrow> timer_service" where
  "wait_base w s = s\<lparr>ts_nodes := (ts_nodes s)(w := (ts_nodes s w)\<lparr>w_impl := None,
     w_cb_active := w_stop_possible (ts_nodes s w) \<or> w_cb_active (ts_nodes s w)\<rparr>), ts_work := ts_work s + 1\<rparr>"

lemma impl_wait_pending:
  assumes "\<not> timer_already_expired t now s"
  shows "impl_wait t w now s = insert_waiter t w (set_flag t True (wait_base w s))"
proof -
  let ?s2 = "work_started (set_flag t True (upd_node w (w_impl_update (\<lambda>_. None)) s))"
  have "arm_stop_cb w ?s2 = upd_node w (w_cb_active_update (\<lambda>_. True)) ?s2"
    by (simp add: arm_stop_cb_def cancel_waiter_def) (simp add: work_started_def setter_defs)
  moreover have "(if w_stop_possible (ts_nodes s w) then upd_node w (w_cb_active_update (\<lambda>_. True)) ?s2 else ?s2) =
      set_flag t True (wait_base w s)"
    by (rule timer_service.equality) (auto simp: setter_defs wait_base_def work_started_def)
  moreover have "w_stop_possible (ts_nodes ?s2 w) = w_stop_possible (ts_nodes s w)"
    by (simp add: setter_defs work_started_def)
  ultimately show ?thesis using assms by (simp add: impl_wait_def Let_def cong: if_cong)
qed

lemma publish_flagged:
  assumes "timer_inv s" "fresh_waiter w s" "length (ts_heap s) + 1 < npos"
    and "publish_waiter t w (set_flag t True (wait_base w s)) = (n, s')"
  shows "published t w (set_flag t True (wait_base w s)) n s'" "timer_inv s'"
proof -
  let ?q = "set_flag t True (wait_base w s)"
  have h: "heap_inv ?q"
    using core_invD(1) [OF timer_inv_core [OF assms(1)]] heap_inv_cong [of "wait_base w s" s]
    by (simp add: wait_base_def)
  have l: "length (ts_heap ?q) + 1 < npos" using assms(3) by (simp add: wait_base_def setter_defs)
  show p: "published t w ?q n s'"
    using published_in_heap [OF h, of t w] published_new [OF h _ l, of t w] assms(4) by (cases "in_heap ?q t") auto
  show "timer_inv s'"
    using assms(2) by (intro published_inv [OF assms(1) p assms(2)]) (simp_all add: wait_base_def fresh_waiter_def)
qed

lemma timer_inv_resume:
  "timer_inv s \<Longrightarrow> timer_inv (resume_post w (upd_node w (w_ec_update (\<lambda>_. e)) s))"
  using heap_inv_cong [of "resume_post w (upd_node w (w_ec_update (\<lambda>_. e)) s)" s]
  by (simp add: timer_inv_def core_inv_def waiters_ok_def resume_post_def setter_defs heap_nearest_def)

lemma impl_wait_cases:
  assumes "timer_inv s" "fresh_waiter w s" "length (ts_heap s) + 1 < npos" "\<not> timer_already_expired t now s"
  obtains (stop) s1 where "w_stop_requested (ts_nodes s w)" "timer_inv s1" "w \<in> set (waiters (ts_impls s1 t))"
      "impl_wait t w now s = sched_post w (upd_node w (w_ec_update (\<lambda>_. Some canceled)) (undo_insert t w s1))"
      "\<exists>n. published t w (set_flag t True (wait_base w s)) n s1"
    | (wait) n s1 where "\<not> w_stop_requested (ts_nodes s w)" "timer_inv s1"
      "published t w (set_flag t True (wait_base w s)) n s1"
      "impl_wait t w now s = (if n then notify_earliest s1 else s1)"
proof -
  obtain n s1 where ns: "publish_waiter t w (set_flag t True (wait_base w s)) = (n, s1)" by (rule prod.exhaust)
  note p = publish_flagged [OF assms(1-3) ns]
  have n: "ts_nodes s1 w = (ts_nodes (wait_base w s) w)\<lparr>w_impl := Some t\<rparr>" "w \<in> set (waiters (ts_impls s1 t))"
    using p(1) by (simp_all add: published_def) (simp add: setter_defs)
  then have "w_stop_requested (ts_nodes s1 w) = w_stop_requested (ts_nodes s w)" by (simp add: wait_base_def)
  then have "impl_wait t w now s = (if w_stop_requested (ts_nodes s w)
      then sched_post w (upd_node w (w_ec_update (\<lambda>_. Some canceled)) (undo_insert t w s1))
      else if n then notify_earliest s1 else s1)"
    using assms(4) by (simp add: impl_wait_pending insert_waiter_def ns)
  then show ?thesis using that p n(2) by (auto split: if_splits)
qed

lemma timer_inv_notify: "timer_inv s \<Longrightarrow> timer_inv (notify_earliest s)"
  using heap_inv_cong [of "notify_earliest s" s]
  by (simp add: timer_inv_def core_inv_def waiters_ok_def notify_earliest_def heap_nearest_def)

lemma timer_inv_impl_wait:
  assumes "timer_inv s" "fresh_waiter w s" "length (ts_heap s) + 1 < npos"
  shows "timer_inv (impl_wait t w now s)"
proof (cases "timer_already_expired t now s")
  case True
  then show ?thesis using timer_inv_resume [OF assms(1)] by (simp add: impl_wait_def)
next
  case False
  show ?thesis
  proof (rule impl_wait_cases [OF assms False])
    fix s1 assume "timer_inv s1" "w \<in> set (waiters (ts_impls s1 t))"
      "impl_wait t w now s = sched_post w (upd_node w (w_ec_update (\<lambda>_. Some canceled)) (undo_insert t w s1))"
    then show ?thesis using undo_insert_inv(1) [OF timer_inv_core] by simp
  qed (simp add: timer_inv_notify)
qed

section \<open>Processing expired timers\<close>

abbreviation due_waiters :: "timer_service \<Rightarrow> heap_entry list \<Rightarrow> waiter_id list" where
  "due_waiters s es \<equiv> concat (map (\<lambda>e. waiters (ts_impls s (snd e))) es)"

text \<open>The timers \<open>es\<close> of \<open>s\<close> have been taken out, in order of time, and the others are as they were.\<close>

definition expired_to :: "int \<Rightarrow> timer_service \<Rightarrow> heap_entry list \<Rightarrow> timer_service \<Rightarrow> bool" where
  "expired_to now s es s' \<longleftrightarrow>
     set es = {e \<in> set (ts_heap s). fst e \<le> now} \<and> distinct es \<and> sorted (map fst es) \<and>
     set (ts_heap s') = {e \<in> set (ts_heap s). now < fst e} \<and>
     (\<forall>u. waiters (ts_impls s' u) = (if u \<in> snd ` set es then [] else waiters (ts_impls s u))) \<and>
     (\<forall>u. expiry (ts_impls s' u) = expiry (ts_impls s u)) \<and>
     ts_nodes s' = detached_nodes mark_expired (due_waiters s es) s \<and>
     ts_posted s' = ts_posted s \<and> ts_resumed s' = ts_resumed s \<and> ts_work s' = ts_work s \<and>
     ts_notified s' = ts_notified s \<and> pool_view s' = pool_view s"

lemma pool_view_detach [simp]: "pool_view (detach_timer f t s) = pool_view s"
  by (simp add: detach_timer_def)

lemma expire_first_eq:
  assumes "core_inv s"
  shows "expire_first acc s = (acc @ waiters (ts_impls s (snd (ts_heap s ! 0))),
    detach_timer mark_expired (snd (ts_heap s ! 0)) s)"
proof -
  let ?t = "snd (ts_heap s ! 0)"
  let ?r = "remove_timer_impl ?t s"
  have w: "waiters (ts_impls ?r ?t) = waiters (ts_impls s ?t)"
    by (rule reindexed_impl(1) [OF remove_heap_inv(2) [OF core_invD(1) [OF assms]]])
  have "distinct (waiters (ts_impls ?r ?t))"
    unfolding w using waiters_okD(1) [OF core_invD(2) [OF assms]] .
  from drain_waiters_eq [OF this] show ?thesis
    by (simp add: expire_first_def detach_timer_def Let_def w)
qed

lemma detached_nodes_twice:
  assumes "ts_nodes d = detached_nodes f ws s" "\<And>n. f (f n) = f n"
  shows "detached_nodes f ws' d = detached_nodes f (ws @ ws') s"
  using assms by (auto simp: detached_nodes_def fun_eq_iff)

lemma expired_to_step:
  assumes "core_inv s" "ts_heap s \<noteq> []" "fst (ts_heap s ! 0) \<le> now"
    and "expired_to now (detach_timer mark_expired (snd (ts_heap s ! 0)) s) es s'"
  shows "expired_to now s ((ts_heap s ! 0) # es) s'"
    and "due_waiters (detach_timer mark_expired (snd (ts_heap s ! 0)) s) es = due_waiters s es"
proof -
  let ?e = "ts_heap s ! 0" and ?d = "detach_timer mark_expired (snd (ts_heap s ! 0)) s"
  note d = detach_timer_fields [OF assms(1) refl, where f = mark_expired and t = "snd ?e"]
  note h = core_invD(1) [OF assms(1)] and x = assms(4) [unfolded expired_to_def]
  have e: "?e \<in> set (ts_heap s)" using assms(2) by simp
  have same: "e = ?e" if "e \<in> set (ts_heap s)" "snd e = snd ?e" for e
    using heap_inv_distinct [OF h] e that inj_onD [of snd "set (ts_heap s)" e ?e] by (simp add: distinct_map)
  have hd: "set (ts_heap ?d) = set (ts_heap s) - {?e}" using d(10) same by auto
  have es: "set es = {e \<in> set (ts_heap s) - {?e}. fst e \<le> now}" using x hd by simp
  then have notin: "snd e \<noteq> snd ?e" if "e \<in> set es" for e using that same [of e] by blast
  show due: "due_waiters ?d es = due_waiters s es"
    using notin d(1) by (intro arg_cong [where f = concat] map_cong) auto
  have "fst ?e \<le> fst e" if "e \<in> set es" for e
    using that es heap_nearest_le [OF h, of e] assms(2) by (auto simp: heap_nearest_def)
  moreover have "detached_nodes mark_expired (due_waiters ?d es) ?d = detached_nodes mark_expired (due_waiters s (?e # es)) s"
    using detached_nodes_twice [OF d(4), of "due_waiters s es"] by (simp add: due)
  moreover have "?e \<notin> set es" using es by blast
  moreover have "set (?e # es) = {e \<in> set (ts_heap s). fst e \<le> now}"
    unfolding list.set(2) es using e assms(3) by blast
  moreover have "set (ts_heap s') = {e \<in> set (ts_heap s). now < fst e}"
  proof -
    have "\<not> now < fst ?e" using assms(3) by simp
    moreover have "set (ts_heap s') = {e \<in> set (ts_heap ?d). now < fst e}" using x by blast
    ultimately show ?thesis unfolding hd by blast
  qed
  moreover have "waiters (ts_impls s' u) = (if u \<in> snd ` set (?e # es) then [] else waiters (ts_impls s u))" for u
    using x d(1) by simp
  ultimately show "expired_to now s (?e # es) s'"
    unfolding expired_to_def using x d(3,5-8) by (simp del: set_simps)
qed

lemma process_expired_loop_terminates:
  assumes "core_inv s"
  shows "\<exists>es s'. process_expired_loop now acc s = Some (acc @ due_waiters s es, s') \<and> core_inv s' \<and> expired_to now s es s'"
  using assms
proof (induction "card (set (ts_heap s))" arbitrary: s acc rule: less_induct)
  case less
  show ?case
  proof (cases "ts_heap s \<noteq> [] \<and> fst (ts_heap s ! 0) \<le> now")
    case True
    let ?e = "ts_heap s ! 0" and ?d = "detach_timer mark_expired (snd (ts_heap s ! 0)) s"
    have "set (ts_heap ?d) = {e \<in> set (ts_heap s). snd e \<noteq> snd ?e}" "?e \<in> set (ts_heap s)"
      using detach_timer_fields(10) [OF less.prems refl] True by simp_all
    then have "set (ts_heap ?d) \<subset> set (ts_heap s)" by blast
    then have "card (set (ts_heap ?d)) < card (set (ts_heap s))" by (rule psubset_card_mono [rotated]) simp
    moreover have "core_inv ?d" using core_inv_detach_timer [OF less.prems] by simp
    ultimately obtain es s' where *: "process_expired_loop now (acc @ waiters (ts_impls s (snd ?e))) ?d =
        Some ((acc @ waiters (ts_impls s (snd ?e))) @ due_waiters ?d es, s')" "core_inv s'" "expired_to now ?d es s'"
      using less.hyps by blast
    note st = expired_to_step [OF less.prems _ _ *(3)]
    have "process_expired_loop now acc s = Some (acc @ due_waiters s (?e # es), s')"
      using True *(1) st(2) by (subst process_expired_loop.simps) (simp add: expire_first_eq [OF less.prems])
    then show ?thesis using st(1) True *(2) by blast
  next
    case False
    have none: "now < fst e" if "e \<in> set (ts_heap s)" for e
    proof -
      have "ts_heap s \<noteq> []" using that by force
      then show ?thesis
        using False heap_nearest_le [OF core_invD(1) [OF less.prems] that] by (simp add: heap_nearest_def)
    qed
    then have "{e \<in> set (ts_heap s). fst e \<le> now} = {}" "{e \<in> set (ts_heap s). now < fst e} = set (ts_heap s)"
      by (fastforce simp: not_le)+
    then have "expired_to now s [] s" by (simp add: expired_to_def detached_nodes_def)
    moreover have "process_expired_loop now acc s = Some (acc, s)"
      using False by (subst process_expired_loop.simps) auto
    ultimately show ?thesis using less.prems by (intro exI [of _ "[]"] exI [of _ s]) simp
  qed
qed

lemma distinct_due:
  assumes "core_inv s" "distinct es" "set es \<subseteq> set (ts_heap s)"
  shows "distinct (due_waiters s es)"
proof -
  note ok = core_invD(2) [OF assms(1)]
  have inj: "inj_on snd (set (ts_heap s))"
    using heap_inv_distinct [OF core_invD(1) [OF assms(1)]] by (simp add: distinct_map)
  have "distinct (map snd es)" using assms(2,3) inj_on_subset [OF inj] by (simp add: distinct_map)
  moreover have "due_waiters s es = concat (map (\<lambda>t. waiters (ts_impls s t)) (map snd es))" by (simp add: comp_def)
  moreover have "distinct (concat (map (\<lambda>t. waiters (ts_impls s t)) ts))" if "distinct ts" for ts
    using that
  proof (induction ts)
    case (Cons t ts)
    then have "set (waiters (ts_impls s t)) \<inter> set (concat (map (\<lambda>t. waiters (ts_impls s t)) ts)) = {}"
      using waiters_disjoint [OF ok, of _ t] by fastforce
    with Cons show ?case using waiters_okD(1) [OF ok, of t] by simp
  qed simp
  ultimately show ?thesis by metis
qed

lemma due_pending: "core_inv s \<Longrightarrow> w \<in> set (due_waiters s es) \<Longrightarrow> w_impl (ts_nodes s w) \<noteq> None"
  using waiters_pending by fastforce

lemma process_expired_spec:
  assumes "timer_inv s"
  obtains es s1 s' where "process_expired now s = Some (length (due_waiters s es), s')" "timer_inv s'"
    "expired_to now s es s1" "ts_impls s' = ts_impls s1" "ts_heap s' = ts_heap s1" "ts_nodes s' = ts_nodes s1"
    "ts_posted s' = ts_posted s @ due_waiters s es" "ts_work s' = ts_work s" "ts_resumed s' = ts_resumed s"
    "ts_notified s' = ts_notified s" "pool_view s' = pool_view s"
proof -
  note c = timer_inv_core [OF assms]
  obtain es s1 where l: "process_expired_loop now [] s = Some (due_waiters s es, s1)" "core_inv s1" "expired_to now s es s1"
    using process_expired_loop_terminates [OF c, of now "[]"] by auto
  note x = l(3) [unfolded expired_to_def]
  let ?ws = "due_waiters s es"
  let ?s' = "complete_expired ?ws (refresh_cached_nearest s1)"
  have f: "ts_impls ?s' = ts_impls s1" "ts_heap ?s' = ts_heap s1" "ts_nodes ?s' = ts_nodes s1"
    "ts_posted ?s' = ts_posted s @ ?ws" "ts_work ?s' = ts_work s" "ts_resumed ?s' = ts_resumed s"
    "ts_notified ?s' = ts_notified s" "ts_cached_nearest ?s' = heap_nearest ?s'"
    using x by (simp_all add: complete_expired_eq refresh_cached_nearest_def heap_nearest_def)
  have "distinct ?ws" using distinct_due [OF c, of es] x by auto
  moreover have "set ?ws \<inter> set (ts_posted s1) = {}"
  proof -
    have "ts_posted s1 = ts_posted s" using x by blast
    moreover have "w \<notin> set (ts_posted s)" if "w \<in> set ?ws" for w
      using due_pending [OF c that] waiters_okD(4) [OF core_invD(2) [OF c], of w] by metis
    ultimately show ?thesis by (metis disjoint_iff)
  qed
  moreover have "w_impl (ts_nodes s1 w) = None" if "w \<in> set ?ws" for w
    using x that by (simp add: detached_nodes_def)
  ultimately have "waiters_ok ?s'"
    using x by (intro waiters_ok_post [OF core_invD(2) [OF l(2)], of ?ws]) (simp_all add: f(1,3,4))
  moreover have "heap_inv ?s'" using core_invD(1) [OF l(2)] heap_inv_cong [of ?s' s1] f(1,2) by simp
  ultimately have "timer_inv ?s'"
    using core_invD [OF l(2)] f(8) by (simp add: timer_inv_def core_inv_def f(1,2))
  moreover have "process_expired now s = Some (length ?ws, ?s')" by (simp add: process_expired_def l(1))
  moreover have "pool_view ?s' = pool_view s" using x by simp
  ultimately show ?thesis by (intro that [OF _ _ l(3) f(1-7)])
qed

end
