(* ===== verification/Timer_Lifecycle.thy ===== *)
theory Timer_Lifecycle
  imports Timer_Steps
begin

text \<open>
  The timer service as a transition system: creation, destruction and recycling of timers, waiting,
  cancelling, expiry and completion in any order. Every reachable state satisfies the invariant, no
  step loses a waiter, and the scheduler is told whenever the nearest expiry becomes earlier.
\<close>

section \<open>Recycled timers\<close>

definition pool :: "timer_service \<Rightarrow> timer_id list" where
  "pool s = (case ts_tl_cache s of None \<Rightarrow> [] | Some t \<Rightarrow> [t]) @ ts_free_list s"

definition live :: "timer_service \<Rightarrow> timer_id \<Rightarrow> bool" where
  "live s t \<longleftrightarrow> t < ts_fresh s \<and> t \<notin> set (pool s)"

definition pool_ok :: "timer_service \<Rightarrow> bool" where
  "pool_ok s \<longleftrightarrow> distinct (pool s) \<and>
     (\<forall>t \<in> set (pool s). t < ts_fresh s) \<and> (\<forall>t < ts_fresh s. impl_svc (ts_impls s t) = ts_self s) \<and>
     (\<forall>t. might_have_pending_waits (ts_impls s t) \<longrightarrow> live s t)"

definition service_inv :: "timer_service \<Rightarrow> bool" where
  "service_inv s \<longleftrightarrow> timer_inv s \<and> pool_ok s \<and> \<not> ts_shutting_down s \<and> (\<forall>t. expiry (ts_impls s t) \<le> time_max)"

lemma pool_view_eq:
  assumes "pool_view s' = pool_view s"
  shows "pool s' = pool s" "live s' = live s" "impl_svc (ts_impls s' t) = impl_svc (ts_impls s t)"
    "ts_self s' = ts_self s" "ts_fresh s' = ts_fresh s" "ts_shutting_down s' = ts_shutting_down s"
    "ts_free_list s' = ts_free_list s" "ts_tl_cache s' = ts_tl_cache s" "ts_deleted s' = ts_deleted s"
  using assms by (auto simp: pool_view_def pool_def live_def fun_eq_iff)

text \<open>What every operation on a live timer guarantees.\<close>

definition effect :: "timer_service \<Rightarrow> timer_service \<Rightarrow> bool" where
  "effect s s' \<longleftrightarrow> timer_inv s' \<and> pool_view s' = pool_view s \<and>
     (\<forall>u. might_have_pending_waits (ts_impls s' u) \<longrightarrow> might_have_pending_waits (ts_impls s u) \<or> live s u) \<and>
     (\<forall>u. expiry (ts_impls s' u) \<le> time_max) \<and>
     (\<forall>u w. w \<in> set (waiters (ts_impls s u)) \<longrightarrow> w \<in> set (waiters (ts_impls s' u)) \<or> w \<in> set (ts_posted s')) \<and>
     set (ts_posted s) \<subseteq> set (ts_posted s') \<and> ts_notified s \<le> ts_notified s' \<and>
     (nearest_expiry s' < nearest_expiry s \<longrightarrow> ts_notified s < ts_notified s')"

lemma service_inv_effect: "service_inv s \<Longrightarrow> effect s s' \<Longrightarrow> service_inv s'"
  using pool_view_eq [of s' s] by (auto simp: service_inv_def effect_def pool_ok_def)

lemma effect_trans: "effect s s1 \<Longrightarrow> effect s1 s2 \<Longrightarrow> effect s s2"
  using pool_view_eq(2) [of s1 s]
  by (auto simp: effect_def subset_iff) (meson not_less order_le_less_trans order_less_le_trans order_trans)+

lemma nearest_bound: "service_inv s \<Longrightarrow> heap_nearest s \<le> time_max"
  using core_invD(5) [OF timer_inv_core, of s] by (auto simp: service_inv_def heap_nearest_def)

lemma nearest_expiry_inv: "timer_inv s \<Longrightarrow> nearest_expiry s = heap_nearest s"
  by (simp add: timer_inv_def nearest_expiry_def)

lemma nearest_not_lower:
  assumes "service_inv s" "timer_inv s'" "set (ts_heap s') \<subseteq> set (ts_heap s)"
  shows "\<not> nearest_expiry s' < nearest_expiry s"
proof -
  have "heap_nearest s \<le> heap_nearest s'"
  proof (cases "ts_heap s' = []")
    case True
    then show ?thesis using nearest_bound [OF assms(1)] by (simp add: heap_nearest_def)
  next
    case False
    then obtain e where "e \<in> set (ts_heap s')" "heap_nearest s' = fst e" using heap_nearest_root by blast
    then show ?thesis
      using heap_nearest_le [of s e] assms(1,3) core_invD(1) [OF timer_inv_core, of s] by (auto simp: service_inv_def)
  qed
  then show ?thesis using assms(1,2) nearest_expiry_inv by (auto simp: service_inv_def)
qed

text \<open>Operations that only touch nodes and logs.\<close>

lemma effect_same:
  assumes "service_inv s" "ts_impls s' = ts_impls s" "ts_heap s' = ts_heap s" "ts_posted s' = ts_posted s"
    and "ts_cached_nearest s' = ts_cached_nearest s" "ts_notified s' = ts_notified s" "pool_view s' = pool_view s"
    and "\<And>w. w_impl (ts_nodes s' w) = w_impl (ts_nodes s w)"
  shows "effect s s'"
proof -
  have "heap_inv s' = heap_inv s" by (rule heap_inv_cong) (simp_all add: assms)
  then have "timer_inv s'"
    using assms by (simp add: service_inv_def timer_inv_def core_inv_def waiters_ok_def heap_nearest_def)
  then show ?thesis using assms by (simp add: effect_def service_inv_def nearest_expiry_def)
qed

lemma effect_cancel_timer:
  assumes "service_inv s"
  shows "effect s (snd (cancel_timer t s))"
proof -
  have t: "timer_inv s" using assms by (simp add: service_inv_def)
  note f = cancel_timer_fields [OF t refl, where t = t] and i = timer_inv_cancel_timer [OF t, of t]
  have "\<not> nearest_expiry (snd (cancel_timer t s)) < nearest_expiry s"
    by (rule nearest_not_lower [OF assms i]) (auto simp: f(11))
  then show ?thesis
    using i assms by (auto simp: effect_def f(2,3,4,6,9) service_inv_def)
qed

lemma effect_cancel_waiter:
  assumes "service_inv s"
  shows "effect s (cancel_waiter w s)"
proof (cases "w_impl (ts_nodes s w)")
  case None
  then show ?thesis using effect_same [OF assms, of s] by (simp add: cancel_waiter_def)
next
  case (Some t)
  have t: "timer_inv s" using assms by (simp add: service_inv_def)
  let ?u = "undo_insert t w s" and ?s' = "cancel_waiter w s"
  have s': "?s' = sched_post w (upd_node w (w_ec_update (\<lambda>_. Some canceled)) ?u)"
    using Some by (simp add: cancel_waiter_def)
  have eq: "ts_impls ?s' = ts_impls ?u" "ts_heap ?s' = ts_heap ?u" "ts_posted ?s' = ts_posted ?u @ [w]"
    "ts_notified ?s' = ts_notified ?u"
    unfolding s' by (simp_all add: setter_defs)
  note f = undo_insert_fields [OF timer_inv_core [OF t] refl, where t = t and w = w]
    and i = timer_inv_cancel_waiter [OF t, of w]
  have "\<not> nearest_expiry ?s' < nearest_expiry s"
    by (rule nearest_not_lower [OF assms i]) (auto simp: eq f(10))
  moreover have "v \<in> set (waiters (ts_impls ?s' u)) \<or> v \<in> set (ts_posted ?s')" if "v \<in> set (waiters (ts_impls s u))" for u v
    using that by (cases "v = w") (auto simp: eq f(1,5))
  ultimately show ?thesis
    using i assms by (auto simp: effect_def eq f(2,3,5,8) service_inv_def)
qed

lemma effect_cancel_one: "service_inv s \<Longrightarrow> effect s (snd (cancel_one_waiter t s))"
  using effect_same [of s s] cancel_one_is_cancel_waiter [of s t] effect_cancel_waiter [of s] cancel_one_none [of s t]
  by (cases "waiters (ts_impls s t)") (auto simp: service_inv_def)

lemma effect_expires_at:
  assumes "service_inv s" "tp \<le> time_max"
  shows "effect s (snd (expires_at t tp s))"
proof -
  have t: "timer_inv s" using assms by (simp add: service_inv_def)
  let ?s' = "snd (expires_at t tp s)"
  note f = expires_at_set(1) [OF t, of t tp, unfolded expiry_set_def] and i = timer_inv_expires_at [OF t, of t tp]
  have "ts_notified s < ts_notified ?s'" if "nearest_expiry ?s' < nearest_expiry s"
  proof (rule ccontr)
    assume "\<not> ts_notified s < ts_notified ?s'"
    then have "in_heap ?s' t \<Longrightarrow> heap_index (ts_impls ?s' t) \<noteq> 0" using f by (auto split: if_splits)
    moreover have "set (ts_heap ?s') \<subseteq> insert (tp, t) (set (ts_heap s))" using f by auto
    ultimately have "heap_nearest s \<le> heap_nearest ?s'"
      using f nearest_bound [OF assms(1)] core_invD(1) [OF timer_inv_core [OF t]] heap_nearest_not_lower by blast
    then show False using that by (simp add: nearest_expiry_inv [OF t] nearest_expiry_inv [OF i])
  qed
  moreover have "pool_view ?s' = pool_view s"
    by (simp add: expires_at_def Let_def)
  ultimately show ?thesis
    using i f assms by (auto simp: effect_def service_inv_def)
qed

lemma effect_notify: "effect s s' \<Longrightarrow> effect s (notify_earliest s')"
  using timer_inv_notify [of s']
  by (auto simp: effect_def notify_earliest_def pool_view_def nearest_expiry_def)

text \<open>The state in which a waiter is published, seen from the state before the wait.\<close>

lemma wait_published:
  assumes "published t w (set_flag t True (wait_base w s)) n s1"
  shows "waiters (ts_impls s1 u) = (if u = t then waiters (ts_impls s t) @ [w] else waiters (ts_impls s u))"
    "might_have_pending_waits (ts_impls s1 u) \<longleftrightarrow> might_have_pending_waits (ts_impls s u) \<or> u = t"
    "expiry (ts_impls s1 u) = expiry (ts_impls s u)" "ts_posted s1 = ts_posted s" "ts_notified s1 = ts_notified s"
    "in_heap s t \<Longrightarrow> ts_heap s1 = ts_heap s"
    "\<not> in_heap s t \<Longrightarrow> set (ts_heap s1) = insert (expiry (ts_impls s t), t) (set (ts_heap s))"
    "n \<longleftrightarrow> \<not> in_heap s t \<and> heap_index (ts_impls s1 t) = 0" "ts_resumed s1 = ts_resumed s" "ts_work s1 = ts_work s + 1"
    "ts_nodes s1 = (ts_nodes (wait_base w s))(w := (ts_nodes (wait_base w s) w)\<lparr>w_impl := Some t\<rparr>)"
proof -
  have "waiters (ts_impls (set_flag t True (wait_base w s)) v) = waiters (ts_impls s v)"
    "expiry (ts_impls (set_flag t True (wait_base w s)) v) = expiry (ts_impls s v)"
    "might_have_pending_waits (ts_impls (set_flag t True (wait_base w s)) v) \<longleftrightarrow> might_have_pending_waits (ts_impls s v) \<or> v = t"
    "ts_heap (set_flag t True (wait_base w s)) = ts_heap s" "ts_posted (set_flag t True (wait_base w s)) = ts_posted s"
    "ts_notified (set_flag t True (wait_base w s)) = ts_notified s"
    "ts_resumed (set_flag t True (wait_base w s)) = ts_resumed s"
    "ts_work (set_flag t True (wait_base w s)) = ts_work s + 1"
    "ts_nodes (set_flag t True (wait_base w s)) = ts_nodes (wait_base w s)"
    "in_heap (set_flag t True (wait_base w s)) v \<longleftrightarrow> in_heap s v" for v
    by (simp_all add: wait_base_def setter_defs)
  note q = this and f = assms [unfolded published_def]
  show "waiters (ts_impls s1 u) = (if u = t then waiters (ts_impls s t) @ [w] else waiters (ts_impls s u))"
    "might_have_pending_waits (ts_impls s1 u) \<longleftrightarrow> might_have_pending_waits (ts_impls s u) \<or> u = t"
    "expiry (ts_impls s1 u) = expiry (ts_impls s u)" "ts_posted s1 = ts_posted s" "ts_notified s1 = ts_notified s"
    "in_heap s t \<Longrightarrow> ts_heap s1 = ts_heap s"
    "\<not> in_heap s t \<Longrightarrow> set (ts_heap s1) = insert (expiry (ts_impls s t), t) (set (ts_heap s))"
    "n \<longleftrightarrow> \<not> in_heap s t \<and> heap_index (ts_impls s1 t) = 0" "ts_resumed s1 = ts_resumed s" "ts_work s1 = ts_work s + 1"
    "ts_nodes s1 = (ts_nodes (wait_base w s))(w := (ts_nodes (wait_base w s) w)\<lparr>w_impl := Some t\<rparr>)"
    using f by (simp_all add: q)
qed

lemma effect_published:
  assumes "service_inv s" "live s t" "timer_inv s1" "pool_view s1 = pool_view s"
    and "published t w (set_flag t True (wait_base w s)) n s1"
  shows "effect s (if n then notify_earliest s1 else s1)"
proof -
  note f = wait_published [OF assms(5)]
  have t: "timer_inv s" using assms by (simp add: service_inv_def)
  have "heap_nearest s \<le> heap_nearest s1" if "\<not> n"
  proof (cases "in_heap s t")
    case True
    then show ?thesis using heap_nearest_cong [OF f(6)] by simp
  next
    case False
    with that have "heap_index (ts_impls s1 t) \<noteq> 0" using f(8) by simp
    then show ?thesis
      using heap_nearest_not_lower [of s s1 "expiry (ts_impls s t)" t] f(7) [OF False] nearest_bound [OF assms(1)]
        core_invD(1) [OF timer_inv_core] t assms(3) by auto
  qed
  then have "\<not> n \<Longrightarrow> \<not> nearest_expiry s1 < nearest_expiry s"
    using nearest_expiry_inv [OF t] nearest_expiry_inv [OF assms(3)] by force
  then have "n \<or> effect s s1" using assms f(1-5) by (auto simp: effect_def service_inv_def)
  moreover have "effect s (notify_earliest s1)"
    using timer_inv_notify [OF assms(3)] assms f(1-5)
    by (auto simp: effect_def service_inv_def notify_earliest_def pool_view_def)
  ultimately show ?thesis by auto
qed

lemma effect_lost_cancel:
  assumes "service_inv s" "timer_inv s1" "pool_view s1 = pool_view s" "live s t"
    and "published t w (set_flag t True (wait_base w s)) n s1"
  shows "effect s (sched_post w (upd_node w (w_ec_update (\<lambda>_. Some canceled)) (undo_insert t w s1)))" (is "effect s ?s'")
proof -
  note f = wait_published [OF assms(5)]
  have t: "timer_inv s" using assms by (simp add: service_inv_def)
  let ?u = "undo_insert t w s1"
  note g = undo_insert_fields [OF timer_inv_core [OF assms(2)] refl, where t = t and w = w]
  have w: "w \<in> set (waiters (ts_impls s1 t))" by (simp add: f(1))
  note i = undo_insert_inv [OF timer_inv_core [OF assms(2)] w]
  have eq: "ts_impls ?s' = ts_impls ?u" "ts_heap ?s' = ts_heap ?u" "ts_notified ?s' = ts_notified ?u"
    "ts_posted ?s' = ts_posted s1 @ [w]"
    using i(3) by (simp_all add: setter_defs)
  have v: "pool_view ?s' = pool_view s" using assms(3) by simp
  have "set (ts_heap ?s') \<subseteq> set (ts_heap s)"
  proof (cases "in_heap s t")
    case True
    then show ?thesis using f(6) by (auto simp: eq g(10))
  next
    case False
    then have "waiters (ts_impls s t) = []" using core_invD(4) [OF timer_inv_core [OF t], of t] by blast
    then show ?thesis using f(7) [OF False] by (auto simp: eq g(10) last_waiter_def f(1))
  qed
  note n = nearest_not_lower [OF assms(1) i(1) this]
  have "v \<in> set (waiters (ts_impls ?s' u)) \<or> v \<in> set (ts_posted ?s')" if "v \<in> set (waiters (ts_impls s u))" for u v
    using that by (cases "v = w") (auto simp: eq g(1) f(1))
  then show ?thesis
    using i(1) n assms v f(2-5) eq g(2,3,8) by (auto simp: effect_def service_inv_def)
qed

lemma effect_wait:
  assumes "service_inv s" "live s t" "fresh_waiter w s" "length (ts_heap s) + 1 < npos"
  shows "effect s (impl_wait t w now s)"
proof (cases "timer_already_expired t now s")
  case True
  then show ?thesis
    by (intro effect_same [OF assms(1)]) (simp_all add: impl_wait_def resume_post_def setter_defs pool_view_def)
next
  case False
  have t: "timer_inv s" using assms by (simp add: service_inv_def)
  have v: "pool_view s1 = pool_view s" if "publish_waiter t w (set_flag t True (wait_base w s)) = (n, s1)" for n s1
    using that by (auto simp: publish_waiter_def Let_def split: if_splits) (simp_all add: wait_base_def pool_view_def)
  obtain n s1 where p: "publish_waiter t w (set_flag t True (wait_base w s)) = (n, s1)" by (rule prod.exhaust)
  note pf = publish_flagged [OF t assms(3,4) p]
  show ?thesis
    using effect_published [OF assms(1,2) pf(2) v [OF p] pf(1)]
      effect_lost_cancel [OF assms(1) pf(2) v [OF p] assms(2) pf(1)] False
    by (simp add: impl_wait_pending insert_waiter_def p)
qed

lemma effect_process_expired:
  assumes "service_inv s" "process_expired now s = Some (n, s')"
  shows "effect s s'"
proof -
  have t: "timer_inv s" using assms by (simp add: service_inv_def)
  obtain es s1 where p: "timer_inv s'" "expired_to now s es s1" "ts_impls s' = ts_impls s1" "ts_heap s' = ts_heap s1"
    "ts_posted s' = ts_posted s @ due_waiters s es" "ts_notified s' = ts_notified s" "pool_view s' = pool_view s"
    using process_expired_spec [OF t, of now] assms(2) by (metis option.inject prod.inject)
  note x = p(2) [unfolded expired_to_def]
  have "\<not> nearest_expiry s' < nearest_expiry s" using x by (intro nearest_not_lower [OF assms(1) p(1)]) (auto simp: p(4))
  moreover have "might_have_pending_waits (ts_impls s u)" if "might_have_pending_waits (ts_impls s' u)" for u
  proof -
    have "in_heap s' u" using core_invD(3) [OF timer_inv_core [OF p(1)]] that by blast
    then have "u \<in> snd ` set (ts_heap s')" using heap_inv_member [OF core_invD(1) [OF timer_inv_core [OF p(1)]]] by blast
    then have "u \<in> snd ` set (ts_heap s)" using x p(4) by auto
    then show ?thesis
      using heap_inv_member [OF core_invD(1) [OF timer_inv_core [OF t]]] core_invD(3) [OF timer_inv_core [OF t]] by blast
  qed
  moreover have "w \<in> set (waiters (ts_impls s' u)) \<or> w \<in> set (ts_posted s')" if "w \<in> set (waiters (ts_impls s u))" for u w
    using x that p(3,5) by force
  ultimately show ?thesis
    using p(1,3,5-7) x assms(1) by (simp add: effect_def service_inv_def)
qed

section \<open>Creating and destroying timers\<close>

lemma timer_inv_idle:
  assumes "timer_inv s" "\<not> might_have_pending_waits (ts_impls s t)"
    and "heap_index i = npos" "\<not> might_have_pending_waits i" "waiters i = []"
    and "s' = upd_impl t (\<lambda>_. i) s"
  shows "timer_inv s'"
proof -
  note c = timer_inv_core [OF assms(1)] and d = idle_timer [OF timer_inv_core [OF assms(1)] assms(2)]
  have "heap_inv s' = heap_inv s" using d(2) assms(3) by (intro heap_inv_cong) (simp_all add: assms(6) setter_defs)
  moreover have "waiters_ok s'"
    using core_invD(2) [OF c] d(1) assms(5) by (auto simp: waiters_ok_def assms(6) setter_defs)
  ultimately show ?thesis
    using assms(1,3-5) d(2,3) core_invD [OF c]
    by (auto simp: timer_inv_def core_inv_def assms(6) setter_defs heap_nearest_def)
qed

lemma pool_idle:
  assumes "service_inv s" "\<not> live s t"
  shows "\<not> might_have_pending_waits (ts_impls s t)" "waiters (ts_impls s t) = []" "\<not> in_heap s t"
proof -
  show f: "\<not> might_have_pending_waits (ts_impls s t)" using assms by (auto simp: service_inv_def pool_ok_def)
  show "waiters (ts_impls s t) = []" "\<not> in_heap s t"
    using idle_timer [OF timer_inv_core f] assms(1) by (simp_all add: service_inv_def)
qed

text \<open>Dropping a timer from the pool, or raising the counter of fresh timers, and initialising it.\<close>

lemma service_inv_claim:
  assumes "service_inv s" "\<not> live s t"
    and "i = (ts_impls s t)\<lparr>impl_svc := ts_self s, expiry := 0, heap_index := npos, might_have_pending_waits := False\<rparr>
      \<or> i = new_impl (ts_self s)"
    and "s' = upd_impl t (\<lambda>_. i) s1" "s1 = s\<lparr>ts_tl_cache := c, ts_free_list := fl, ts_fresh := n\<rparr>"
    and "pool s1 = remove1 t (pool s)" "t < n" "ts_fresh s \<le> n" "\<And>u. u \<noteq> t \<Longrightarrow> u < n \<longleftrightarrow> u < ts_fresh s"
  shows "service_inv s' \<and> live s' t \<and> (\<forall>u. u \<noteq> t \<longrightarrow> ts_impls s' u = ts_impls s u \<and> (live s' u \<longleftrightarrow> live s u)) \<and>
    expiry (ts_impls s' t) = 0 \<and> waiters (ts_impls s' t) = [] \<and> \<not> in_heap s' t \<and> \<not> might_have_pending_waits (ts_impls s' t)"
proof -
  note d = pool_idle [OF assms(1,2)]
  have "heap_inv s1 = heap_inv s" by (rule heap_inv_cong) (simp_all add: assms(5))
  then have t1: "timer_inv s1"
    using assms(1) by (simp add: assms(5) service_inv_def timer_inv_def core_inv_def waiters_ok_def heap_nearest_def)
  have i: "heap_index i = npos" "\<not> might_have_pending_waits i" "waiters i = []" "expiry i = 0" "impl_svc i = ts_self s"
    using assms(3) d by (auto simp: new_impl_def)
  have "timer_inv s'" using timer_inv_idle [OF t1 _ i(1-3) assms(4)] d(1) by (simp add: assms(5))
  moreover have p: "pool s' = remove1 t (pool s)" using assms(6) by (simp add: assms(4) upd_impl_def pool_def)
  moreover have ds: "distinct (pool s)" using assms(1) by (simp add: service_inv_def pool_ok_def)
  moreover have f: "ts_fresh s' = n" "ts_self s' = ts_self s" "ts_shutting_down s' = ts_shutting_down s"
    "ts_impls s' = (ts_impls s)(t := i)"
    by (simp_all add: assms(4,5) upd_impl_def)
  moreover have l: "live s' u \<longleftrightarrow> u = t \<or> live s u" for u
    using assms(7) assms(9) [of u] ds by (cases "u = t") (simp_all add: live_def p f)
  ultimately show ?thesis
    using assms(1,8,9) i d by (auto simp: service_inv_def pool_ok_def time_max_def intro: less_le_trans)
qed

text \<open>A created timer is idle, shared with no live timer, and reads as expired.\<close>

lemma construct_spec:
  assumes "service_inv s" "construct s = (t, s')"
  shows "service_inv s' \<and> live s' t \<and> (\<forall>u. u \<noteq> t \<longrightarrow> ts_impls s' u = ts_impls s u \<and> (live s' u \<longleftrightarrow> live s u)) \<and>
    expiry (ts_impls s' t) = 0 \<and> waiters (ts_impls s' t) = [] \<and> \<not> in_heap s' t \<and> \<not> might_have_pending_waits (ts_impls s' t)"
    "\<not> live s t" "ts_posted s' = ts_posted s" "ts_heap s' = ts_heap s" "ts_cached_nearest s' = ts_cached_nearest s"
proof -
  have ok: "pool_ok s" using assms(1) by (simp add: service_inv_def)
  let ?r = "(ts_impls s t)\<lparr>impl_svc := ts_self s, expiry := 0, heap_index := npos, might_have_pending_waits := False\<rparr>"
  consider (cache) "ts_tl_cache s = Some t" "s' = upd_impl t (\<lambda>_. ?r) (s\<lparr>ts_tl_cache := None\<rparr>)"
    | (recycled) ts where "ts_tl_cache s = None" "ts_free_list s = t # ts" "s' = upd_impl t (\<lambda>_. ?r) (s\<lparr>ts_free_list := ts\<rparr>)"
    | (new) "ts_tl_cache s = None" "ts_free_list s = []" "t = ts_fresh s"
      "s' = upd_impl t (\<lambda>_. new_impl (ts_self s)) (s\<lparr>ts_fresh := t + 1\<rparr>)"
  proof (cases "ts_tl_cache s")
    case (Some u)
    then have "impl_svc (ts_impls s u) = ts_self s" using ok by (simp add: pool_ok_def pool_def)
    then show ?thesis using that(1) Some assms(2) by (auto simp: construct_def try_pop_tl_cache_def reset_impl_def upd_impl_def Let_def)
  next
    case None
    then show ?thesis
      using that(2,3) assms(2)
      by (cases "ts_free_list s") (auto simp: construct_def try_pop_tl_cache_def reset_impl_def upd_impl_def Let_def)
  qed
  note cs = this
  from cs show l: "\<not> live s t" by cases (simp_all add: live_def pool_def)
  from cs show "ts_posted s' = ts_posted s" "ts_heap s' = ts_heap s" "ts_cached_nearest s' = ts_cached_nearest s"
    by (cases, simp_all add: upd_impl_def)+
  have "\<exists>c fl n i. (i = ?r \<or> i = new_impl (ts_self s)) \<and> s' = upd_impl t (\<lambda>_. i) (s\<lparr>ts_tl_cache := c, ts_free_list := fl, ts_fresh := n\<rparr>) \<and>
      pool (s\<lparr>ts_tl_cache := c, ts_free_list := fl, ts_fresh := n\<rparr>) = remove1 t (pool s) \<and> t < n \<and> ts_fresh s \<le> n \<and>
      (\<forall>u. u \<noteq> t \<longrightarrow> (u < n \<longleftrightarrow> u < ts_fresh s))"
    using cs
  proof cases
    case cache
    moreover have "t < ts_fresh s" using ok cache(1) by (simp add: pool_ok_def pool_def)
    ultimately show ?thesis
      by (intro exI [of _ None] exI [of _ "ts_free_list s"] exI [of _ "ts_fresh s"] exI [of _ ?r]) (simp add: pool_def)
  next
    case (recycled ts)
    moreover have "t < ts_fresh s" using ok recycled(2) by (simp add: pool_ok_def pool_def)
    ultimately show ?thesis
      by (intro exI [of _ None] exI [of _ ts] exI [of _ "ts_fresh s"] exI [of _ ?r])
        (auto simp: pool_def upd_impl_def intro!: timer_service.equality)
  next
    case new
    then show ?thesis
      by (intro exI [of _ None] exI [of _ "[]"] exI [of _ "ts_fresh s + 1"] exI [of _ "new_impl (ts_self s)"])
        (auto simp: pool_def upd_impl_def intro!: timer_service.equality)
  qed
  then show "service_inv s' \<and> live s' t \<and> (\<forall>u. u \<noteq> t \<longrightarrow> ts_impls s' u = ts_impls s u \<and> (live s' u \<longleftrightarrow> live s u)) \<and>
    expiry (ts_impls s' t) = 0 \<and> waiters (ts_impls s' t) = [] \<and> \<not> in_heap s' t \<and> \<not> might_have_pending_waits (ts_impls s' t)"
    using service_inv_claim [OF assms(1) l] by blast
qed

lemma destroy_eq:
  fixes t :: timer_id
  assumes "service_inv s"
  defines "s1 \<equiv> snd (cancel_timer t s)"
  shows "ts_destroy t s = (case ts_tl_cache s of
     None \<Rightarrow> s1\<lparr>ts_tl_cache := Some t\<rparr> | Some _ \<Rightarrow> s1\<lparr>ts_free_list := t # ts_free_list s\<rparr>)"
proof -
  have t: "timer_inv s" and sd: "\<not> ts_shutting_down s" using assms(1) by (simp_all add: service_inv_def)
  note f = cancel_timer_fields [OF t refl, where t = t, folded s1_def]
  have "\<not> in_heap s1 t" using f(12) [of t] by blast
  then show ?thesis
    using sd f(15,16)
    by (simp add: ts_destroy_def destroy_impl_def s1_def [symmetric] try_push_tl_cache_def Let_def split: option.splits)
qed

lemma service_inv_destroy:
  assumes "service_inv s" "live s t"
  shows "service_inv (ts_destroy t s)" "\<not> live (ts_destroy t s) t"
    "ts_posted (ts_destroy t s) = ts_posted s @ waiters (ts_impls s t)"
proof -
  have t: "timer_inv s" using assms(1) by (simp_all add: service_inv_def)
  define s1 where "s1 = snd (cancel_timer t s)"
  note f = cancel_timer_fields [OF t s1_def]
  note d = destroy_eq [OF assms(1), of t, folded s1_def]
  have s1: "service_inv s1" using service_inv_effect [OF assms(1) effect_cancel_timer] assms(1) by (simp add: s1_def)
  have v: "pool_view s1 = pool_view s" by (simp add: s1_def)
  note pv = pool_view_eq [OF v]
  have "timer_inv (ts_destroy t s)"
    using s1 heap_inv_cong [of "ts_destroy t s" s1]
    by (auto simp: service_inv_def timer_inv_def core_inv_def waiters_ok_def heap_nearest_def d split: option.splits)
  moreover have p: "mset (pool (ts_destroy t s)) = add_mset t (mset (pool s))"
    using pv(7,8) by (auto simp: pool_def d split: option.splits)
  then have ps: "set (pool (ts_destroy t s)) = insert t (set (pool s))"
    by (metis set_mset_add_mset_insert set_mset_mset)
  moreover have "distinct (pool (ts_destroy t s))"
    using p assms s1 mset_eq_imp_distinct_iff [of "pool (ts_destroy t s)" "t # pool s"]
    by (simp add: service_inv_def pool_ok_def live_def)
  moreover have g: "ts_impls (ts_destroy t s) = ts_impls s1" "ts_fresh (ts_destroy t s) = ts_fresh s"
    "ts_self (ts_destroy t s) = ts_self s" "ts_shutting_down (ts_destroy t s) = ts_shutting_down s"
    "ts_posted (ts_destroy t s) = ts_posted s1"
    using pv by (auto simp: d split: option.splits)
  ultimately show "service_inv (ts_destroy t s)"
    using s1 assms(2) pv f(3) [of t] by (auto simp: service_inv_def pool_ok_def live_def)
  show "\<not> live (ts_destroy t s) t" by (simp add: live_def ps)
  show "ts_posted (ts_destroy t s) = ts_posted s @ waiters (ts_impls s t)" using f(6) g(5) by simp
qed

section \<open>Steps\<close>

text \<open>
  A stop request on the token of a waiter: the token remembers it, and an armed stop callback runs.
\<close>

definition request_stop :: "waiter_id \<Rightarrow> timer_service \<Rightarrow> timer_service" where
  "request_stop w s =
     (let s1 = upd_node w (w_stop_requested_update (\<lambda>_. True)) s in
      if w_cb_active (ts_nodes s1 w) then canceller_call w s1 else s1)"

inductive timer_step :: "timer_service \<Rightarrow> timer_service \<Rightarrow> bool" where
  create: "timer_step s (snd (construct s))"
| destroy: "live s t \<Longrightarrow> timer_step s (ts_destroy t s)"
| wait: "live s t \<Longrightarrow> fresh_waiter w s \<Longrightarrow> length (ts_heap s) + 1 < npos \<Longrightarrow>
    timer_step s (await_suspend t w now now' s)"
| cancel: "live s t \<Longrightarrow> timer_step s (snd (timer_cancel t s))"
| cancel_one: "live s t \<Longrightarrow> timer_step s (snd (timer_cancel_one t s))"
| set_expiry: "live s t \<Longrightarrow> tp \<le> time_max \<Longrightarrow> timer_step s (snd (expires_at t tp s))"
| set_expiry_after: "live s t \<Longrightarrow> now \<le> time_max \<Longrightarrow> timer_step s (snd (expires_after t now d s))"
| stop: "timer_step s (request_stop w s)"
| expire: "process_expired now s = Some (n, s') \<Longrightarrow> timer_step s s'"
| complete: "w \<in> set (ts_posted s) \<Longrightarrow> timer_step s (completion_invoke w s)"

inductive timer_reachable :: "timer_service \<Rightarrow> bool" where
  start: "(\<And>w. w_impl (nodes w) = None) \<Longrightarrow> timer_reachable (ts_init self nodes)"
| step: "timer_reachable s \<Longrightarrow> timer_step s s' \<Longrightarrow> timer_reachable s'"

text \<open>What every step keeps of the waiters and of the nearest expiry.\<close>

definition keeps :: "timer_service \<Rightarrow> timer_service \<Rightarrow> bool" where
  "keeps s s' \<longleftrightarrow>
     (\<forall>u w. w \<in> set (waiters (ts_impls s u)) \<longrightarrow> w \<in> set (waiters (ts_impls s' u)) \<or> w \<in> set (ts_posted s')) \<and>
     set (ts_posted s) \<subseteq> set (ts_posted s') \<and> (nearest_expiry s' < nearest_expiry s \<longrightarrow> ts_notified s < ts_notified s')"

lemma effect_keeps: "effect s s' \<Longrightarrow> keeps s s'"
  by (simp add: effect_def keeps_def)

lemma effect_step: "service_inv s \<Longrightarrow> effect s s' \<Longrightarrow> service_inv s' \<and> keeps s s'"
  by (blast intro: service_inv_effect effect_keeps)

lemma effect_request_stop:
  assumes "service_inv s"
  shows "effect s (request_stop w s)"
proof -
  let ?s1 = "upd_node w (w_stop_requested_update (\<lambda>_. True)) s"
  have e: "effect s ?s1" by (rule effect_same [OF assms]) (simp_all add: setter_defs pool_view_def)
  then show ?thesis
    using effect_trans [OF e effect_cancel_waiter [OF service_inv_effect [OF assms e]]]
    by (simp add: request_stop_def canceller_call_def Let_def)
qed

lemma effect_await:
  assumes "service_inv s" "live s t" "fresh_waiter w s" "length (ts_heap s) + 1 < npos"
  shows "effect s (await_suspend t w now now' s)"
proof -
  let ?s1 = "upd_node w (w_handle_update (\<lambda>_. True)) s"
  have e: "effect s ?s1" by (rule effect_same [OF assms(1)]) (simp_all add: setter_defs pool_view_def)
  have l: "live ?s1 t" "fresh_waiter w ?s1" "length (ts_heap ?s1) + 1 < npos"
    using assms by (simp_all add: live_def pool_def fresh_waiter_def setter_defs)
  have "effect ?s1 (resume_post w (upd_node w (w_ec_update (\<lambda>_. None)) ?s1))"
    by (rule effect_same [OF service_inv_effect [OF assms(1) e]]) (simp_all add: resume_post_def setter_defs pool_view_def)
  then show ?thesis
    using effect_trans [OF e] effect_wait [OF service_inv_effect [OF assms(1) e] l]
    by (simp add: await_suspend_def Let_def)
qed

lemma expires_after_at: "expires_after t now d s = expires_at t (expiry_after now d) s"
  by (simp add: expires_after_def expires_at_def)

lemma expiry_after_bound: "now \<le> time_max \<Longrightarrow> expiry_after now d \<le> time_max"
  by (simp add: expiry_after_def time_max_def time_min_def)

lemma effect_complete:
  assumes "service_inv s"
  shows "effect s (completion_invoke w s)"
  by (rule effect_same [OF assms])
    (simp_all add: completion_invoke_def reset_stop_cb_def work_finished_def resume_post_def setter_defs pool_view_def)

lemma timer_step_keeps:
  assumes "timer_step s s'" "service_inv s"
  shows "service_inv s' \<and> keeps s s'"
  using assms
proof (induction rule: timer_step.induct)
  case (create s)
  obtain t s' where c: "construct s = (t, s')" by (rule prod.exhaust)
  note d = construct_spec [OF create c] and i = pool_idle [OF create construct_spec(2) [OF create c]]
  have "w \<in> set (waiters (ts_impls s' u))" if "w \<in> set (waiters (ts_impls s u))" for u w
    using d(1) i that by (cases "u = t") auto
  then show ?case using d c by (auto simp: keeps_def nearest_expiry_def)
next
  case (destroy s t)
  note d = service_inv_destroy [OF destroy(2,1)] and e = effect_keeps [OF effect_cancel_timer [OF destroy(2), of t]]
  have "ts_impls (ts_destroy t s) = ts_impls (snd (cancel_timer t s))"
    "ts_posted (ts_destroy t s) = ts_posted (snd (cancel_timer t s))"
    "ts_cached_nearest (ts_destroy t s) = ts_cached_nearest (snd (cancel_timer t s))"
    "ts_notified (ts_destroy t s) = ts_notified (snd (cancel_timer t s))"
    by (simp_all add: destroy_eq [OF destroy(2)] split: option.splits)
  then show ?case using d(1) e by (simp add: keeps_def nearest_expiry_def)
next
  case (cancel s t)
  then show ?case
    using effect_step [OF cancel(2) effect_cancel_timer [OF cancel(2), of t]] effect_step [OF cancel(2) effect_same [OF cancel(2), of s]]
    by (simp add: timer_cancel_def)
next
  case (cancel_one s t)
  then show ?case
    using effect_step [OF cancel_one(2) effect_cancel_one [OF cancel_one(2), of t]]
      effect_step [OF cancel_one(2) effect_same [OF cancel_one(2), of s]]
    by (simp add: timer_cancel_one_def)
next
  case (wait s t w now now')
  show ?case by (rule effect_step [OF wait(4) effect_await [OF wait(4,1-3)]])
next
  case (set_expiry s t tp)
  show ?case by (rule effect_step [OF set_expiry(3) effect_expires_at [OF set_expiry(3,2)]])
next
  case (set_expiry_after s t now d)
  show ?case unfolding expires_after_at
    by (rule effect_step [OF set_expiry_after(3) effect_expires_at [OF set_expiry_after(3) expiry_after_bound]])
      (rule set_expiry_after(2))
next
  case (stop s w)
  show ?case by (rule effect_step [OF stop effect_request_stop [OF stop]])
next
  case (expire now s n s')
  show ?case by (rule effect_step [OF expire(2) effect_process_expired [OF expire(2,1)]])
next
  case (complete w s)
  show ?case by (rule effect_step [OF complete(2) effect_complete [OF complete(2)]])
qed

lemma service_inv_init: "(\<And>w. w_impl (nodes w) = None) \<Longrightarrow> service_inv (ts_init self nodes)"
  by (simp add: service_inv_def timer_inv_def core_inv_def heap_inv_def index_ok_def indexed_def outside_npos_def
      heap_ok_def waiters_ok_def pool_ok_def pool_def live_def ts_init_def new_impl_def heap_nearest_def npos_def time_max_def)

lemma reachable_service_inv: "timer_reachable s \<Longrightarrow> service_inv s"
proof (induction rule: timer_reachable.induct)
  case (start nodes self)
  then show ?case by (rule service_inv_init)
next
  case (step s s')
  then show ?case using timer_step_keeps by blast
qed

lemma reachable_timer_inv: "timer_reachable s \<Longrightarrow> timer_inv s"
  using reachable_service_inv by (simp add: service_inv_def)

end
