(* ===== verification/Timer_Correctness.thy ===== *)
theory Timer_Correctness
  imports Timer_Lifecycle
begin

text \<open>
  The properties of the timer service, for every reachable state: the invariant, that each wait
  completes once, that the scheduler is woken for an earlier expiry, what waiting, cancelling and
  expiry processing do, and what shutdown deletes.
\<close>

section \<open>Shutdown\<close>

lemma destroy_waiter_fields:
  "ts_work (destroy_waiter w s) = ts_work s - 1"
  "ts_destroyed (destroy_waiter w s) = ts_destroyed s @ (if w_handle (ts_nodes s w) then [w] else [])"
  "ts_impls (destroy_waiter w s) = ts_impls s" "ts_deleted (destroy_waiter w s) = ts_deleted s"
  "ts_free_list (destroy_waiter w s) = ts_free_list s" "ts_heap (destroy_waiter w s) = ts_heap s"
  "ts_shutting_down (destroy_waiter w s) = ts_shutting_down s"
  "v \<noteq> w \<Longrightarrow> ts_nodes (destroy_waiter w s) v = ts_nodes s v"
  by (auto simp: destroy_waiter_def reset_stop_cb_def work_finished_def setter_defs Let_def)

lemma destroy_waiters_fields:
  "distinct ws \<Longrightarrow> ts_work (destroy_waiters ws s) = ts_work s - int (length ws) \<and>
    ts_destroyed (destroy_waiters ws s) = ts_destroyed s @ filter (\<lambda>w. w_handle (ts_nodes s w)) ws \<and>
    ts_impls (destroy_waiters ws s) = ts_impls s \<and> ts_deleted (destroy_waiters ws s) = ts_deleted s \<and>
    ts_free_list (destroy_waiters ws s) = ts_free_list s \<and> ts_heap (destroy_waiters ws s) = ts_heap s \<and>
    ts_shutting_down (destroy_waiters ws s) = ts_shutting_down s \<and>
    (\<forall>v. v \<notin> set ws \<longrightarrow> ts_nodes (destroy_waiters ws s) v = ts_nodes s v)"
proof (induction ws arbitrary: s)
  case (Cons w ws)
  have "filter (\<lambda>v. w_handle (ts_nodes (destroy_waiter w s) v)) ws = filter (\<lambda>v. w_handle (ts_nodes s v)) ws"
  proof (rule filter_cong [OF refl])
    fix v assume "v \<in> set ws"
    then have "v \<noteq> w" using Cons.prems by auto
    then show "w_handle (ts_nodes (destroy_waiter w s) v) = w_handle (ts_nodes s v)" by (simp add: destroy_waiter_fields(8))
  qed
  with Cons show ?case by (simp add: destroy_waiter_fields)
qed simp

lemma shutdown_detach_fields:
  "waiters (ts_impls (shutdown_detach es s) t) = waiters (ts_impls s t)" "ts_nodes (shutdown_detach es s) = ts_nodes s"
  "ts_work (shutdown_detach es s) = ts_work s" "ts_destroyed (shutdown_detach es s) = ts_destroyed s"
  "ts_deleted (shutdown_detach es s) = ts_deleted s" "ts_free_list (shutdown_detach es s) = ts_free_list s"
  "ts_shutting_down (shutdown_detach es s) = ts_shutting_down s" "ts_tl_cache (shutdown_detach es s) = ts_tl_cache s"
  by (induction es arbitrary: s) (simp_all add: setter_defs)

lemma shutdown_impls_fields:
  assumes "distinct ts" "distinct (concat (map (\<lambda>t. waiters (ts_impls s t)) ts))"
  defines "ws \<equiv> concat (map (\<lambda>t. waiters (ts_impls s t)) ts)"
  shows "ts_work (shutdown_impls ts s) = ts_work s - int (length ws) \<and>
    ts_destroyed (shutdown_impls ts s) = ts_destroyed s @ filter (\<lambda>w. w_handle (ts_nodes s w)) ws \<and>
    ts_deleted (shutdown_impls ts s) = ts_deleted s @ ts \<and> ts_free_list (shutdown_impls ts s) = ts_free_list s \<and>
    ts_heap (shutdown_impls ts s) = ts_heap s \<and> ts_shutting_down (shutdown_impls ts s) = ts_shutting_down s"
  using assms(1,2) unfolding ws_def
proof (induction ts arbitrary: s)
  case (Cons t ts)
  let ?ws = "waiters (ts_impls s t)" and ?rest = "concat (map (\<lambda>t. waiters (ts_impls s t)) ts)"
  let ?s1 = "delete_impl t (destroy_waiters ?ws (set_waiters t [] s))"
  have d: "distinct ?ws" "set ?ws \<inter> set ?rest = {}" using Cons.prems(2) by simp_all
  note f = destroy_waiters_fields [OF d(1), of "set_waiters t [] s"]
  have s1: "ts_impls ?s1 = (ts_impls s)(t := (ts_impls s t)\<lparr>waiters := []\<rparr>)" "ts_deleted ?s1 = ts_deleted s @ [t]"
    "ts_work ?s1 = ts_work s - int (length ?ws)" "ts_destroyed ?s1 = ts_destroyed s @ filter (\<lambda>w. w_handle (ts_nodes s w)) ?ws"
    "ts_free_list ?s1 = ts_free_list s" "ts_heap ?s1 = ts_heap s" "ts_shutting_down ?s1 = ts_shutting_down s"
    "v \<notin> set ?ws \<Longrightarrow> ts_nodes ?s1 v = ts_nodes s v" for v
    using f by (simp_all add: delete_impl_def) (simp_all add: setter_defs)
  have rest: "map (\<lambda>t. waiters (ts_impls ?s1 t)) ts = map (\<lambda>t. waiters (ts_impls s t)) ts"
    using Cons.prems(1) by (intro map_cong) (auto simp: s1(1))
  have "filter (\<lambda>w. w_handle (ts_nodes ?s1 w)) ?rest = filter (\<lambda>w. w_handle (ts_nodes s w)) ?rest"
  proof (rule filter_cong [OF refl])
    fix v assume "v \<in> set ?rest"
    then have "v \<notin> set ?ws" using d(2) by blast
    then show "w_handle (ts_nodes ?s1 v) = w_handle (ts_nodes s v)" by (rule arg_cong [OF s1(8)])
  qed
  moreover note Cons.IH [of ?s1, unfolded rest]
  ultimately show ?case using Cons.prems s1(2-7) by (simp add: rest)
qed simp

lemma delete_impls_eq: "delete_impls ts s = s\<lparr>ts_deleted := ts_deleted s @ ts\<rparr>"
  by (induction ts arbitrary: s) (simp_all add: delete_impl_def)

lemma tl_cache_destroy_waiters: "ts_tl_cache (destroy_waiters ws s) = ts_tl_cache s"
  by (induction ws arbitrary: s)
    (simp_all add: destroy_waiter_def reset_stop_cb_def work_finished_def setter_defs Let_def)

lemma tl_cache_shutdown_impls: "ts_tl_cache (shutdown_impls ts s) = ts_tl_cache s"
  by (induction ts arbitrary: s) (simp_all add: delete_impl_def tl_cache_destroy_waiters setter_defs)

abbreviation pending_waiters :: "timer_service \<Rightarrow> waiter_id list" where
  "pending_waiters s \<equiv> due_waiters s (ts_heap s)"

lemma shutdown_fields:
  assumes "service_inv s"
  shows "ts_deleted (ts_shutdown s) = ts_deleted s @ (case ts_tl_cache s of None \<Rightarrow> [] | Some t \<Rightarrow> [t]) @
      map snd (ts_heap s) @ ts_free_list s"
    "ts_work (ts_shutdown s) = ts_work s - int (length (pending_waiters s))"
    "ts_destroyed (ts_shutdown s) = ts_destroyed s @ filter (\<lambda>w. w_handle (ts_nodes s w)) (pending_waiters s)"
    "ts_heap (ts_shutdown s) = []" "ts_free_list (ts_shutdown s) = []" "ts_shutting_down (ts_shutdown s)"
    "ts_tl_cache (ts_shutdown s) = None"
proof -
  have t: "timer_inv s" using assms by (simp add: service_inv_def)
  define s1 where "s1 = (timer_service_invalidate_cache s)\<lparr>ts_shutting_down := True\<rparr>"
  define s2 where "s2 = (shutdown_detach (ts_heap s1) s1)\<lparr>ts_heap := [], ts_cached_nearest := time_max\<rparr>"
  have f1: "ts_heap s1 = ts_heap s" "ts_impls s1 = ts_impls s" "ts_nodes s1 = ts_nodes s" "ts_work s1 = ts_work s"
    "ts_destroyed s1 = ts_destroyed s" "ts_free_list s1 = ts_free_list s" "ts_shutting_down s1"
    "ts_tl_cache s1 = None" "ts_deleted s1 = ts_deleted s @ (case ts_tl_cache s of None \<Rightarrow> [] | Some t \<Rightarrow> [t])"
    by (simp_all add: s1_def timer_service_invalidate_cache_def delete_impl_def split: option.splits)
  have f2: "waiters (ts_impls s2 u) = waiters (ts_impls s u)" "ts_nodes s2 = ts_nodes s" "ts_work s2 = ts_work s"
    "ts_destroyed s2 = ts_destroyed s" "ts_free_list s2 = ts_free_list s" "ts_shutting_down s2" "ts_heap s2 = []"
    "ts_deleted s2 = ts_deleted s1" "ts_tl_cache s2 = None" for u
    using f1 by (simp_all add: s2_def shutdown_detach_fields)
  have ws: "concat (map (\<lambda>t. waiters (ts_impls s2 t)) (map snd (ts_heap s))) = pending_waiters s"
    by (simp add: f2(1) comp_def)
  have "distinct (ts_heap s)" "distinct (map snd (ts_heap s))"
    using heap_inv_distinct [OF core_invD(1) [OF timer_inv_core [OF t]]] by (simp_all add: distinct_map)
  note g = shutdown_impls_fields [OF this(2), of s2, unfolded ws, OF distinct_due [OF timer_inv_core [OF t] this(1)]]
  have sd: "ts_shutdown s = (delete_impls (ts_free_list (shutdown_impls (map snd (ts_heap s)) s2))
      (shutdown_impls (map snd (ts_heap s)) s2))\<lparr>ts_free_list := []\<rparr>"
    by (simp add: ts_shutdown_def s1_def [symmetric] Let_def) (simp add: s2_def f1(1))
  show "ts_deleted (ts_shutdown s) = ts_deleted s @ (case ts_tl_cache s of None \<Rightarrow> [] | Some t \<Rightarrow> [t]) @
      map snd (ts_heap s) @ ts_free_list s"
    "ts_work (ts_shutdown s) = ts_work s - int (length (pending_waiters s))"
    "ts_destroyed (ts_shutdown s) = ts_destroyed s @ filter (\<lambda>w. w_handle (ts_nodes s w)) (pending_waiters s)"
    "ts_heap (ts_shutdown s) = []" "ts_free_list (ts_shutdown s) = []" "ts_shutting_down (ts_shutdown s)"
    "ts_tl_cache (ts_shutdown s) = None"
    using g f1 f2 by (simp_all add: sd delete_impls_eq tl_cache_shutdown_impls)
qed

section \<open>A run\<close>

text \<open>One timer is created, set to expire at 100, and waited for at time 5.\<close>

definition sample_node :: waiter_node where
  "sample_node = \<lparr>w_impl = None, w_ec = None, w_stop_possible = True, w_stop_requested = False,
     w_cb_active = False, w_handle = False\<rparr>"

definition sample_set :: timer_service where
  "sample_set = snd (expires_at 0 100 (snd (construct (ts_init 0 (\<lambda>_. sample_node)))))"

definition sample_waiting :: timer_service where
  "sample_waiting = await_suspend 0 7 5 5 sample_set"

lemma sample_set_state:
  "ts_heap sample_set = []" "heap_index (ts_impls sample_set 0) = npos" "expiry (ts_impls sample_set 0) = 100"
  "waiters (ts_impls sample_set 0) = []" "ts_nodes sample_set = (\<lambda>_. sample_node)" "ts_posted sample_set = []"
  "ts_fresh sample_set = 1" "ts_free_list sample_set = []" "ts_tl_cache sample_set = None" "ts_work sample_set = 0"
  "ts_notified sample_set = 0" "ts_cached_nearest sample_set = time_max"
  by (simp_all add: sample_set_def construct_def try_pop_tl_cache_def ts_init_def expires_at_def new_impl_def
      upd_impl_def Let_def)

lemma sample_waiting_state:
  "ts_heap sample_waiting = [(100, 0)]" "waiters (ts_impls sample_waiting 0) = [7]" "ts_posted sample_waiting = []"
  "ts_notified sample_waiting = 1" "ts_fresh sample_waiting = 1" "ts_free_list sample_waiting = []"
  "ts_tl_cache sample_waiting = None" "ts_cached_nearest sample_waiting = 100"
  "w_handle (ts_nodes sample_waiting 7)"
proof -
  have "up_heap 0 s = s" for s by (subst up_heap.simps) simp
  then show "ts_heap sample_waiting = [(100, 0)]" "waiters (ts_impls sample_waiting 0) = [7]" "ts_posted sample_waiting = []"
    "ts_notified sample_waiting = 1" "ts_fresh sample_waiting = 1" "ts_free_list sample_waiting = []"
    "ts_tl_cache sample_waiting = None" "ts_cached_nearest sample_waiting = 100" "w_handle (ts_nodes sample_waiting 7)"
    by (simp_all add: sample_waiting_def await_suspend_def impl_wait_def timer_already_expired_def time_min_def
        arm_stop_cb_def cancel_waiter_def insert_waiter_def publish_waiter_def push_timer_def work_started_def
        setter_defs sample_set_state sample_node_def Let_def)
qed

lemma sample_reachable: "timer_reachable sample_set" "timer_reachable sample_waiting"
proof -
  have "timer_reachable (snd (construct (ts_init 0 (\<lambda>_. sample_node))))"
    by (rule timer_reachable.step [OF timer_reachable.start timer_step.create]) (simp add: sample_node_def)
  moreover have "live (snd (construct (ts_init 0 (\<lambda>_. sample_node)))) 0"
    by (simp add: live_def pool_def construct_def try_pop_tl_cache_def ts_init_def upd_impl_def Let_def)
  ultimately show r: "timer_reachable sample_set"
    unfolding sample_set_def by (rule timer_reachable.step [OF _ timer_step.set_expiry]) (simp add: time_max_def)
  have "live sample_set 0" "fresh_waiter 7 sample_set" "length (ts_heap sample_set) + 1 < npos"
    by (simp_all add: live_def pool_def sample_set_state fresh_waiter_def sample_node_def npos_def)
  with r show "timer_reachable sample_waiting"
    unfolding sample_waiting_def by (rule timer_reachable.step [OF _ timer_step.wait])
qed

lemma sample_live: "live sample_waiting 0" "live sample_set 0"
  by (simp_all add: live_def pool_def sample_waiting_state sample_set_state)

lemma count_list_distinct: "distinct xs \<Longrightarrow> x \<in> set xs \<Longrightarrow> count_list xs x = 1"
  by (induction xs) auto

section \<open>Properties\<close>

text \<open>
  C23: in every state the service can reach, the heap is ordered, each entry stands where its timer
  says it does and carries its timer's expiry, a timer is in the heap exactly while its flag says so, which includes
  every timer with waiters, a waiter is in the list of exactly the timer it points to and has not been posted,
  and the cached nearest expiry is the minimum of the heap.
\<close>

theorem timer_service_invariant:
  assumes "timer_reachable s"
  shows "heap_ok fst (ts_heap s) \<and> distinct (map snd (ts_heap s)) \<and>
    (\<forall>i < length (ts_heap s). heap_index (ts_impls s (snd (ts_heap s ! i))) = i) \<and>
    (\<forall>t. t \<notin> snd ` set (ts_heap s) \<longrightarrow> heap_index (ts_impls s t) = npos) \<and>
    (\<forall>e \<in> set (ts_heap s). fst e = expiry (ts_impls s (snd e))) \<and>
    (\<forall>t. might_have_pending_waits (ts_impls s t) \<longleftrightarrow> t \<in> snd ` set (ts_heap s)) \<and>
    (\<forall>t. waiters (ts_impls s t) \<noteq> [] \<longrightarrow> t \<in> snd ` set (ts_heap s)) \<and>
    (\<forall>t w. w \<in> set (waiters (ts_impls s t)) \<longleftrightarrow> w_impl (ts_nodes s w) = Some t) \<and>
    (\<forall>w \<in> set (ts_posted s). w_impl (ts_nodes s w) = None) \<and>
    nearest_expiry s = (if ts_heap s = [] then time_max else Min (fst ` set (ts_heap s)))"
proof -
  note t = reachable_timer_inv [OF assms]
  note c = core_invD [OF timer_inv_core [OF t]]
  have "heap_nearest s = Min (fst ` set (ts_heap s))" if ne: "ts_heap s \<noteq> []"
  proof (rule Min_eqI [symmetric])
    show "heap_nearest s \<in> fst ` set (ts_heap s)" using heap_nearest_root [OF ne] by force
  qed (use heap_nearest_le [OF c(1)] in auto)
  then have "nearest_expiry s = (if ts_heap s = [] then time_max else Min (fst ` set (ts_heap s)))"
    using nearest_expiry_inv [OF t] by (simp add: heap_nearest_def)
  moreover have "might_have_pending_waits (ts_impls s u) \<longleftrightarrow> u \<in> snd ` set (ts_heap s)" for u
    using c(3) heap_inv_member [OF c(1)] by blast
  moreover have "u \<in> snd ` set (ts_heap s)" if "waiters (ts_impls s u) \<noteq> []" for u
    using c(4) [OF that] heap_inv_member [OF c(1)] by blast
  ultimately show ?thesis
    using c(1,5) heap_inv_distinct [OF c(1)] waiters_okD(2,4) [OF c(2)]
    by (simp add: heap_inv_def index_ok_def indexed_def outside_npos_def)
qed

theorem timer_service_invariant_witness:
  "nearest_expiry sample_waiting = 100 \<and> Min (fst ` set (ts_heap sample_waiting)) = 100 \<and>
   w_impl (ts_nodes sample_waiting 7) = Some 0"
proof -
  note i = timer_service_invariant [OF sample_reachable(2)]
  then have "7 \<in> set (waiters (ts_impls sample_waiting 0)) \<longleftrightarrow> w_impl (ts_nodes sample_waiting 7) = Some 0" by blast
  with i show ?thesis by (simp add: sample_waiting_state)
qed



text \<open>
  C25: whenever a step makes the nearest expiry earlier, the callback for an earlier expiry has
  been invoked, so a scheduler blocked until the old expiry is woken.
\<close>

theorem timer_earlier_expiry_wakes:
  assumes "timer_reachable s" "timer_step s s'" "nearest_expiry s' < nearest_expiry s"
  shows "ts_notified s < ts_notified s'"
  using timer_step_keeps [OF assms(2) reachable_service_inv [OF assms(1)]] assms(3) by (simp add: keeps_def)

theorem timer_earlier_expiry_wakes_witness:
  "nearest_expiry sample_waiting < nearest_expiry sample_set \<and> ts_notified sample_set < ts_notified sample_waiting"
proof -
  have "timer_step sample_set sample_waiting"
    unfolding sample_waiting_def
    by (rule timer_step.wait [OF sample_live(2)])
      (simp_all add: sample_set_state fresh_waiter_def sample_node_def npos_def)
  moreover have "nearest_expiry sample_waiting < nearest_expiry sample_set"
    by (simp add: nearest_expiry_def sample_set_state sample_waiting_state time_max_def)
  ultimately show ?thesis using timer_earlier_expiry_wakes [OF sample_reachable(1)] by blast
qed

text \<open>
  C26: processing expired timers always returns. It takes exactly the timers due at the given time
  out of the heap and posts their waiters as successful, in the order of the expiries and for
  each timer in the order of the waits; the other timers, and the nodes of the other waiters, are
  as they were.
\<close>

theorem process_expired_correct:
  assumes "timer_reachable s"
  shows "\<exists>es s'. process_expired now s = Some (length (due_waiters s es), s') \<and>
    set es = {e \<in> set (ts_heap s). fst e \<le> now} \<and> distinct es \<and> sorted (map fst es) \<and>
    set (ts_heap s') = {e \<in> set (ts_heap s). now < fst e} \<and>
    ts_posted s' = ts_posted s @ due_waiters s es \<and>
    (\<forall>w. ts_nodes s' w = (if w \<in> set (due_waiters s es) then mark_expired (ts_nodes s w) else ts_nodes s w)) \<and>
    (\<forall>t. waiters (ts_impls s' t) = (if t \<in> snd ` set es then [] else waiters (ts_impls s t)))"
proof -
  obtain es s1 s' where "process_expired now s = Some (length (due_waiters s es), s')" "expired_to now s es s1"
    "ts_impls s' = ts_impls s1" "ts_heap s' = ts_heap s1" "ts_nodes s' = ts_nodes s1"
    "ts_posted s' = ts_posted s @ due_waiters s es"
    using process_expired_spec [OF reachable_timer_inv [OF assms], of now] by metis
  then show ?thesis by (intro exI [of _ es] exI [of _ s']) (simp add: expired_to_def detached_nodes_def)
qed

theorem process_expired_correct_witness:
  "\<exists>s'. process_expired 100 sample_waiting = Some (1, s') \<and> ts_posted s' = [7] \<and> ts_heap s' = []"
proof -
  have "{e \<in> set (ts_heap sample_waiting). fst e \<le> 100} = {(100, 0)}" "{e \<in> set (ts_heap sample_waiting). 100 < fst e} = {}"
    by (auto simp: sample_waiting_state)
  from process_expired_correct [OF sample_reachable(2), of 100, unfolded this] obtain es s' where
    *: "process_expired 100 sample_waiting = Some (length (due_waiters sample_waiting es), s')" "set es = {(100, 0)}"
    "distinct es" "set (ts_heap s') = {}" "ts_posted s' = ts_posted sample_waiting @ due_waiters sample_waiting es"
    by blast
  from *(2,3) have "es = [(100, 0)]" by (cases es; cases "tl es") auto
  with * show ?thesis by (simp add: sample_waiting_state)
qed

text \<open>
  C27: cancelling a timer completes all its waiters with the canceled error in the order of the
  waits, returns how many there were, and takes the timer out of the heap; \<open>cancel_one\<close> does so for
  the oldest waiter only, and the timer stays in the heap while others wait.
\<close>

theorem timer_cancel_correct:
  assumes "timer_reachable s" "timer_cancel t s = (n, s1)" "timer_cancel_one t s = (k, s2)"
  shows "n = length (waiters (ts_impls s t)) \<and> ts_posted s1 = ts_posted s @ waiters (ts_impls s t) \<and>
    waiters (ts_impls s1 t) = [] \<and> set (ts_heap s1) = {e \<in> set (ts_heap s). snd e \<noteq> t} \<and>
    (\<forall>w. ts_nodes s1 w = (if w \<in> set (waiters (ts_impls s t)) then mark_canceled (ts_nodes s w) else ts_nodes s w)) \<and>
    k = length (take 1 (waiters (ts_impls s t))) \<and> ts_posted s2 = ts_posted s @ take 1 (waiters (ts_impls s t)) \<and>
    waiters (ts_impls s2 t) = drop 1 (waiters (ts_impls s t)) \<and>
    (length (waiters (ts_impls s t)) > 1 \<longrightarrow> set (ts_heap s2) = set (ts_heap s)) \<and>
    (\<forall>w. ts_nodes s2 w = (if w \<in> set (take 1 (waiters (ts_impls s t))) then mark_canceled (ts_nodes s w) else ts_nodes s w))"
proof -
  note t = reachable_timer_inv [OF assms(1)]
  note c = timer_inv_core [OF t]
  have idle: "\<not> might_have_pending_waits (ts_impls s t) \<Longrightarrow> waiters (ts_impls s t) = []"
    by (rule idle_timer(1) [OF c])
  have one: "(k, s2) = cancel_one_waiter t s" using assms(3) idle cancel_one_none
    by (auto simp: timer_cancel_one_def split: if_splits)
  have all: "(n, s1) = cancel_timer t s" using assms(2) by (auto simp: timer_cancel_def cancel_timer_def split: if_splits)
  then have s1: "s1 = snd (cancel_timer t s)" and n: "n = fst (cancel_timer t s)" by (metis snd_conv, metis fst_conv)
  note f = cancel_timer_fields [OF t s1]
  show ?thesis
  proof (cases "waiters (ts_impls s t)")
    case Nil
    then show ?thesis using f(2,5,6,11) n one cancel_one_none [OF Nil] f(1) by (simp add: detached_nodes_def)
  next
    case (Cons w ws)
    then have k: "k = 1" "s2 = cancel_waiter w s" using one cancel_one_is_cancel_waiter [OF t Cons] by simp_all
    have w: "w \<in> set (waiters (ts_impls s t))" using Cons by simp
    note s2 = k(2) [unfolded cancel_waiter_pending [OF t w]]
    note g = undo_insert_fields [OF c refl, where t = t and w = w] and i = undo_insert_inv(2,3) [OF c w]
    have "ts_impls s2 = ts_impls (undo_insert t w s)" "ts_heap s2 = ts_heap (undo_insert t w s)"
      unfolding s2 by (simp_all add: setter_defs)
    then show ?thesis
      using f(2,5,6,11) n f(1) i k(1) g(1,10) Cons by (simp add: detached_nodes_def s2 last_waiter_def)
  qed
qed

theorem timer_cancel_correct_witness:
  "\<exists>s1. timer_cancel 0 sample_waiting = (1, s1) \<and> ts_posted s1 = [7] \<and> w_ec (ts_nodes s1 7) = Some canceled"
proof -
  obtain n s1 k s2 where r: "timer_cancel 0 sample_waiting = (n, s1)" "timer_cancel_one 0 sample_waiting = (k, s2)"
    by (metis prod.exhaust)
  note c = timer_cancel_correct [OF sample_reachable(2) r]
  then have "ts_nodes s1 7 = mark_canceled (ts_nodes sample_waiting 7)" by (simp add: sample_waiting_state)
  with c r show ?thesis by (simp add: sample_waiting_state)
qed

text \<open>
  C28: a wait has one of three outcomes. On a timer that is idle and past its expiry it completes
  at once with success and counts no work. When stop has been requested, even before the wait,
  it is posted once with the canceled error and the waiters of every timer are as before.
  Otherwise the waiter is the last of its timer, which is in the heap at its expiry. In the last two
  cases one unit of work is counted.
\<close>

theorem timer_wait_outcomes:
  assumes "timer_reachable s" "live s t" "fresh_waiter w s" "length (ts_heap s) + 1 < npos"
    and "s' = impl_wait t w now s"
  shows "if timer_already_expired t now s then
      ts_resumed s' = ts_resumed s @ [w] \<and> w_ec (ts_nodes s' w) = None \<and> ts_posted s' = ts_posted s \<and>
      ts_work s' = ts_work s \<and> ts_impls s' = ts_impls s
    else ts_work s' = ts_work s + 1 \<and> ts_resumed s' = ts_resumed s \<and>
      (if w_stop_requested (ts_nodes s w) then
        ts_posted s' = ts_posted s @ [w] \<and> w_ec (ts_nodes s' w) = Some canceled \<and>
        (\<forall>u. waiters (ts_impls s' u) = waiters (ts_impls s u))
      else ts_posted s' = ts_posted s \<and> (\<exists>x. (x, t) \<in> set (ts_heap s') \<and> x = expiry (ts_impls s t)) \<and>
        (\<forall>u. waiters (ts_impls s' u) = (if u = t then waiters (ts_impls s t) @ [w] else waiters (ts_impls s u))))"
proof (cases "timer_already_expired t now s")
  case True
  then show ?thesis by (simp add: assms(5) impl_wait_def resume_post_def setter_defs)
next
  case False
  note i = reachable_timer_inv [OF assms(1)]
  have nw: "w \<notin> set (waiters (ts_impls s u))" for u
    using waiters_okD(2) [OF core_invD(2) [OF timer_inv_core [OF i]], of w u] assms(3) by (simp add: fresh_waiter_def)
  show ?thesis
  proof (rule impl_wait_cases [OF i assms(3,4) False])
    fix s1 assume st: "w_stop_requested (ts_nodes s w)" "timer_inv s1" "w \<in> set (waiters (ts_impls s1 t))"
      "impl_wait t w now s = sched_post w (upd_node w (w_ec_update (\<lambda>_. Some canceled)) (undo_insert t w s1))"
      "\<exists>n. published t w (set_flag t True (wait_base w s)) n s1"
    from st(5) obtain n where "published t w (set_flag t True (wait_base w s)) n s1" ..
    note f = wait_published [OF this] and g = undo_insert_fields [OF timer_inv_core [OF st(2)] refl, where t = t and w = w]
    show ?thesis
      using False st(1) nw by (simp add: assms(5) st(4)) (simp add: setter_defs g(1,5,6,7) f(1,4,9,10) remove1_append)
  next
    fix n s1 assume st: "\<not> w_stop_requested (ts_nodes s w)" "timer_inv s1"
      "published t w (set_flag t True (wait_base w s)) n s1" "impl_wait t w now s = (if n then notify_earliest s1 else s1)"
    note f = wait_published [OF st(3)] and d = core_invD [OF timer_inv_core [OF st(2)]]
    have "t \<in> snd ` set (ts_heap s1)" using d(4) [of t] f(1) [of t] heap_inv_member [OF d(1), of t] by simp
    then obtain e where "e \<in> set (ts_heap s1)" "snd e = t" by auto
    then have "(expiry (ts_impls s t), t) \<in> set (ts_heap s1)" using d(5) [of e] f(3) [of t] by (metis prod.collapse)
    then show ?thesis
      using False st(1) by (simp add: assms(5) st(4) notify_earliest_def f(1,4,9,10))
  qed
qed

theorem timer_wait_outcomes_witness:
  "ts_work (impl_wait 0 7 5 sample_set) = 1 \<and> waiters (ts_impls (impl_wait 0 7 5 sample_set) 0) = [7]"
proof -
  have "fresh_waiter 7 sample_set" "length (ts_heap sample_set) + 1 < npos"
    by (simp_all add: fresh_waiter_def sample_set_state sample_node_def npos_def)
  from timer_wait_outcomes [OF sample_reachable(1) sample_live(2) this refl, of 5] show ?thesis
    by (simp add: timer_already_expired_def sample_set_state time_min_def sample_node_def)
qed

text \<open>
  C29: creating a timer never hands out an implementation that a live timer uses, and a recycled
  one is indistinguishable from a new one: no expiry, no waiters, not in the heap; all other
  timers are untouched. Destroying a timer cancels its waits and makes its implementation available again.
\<close>

theorem timer_create_destroy:
  assumes "timer_reachable s" "construct s = (t, s')" "live s u" "s'' = ts_destroy u s"
  shows "\<not> live s t \<and> live s' t \<and> expiry (ts_impls s' t) = 0 \<and> waiters (ts_impls s' t) = [] \<and>
    heap_index (ts_impls s' t) = npos \<and> \<not> might_have_pending_waits (ts_impls s' t) \<and>
    (\<forall>v. v \<noteq> t \<longrightarrow> ts_impls s' v = ts_impls s v \<and> (live s' v \<longleftrightarrow> live s v)) \<and>
    \<not> live s'' u \<and> ts_posted s'' = ts_posted s @ waiters (ts_impls s u) \<and> u \<in> set (pool s'')"
proof -
  note i = reachable_service_inv [OF assms(1)]
  have "ts_fresh s'' = ts_fresh s"
    using pool_view_eq(5) [of "snd (cancel_timer u s)" s] by (simp add: assms(4) destroy_eq [OF i] split: option.splits)
  then have "u \<in> set (pool s'')" using service_inv_destroy(2) [OF i assms(3)] assms(3,4) by (auto simp: live_def)
  then show ?thesis
    using construct_spec [OF i assms(2)] service_inv_destroy [OF i assms(3)] by (simp add: assms(4))
qed

theorem timer_create_destroy_witness:
  "\<exists>t s'. construct sample_waiting = (t, s') \<and> t \<noteq> 0 \<and> live s' t \<and> \<not> live (ts_destroy 0 sample_waiting) 0 \<and>
    ts_posted (ts_destroy 0 sample_waiting) = [7]"
proof -
  obtain t s' where c: "construct sample_waiting = (t, s')" by (rule prod.exhaust)
  note d = timer_create_destroy [OF sample_reachable(2) c sample_live(1) refl]
  have "t \<noteq> 0" using d sample_live(1) by metis
  with c d show ?thesis by (simp add: sample_waiting_state)
qed

text \<open>
  C30: shutdown releases every pending waiter once: their work is given back and their frames are
  destroyed. It deletes each cached, queued and free implementation exactly once. An
  implementation of a live timer with no pending wait is not among them, and the later destruction of that timer does not
  delete it either, so it is leaked.
\<close>

theorem timer_shutdown_releases:
  assumes "timer_reachable s" "s' = ts_shutdown s"
  shows "ts_work s' = ts_work s - int (length (pending_waiters s)) \<and>
    ts_destroyed s' = ts_destroyed s @ filter (\<lambda>w. w_handle (ts_nodes s w)) (pending_waiters s) \<and>
    ts_heap s' = [] \<and> pool s' = [] \<and>
    (\<exists>del. ts_deleted s' = ts_deleted s @ del \<and> distinct del \<and>
       (\<forall>t. t < ts_fresh s \<longrightarrow> (t \<in> set del \<longleftrightarrow> \<not> live s t \<or> might_have_pending_waits (ts_impls s t)))) \<and>
    ts_destroy t s' = s'"
proof -
  note i = reachable_service_inv [OF assms(1)] and c = core_invD [OF timer_inv_core [OF reachable_timer_inv [OF assms(1)]]]
  note f = shutdown_fields [OF i, folded assms(2)]
  let ?cache = "case ts_tl_cache s of None \<Rightarrow> [] | Some t \<Rightarrow> [t]"
  let ?del = "?cache @ map snd (ts_heap s) @ ts_free_list s"
  have m: "might_have_pending_waits (ts_impls s u) \<longleftrightarrow> u \<in> snd ` set (ts_heap s)" for u
    using c(3) heap_inv_member [OF c(1)] by blast
  have sep: "u \<notin> set (pool s)" if "u \<in> snd ` set (ts_heap s)" for u
    using m that i by (auto simp: service_inv_def pool_ok_def live_def)
  have "distinct (pool s)" using i by (simp add: service_inv_def pool_ok_def)
  then have "distinct ?del"
    using heap_inv_distinct [OF c(1)] sep by (auto simp: pool_def split: option.splits)
  moreover have "t \<in> set ?del \<longleftrightarrow> \<not> live s t \<or> might_have_pending_waits (ts_impls s t)" if "t < ts_fresh s" for t
    using that m by (auto simp: live_def pool_def)
  ultimately show ?thesis using f by (auto simp: pool_def ts_destroy_def)
qed

theorem timer_shutdown_releases_witness:
  "ts_work (ts_shutdown sample_waiting) = ts_work sample_waiting - 1 \<and> ts_destroyed (ts_shutdown sample_waiting) = ts_destroyed sample_waiting @ [7] \<and>
   (\<exists>del. ts_deleted (ts_shutdown sample_set) = ts_deleted sample_set @ del \<and> 0 \<notin> set del) \<and>
   ts_destroy 0 (ts_shutdown sample_set) = ts_shutdown sample_set"
proof -
  have "\<not> might_have_pending_waits (ts_impls sample_set 0)"
    using core_invD(3) [OF timer_inv_core [OF reachable_timer_inv [OF sample_reachable(1)]], of 0]
    by (simp add: sample_set_state)
  then show ?thesis
    using timer_shutdown_releases [OF sample_reachable(2) refl] timer_shutdown_releases [OF sample_reachable(1) refl, of 0]
      sample_live(2) sample_set_state(7)
    by (auto simp: sample_waiting_state)
qed

end
