(* ===== verification/Op_Completion.thy ===== *)
theory Op_Completion
  imports Corosio_Prelude
begin

text \<open>
  Results of input/output operations: the conversion of error numbers (native/detail/make_err.hpp),
  the priority of cancellation, errors and end of file (coro_op_complete.hpp), the operation
  envelope (coro_op.hpp) and the hint for speculative system calls (speculative_state.hpp).
\<close>

section \<open>Error numbers\<close>

text \<open>The POSIX error numbers the sources name, with their Linux values.\<close>

definition EINTR :: int where "EINTR = 4"

definition EIO :: int where "EIO = 5"

definition EAGAIN :: int where "EAGAIN = 11"

definition EWOULDBLOCK :: int where "EWOULDBLOCK = 11"

definition ENOENT :: int where "ENOENT = 2"

definition EINVAL :: int where "EINVAL = 22"

definition EINPROGRESS :: int where "EINPROGRESS = 115"

definition ECANCELED :: int where "ECANCELED = 125"

lemmas errno_defs = EINTR_def EIO_def EAGAIN_def EWOULDBLOCK_def ENOENT_def EINVAL_def EINPROGRESS_def ECANCELED_def

text \<open>
  An error code is empty, one of the two conditions of \<^verbatim>\<open>capy::error\<close> that the library reports, or a
  value of the system category.
\<close>

datatype io_error = no_error | error_canceled | error_eof | system_error int

definition make_err :: "int \<Rightarrow> io_error" where
  "make_err errn =
     (if errn = 0 then no_error
      else if errn = ECANCELED then error_canceled
      else system_error errn)"

definition make_err_windows :: "u32 \<Rightarrow> io_error" where
  "make_err_windows dwError =
     (if dwError = 0 then no_error
      else if dwError = 995 \<or> dwError = 1223 then error_canceled
      else if dwError = 38 then error_eof
      else system_error (sint dwError))"

lemma make_err_no_error [simp]: "make_err errn = no_error \<longleftrightarrow> errn = 0"
  by (simp add: make_err_def)

section \<open>Decoding a result\<close>

text \<open>\<open>None\<close> stands for a null output pointer, through which nothing is written.\<close>

definition decode_io_result :: "bool \<Rightarrow> bool \<Rightarrow> io_error \<Rightarrow> bool \<Rightarrow> nat \<Rightarrow> bool \<Rightarrow> io_error option" where
  "decode_io_result ec_out cancelled err is_read bytes empty_buffer =
     (if \<not> ec_out then None
      else if cancelled then Some error_canceled
      else if err \<noteq> no_error then Some err
      else if is_read \<and> bytes = 0 \<and> \<not> empty_buffer then Some error_eof
      else Some no_error)"

section \<open>System calls\<close>

text \<open>
  A system call returns a count, a descriptor or an option value, or fails with an error number. The
  calls that the sources repeat while they fail with \<^verbatim>\<open>EINTR\<close> are represented by the result with which
  the loop ends.
\<close>

datatype sys_result = sys_ok nat | sys_fail int

fun io_result :: "sys_result \<Rightarrow> int \<times> nat" where
  "io_result (sys_ok n) = (0, n)"
| "io_result (sys_fail e) = (e, 0)"

section \<open>Speculative system calls\<close>

record speculative_state =
  try_read :: bool
  try_write :: bool
  read_eagain_streak :: int
  perma_off_read :: bool

definition max_read_failures :: int where
  "max_read_failures = 4"

definition speculative_init :: speculative_state where
  "speculative_init = \<lparr>try_read = True, try_write = True, read_eagain_streak = 0, perma_off_read = False\<rparr>"

definition may_speculate_read :: "speculative_state \<Rightarrow> bool" where
  "may_speculate_read s \<longleftrightarrow> try_read s \<and> \<not> perma_off_read s"

definition may_speculate_write :: "speculative_state \<Rightarrow> bool" where
  "may_speculate_write s \<longleftrightarrow> try_write s"

definition on_read_exhausted :: "speculative_state \<Rightarrow> speculative_state" where
  "on_read_exhausted s =
     (let s1 = s\<lparr>try_read := False\<rparr>; n = read_eagain_streak s1 in
      if n < max_read_failures then
        let n' = n + 1; s2 = s1\<lparr>read_eagain_streak := n'\<rparr> in
        if n' \<ge> max_read_failures then s2\<lparr>perma_off_read := True\<rparr> else s2
      else s1)"

definition on_read_success :: "speculative_state \<Rightarrow> speculative_state" where
  "on_read_success s = (if read_eagain_streak s \<noteq> 0 then s\<lparr>read_eagain_streak := 0\<rparr> else s)"

definition on_write_exhausted :: "speculative_state \<Rightarrow> speculative_state" where
  "on_write_exhausted s = s\<lparr>try_write := False\<rparr>"

definition on_async_read_ready :: "speculative_state \<Rightarrow> speculative_state" where
  "on_async_read_ready s = (if \<not> perma_off_read s then s\<lparr>try_read := True\<rparr> else s)"

definition on_async_write_ready :: "speculative_state \<Rightarrow> speculative_state" where
  "on_async_write_ready s = s\<lparr>try_write := True\<rparr>"

text \<open>The events the socket code reports to the hint.\<close>

datatype spec_event = Read_exhausted | Read_success | Write_exhausted | Async_read | Async_write

fun spec_step :: "spec_event \<Rightarrow> speculative_state \<Rightarrow> speculative_state" where
  "spec_step Read_exhausted s = on_read_exhausted s"
| "spec_step Read_success s = on_read_success s"
| "spec_step Write_exhausted s = on_write_exhausted s"
| "spec_step Async_read s = on_async_read_ready s"
| "spec_step Async_write s = on_async_write_ready s"

definition spec_run :: "spec_event list \<Rightarrow> speculative_state \<Rightarrow> speculative_state" where
  "spec_run es s = fold spec_step es s"

text \<open>
  The number of exhausted reads since the last successful one, stopping at the fourth: the history that decides
  whether speculation has been given up.
\<close>

fun strikes :: "nat \<Rightarrow> spec_event list \<Rightarrow> nat" where
  "strikes n [] = n"
| "strikes n (Read_exhausted # es) = (if n + 1 = 4 then 4 else strikes (n + 1) es)"
| "strikes n (Read_success # es) = strikes 0 es"
| "strikes n (_ # es) = strikes n es"

definition spec_ok :: "nat \<Rightarrow> speculative_state \<Rightarrow> bool" where
  "spec_ok n s \<longleftrightarrow> n < 4 \<and> read_eagain_streak s = int n \<and> \<not> perma_off_read s"

lemma perma_off_latched: "perma_off_read s \<Longrightarrow> perma_off_read (spec_step e s)"
  by (cases e) (auto simp: on_read_exhausted_def on_read_success_def on_write_exhausted_def
      on_async_read_ready_def on_async_write_ready_def Let_def)

lemma perma_off_run: "perma_off_read s \<Longrightarrow> perma_off_read (spec_run es s)"
  unfolding spec_run_def by (induction es arbitrary: s) (simp_all add: perma_off_latched)

lemma spec_run_strikes:
  "spec_ok n s \<Longrightarrow> perma_off_read (spec_run es s) \<longleftrightarrow> strikes n es = 4"
proof (induction es arbitrary: n s)
  case Nil
  then show ?case by (simp add: spec_run_def spec_ok_def)
next
  case (Cons e es)
  show ?case
  proof (cases "e = Read_exhausted \<and> n = 3")
    case True
    then have "perma_off_read (spec_step e s)"
      using Cons.prems by (simp add: spec_ok_def on_read_exhausted_def max_read_failures_def Let_def)
    then show ?thesis using True perma_off_run [of "spec_step e s" es] by (simp add: spec_run_def)
  next
    case False
    define m where "m = (if e = Read_exhausted then n + 1 else if e = Read_success then 0 else n)"
    have "spec_ok m (spec_step e s)"
      using Cons.prems False
      by (cases e) (auto simp: m_def spec_ok_def on_read_exhausted_def on_read_success_def on_write_exhausted_def
          on_async_read_ready_def on_async_write_ready_def max_read_failures_def Let_def)
    moreover have "strikes n (e # es) = strikes m es" using False Cons.prems by (cases e) (auto simp: m_def spec_ok_def)
    ultimately show ?thesis using Cons.IH by (simp add: spec_run_def)
  qed
qed

end
