(* ===== verification/Reactor_Scheduler.thy ===== *)
theory Reactor_Scheduler
  imports Op_Completion
begin

text \<open>
  The scheduler shared by the readiness back ends (reactor/reactor_scheduler.hpp): work counting,
  private and global queues, the signal state, the inline completion budget and the event loop.

  The ready queues are the lists that the tagged queues of theory \<open>Ready_Queue\<close> represent. The state is
  what one thread sees: the shared fields and its own stack of context frames. What an entry does when it
  runs, the poll of the reactor and what other threads do while this one waits are arguments of the
  loop. Records are extensible, so the sockets of the reactor live beside the scheduler in one state.
\<close>

section \<open>State\<close>

text \<open>
  The operations that are queued: an operation object of a socket, the descriptor state of a socket,
  a completion of another service, and the handler that \<open>post\<close> allocates for a coroutine.
\<close>

datatype op_id = conn | rd | wr | wait_rd | wait_wr | wait_er | recv_rd | send_wr | acc

datatype sched_op = sock_op nat op_id | desc_op nat | service_op nat | post_handler nat

datatype entry = task_entry | op_entry sched_op | cont_entry nat

record scheduler_context =
  private_queue :: "entry list"
  private_outstanding_work :: int
  inline_budget :: int
  ctx_budget_max :: int
  unassisted :: bool

record reactor_scheduler =
  self_key :: nat
  context_stack :: "(nat \<times> scheduler_context) list"
  completed_ops :: "entry list"
  outstanding_work :: int
  stopped_flag :: bool
  task_running :: bool
  task_interrupted :: bool
  max_events_per_poll :: nat
  inline_budget_initial :: nat
  inline_budget_max :: nat
  unassisted_budget :: nat
  state_word :: nat
  one_thread :: bool
  scheduler_locking_disabled :: bool
  reactor_io_locking :: bool
  notified_one :: nat
  notified_all :: nat
  eventfd_armed :: bool
  eventfd_value :: nat
  thrown :: "io_error option"

definition INT_MAX :: nat where
  "INT_MAX = 2 ^ 31 - 1"

text \<open>
  The value of a 32-bit signed expression, wrapping around. Overflow is undefined in the source
  language; the theorems that rely on a budget bound it so that nothing wraps.
\<close>

definition wrap_int :: "int \<Rightarrow> int" where
  "wrap_int x = (x + 2 ^ 31) mod 2 ^ 32 - 2 ^ 31"

lemma wrap_int_id: "- (2 ^ 31) \<le> x \<Longrightarrow> x < 2 ^ 31 \<Longrightarrow> wrap_int x = x"
  by (simp add: wrap_int_def)

section \<open>Context frames\<close>

fun reactor_find_context :: "nat \<Rightarrow> (nat \<times> scheduler_context) list \<Rightarrow> scheduler_context option" where
  "reactor_find_context self [] = None"
| "reactor_find_context self ((k, c) # cs) = (if k = self then Some c else reactor_find_context self cs)"

fun update_context :: "nat \<Rightarrow> (scheduler_context \<Rightarrow> scheduler_context) \<Rightarrow> (nat \<times> scheduler_context) list \<Rightarrow>
    (nat \<times> scheduler_context) list" where
  "update_context self f [] = []"
| "update_context self f ((k, c) # cs) = (if k = self then (k, f c) # cs else (k, c) # update_context self f cs)"

definition find_context :: "'a reactor_scheduler_scheme \<Rightarrow> scheduler_context option" where
  "find_context s = reactor_find_context (self_key s) (context_stack s)"

definition upd_context :: "(scheduler_context \<Rightarrow> scheduler_context) \<Rightarrow> 'a reactor_scheduler_scheme \<Rightarrow>
    'a reactor_scheduler_scheme" where
  "upd_context f s = s\<lparr>context_stack := update_context (self_key s) f (context_stack s)\<rparr>"

definition new_context :: "'a reactor_scheduler_scheme \<Rightarrow> scheduler_context" where
  "new_context s = \<lparr>private_queue = [], private_outstanding_work = 0, inline_budget = 0,
     ctx_budget_max = wrap_int (int (inline_budget_initial s)), unassisted = False\<rparr>"

definition running_in_this_thread :: "'a reactor_scheduler_scheme \<Rightarrow> bool" where
  "running_in_this_thread s \<longleftrightarrow> find_context s \<noteq> None"

section \<open>Configuration and the inline budget\<close>

datatype config_error = out_of_range

definition configure_reactor :: "nat \<Rightarrow> nat \<Rightarrow> nat \<Rightarrow> nat \<Rightarrow> 'a reactor_scheduler_scheme \<Rightarrow>
    config_error + 'a reactor_scheduler_scheme" where
  "configure_reactor max_events budget_init budget_max unassist s =
     (if max_events < 1 \<or> max_events > INT_MAX then Inl out_of_range
      else if budget_max > INT_MAX then Inl out_of_range
      else
        let budget_init' = (if budget_init > budget_max then budget_max else budget_init);
            unassist' = (if unassist > budget_max then budget_max else unassist) in
        Inr (s\<lparr>max_events_per_poll := max_events, inline_budget_initial := budget_init',
          inline_budget_max := budget_max, unassisted_budget := unassist'\<rparr>))"

definition configure_threading :: "bool \<Rightarrow> bool \<Rightarrow> bool \<Rightarrow> 'a reactor_scheduler_scheme \<Rightarrow> 'a reactor_scheduler_scheme" where
  "configure_threading locking io_locking one s =
     s\<lparr>scheduler_locking_disabled := \<not> locking, reactor_io_locking := io_locking, one_thread := one\<rparr>"

definition reset_budget :: "'a reactor_scheduler_scheme \<Rightarrow> scheduler_context \<Rightarrow> scheduler_context" where
  "reset_budget s c =
     (if unassisted c then
        c\<lparr>ctx_budget_max := wrap_int (int (unassisted_budget s)), inline_budget := wrap_int (int (unassisted_budget s))\<rparr>
      else
        let m = (if inline_budget c = 0
                 then min (wrap_int (max 1 (ctx_budget_max c) * 2)) (wrap_int (int (inline_budget_max s)))
                 else if inline_budget c < ctx_budget_max c then wrap_int (int (inline_budget_initial s))
                 else ctx_budget_max c) in
        c\<lparr>ctx_budget_max := m, inline_budget := m\<rparr>)"

definition reset_inline_budget :: "'a reactor_scheduler_scheme \<Rightarrow> 'a reactor_scheduler_scheme" where
  "reset_inline_budget s =
     (if inline_budget_max s = 0 then s
      else (case find_context s of None \<Rightarrow> s | Some c \<Rightarrow> upd_context (reset_budget s) s))"

definition try_consume_inline_budget :: "'a reactor_scheduler_scheme \<Rightarrow> bool \<times> 'a reactor_scheduler_scheme" where
  "try_consume_inline_budget s =
     (if inline_budget_max s = 0 then (False, s)
      else (case find_context s of
        None \<Rightarrow> (False, s)
      | Some c \<Rightarrow>
          if inline_budget c > 0 then (True, upd_context (\<lambda>c. c\<lparr>inline_budget := inline_budget c - 1\<rparr>) s)
          else (False, s)))"

section \<open>Signals\<close>

text \<open>Bit 0 of \<^verbatim>\<open>state_\<close> is the signal, the rest counts the waiting threads in steps of two.\<close>

definition signaled_bit :: nat where
  "signaled_bit = 1"

definition waiter_increment :: nat where
  "waiter_increment = 2"

definition set_signal :: "nat \<Rightarrow> nat" where
  "set_signal w = (if odd w then w else w + signaled_bit)"

definition signal_all :: "'a reactor_scheduler_scheme \<Rightarrow> 'a reactor_scheduler_scheme" where
  "signal_all s = s\<lparr>state_word := set_signal (state_word s), notified_all := notified_all s + 1\<rparr>"

definition maybe_unlock_and_signal_one :: "'a reactor_scheduler_scheme \<Rightarrow> bool \<times> 'a reactor_scheduler_scheme" where
  "maybe_unlock_and_signal_one s =
     (let s1 = s\<lparr>state_word := set_signal (state_word s)\<rparr> in
      if state_word s1 > signaled_bit then (True, s1\<lparr>notified_one := notified_one s1 + 1\<rparr>) else (False, s1))"

definition unlock_and_signal_one :: "'a reactor_scheduler_scheme \<Rightarrow> bool \<times> 'a reactor_scheduler_scheme" where
  "unlock_and_signal_one s =
     (let s1 = s\<lparr>state_word := set_signal (state_word s)\<rparr>;
          have_waiters = state_word s1 > signaled_bit in
      (have_waiters, if have_waiters then s1\<lparr>notified_one := notified_one s1 + 1\<rparr> else s1))"

definition clear_signal :: "'a reactor_scheduler_scheme \<Rightarrow> 'a reactor_scheduler_scheme" where
  "clear_signal s = s\<lparr>state_word := (if odd (state_word s) then state_word s - signaled_bit else state_word s)\<rparr>"

text \<open>The epoll back end interrupts its poll by writing to an event descriptor, once until it is drained.\<close>

definition interrupt_reactor :: "'a reactor_scheduler_scheme \<Rightarrow> 'a reactor_scheduler_scheme" where
  "interrupt_reactor s =
     (if \<not> eventfd_armed s then s\<lparr>eventfd_armed := True, eventfd_value := eventfd_value s + 1\<rparr> else s)"

definition wake_one_thread_and_unlock :: "'a reactor_scheduler_scheme \<Rightarrow> 'a reactor_scheduler_scheme" where
  "wake_one_thread_and_unlock s = (case maybe_unlock_and_signal_one s of
     (True, s1) \<Rightarrow> s1
   | (False, s1) \<Rightarrow>
       if task_running s1 \<and> \<not> task_interrupted s1
       then interrupt_reactor (s1\<lparr>task_interrupted := True\<rparr>) else s1)"

section \<open>Work\<close>

definition stop :: "'a reactor_scheduler_scheme \<Rightarrow> 'a reactor_scheduler_scheme" where
  "stop s = (if \<not> stopped_flag s then interrupt_reactor (signal_all (s\<lparr>stopped_flag := True\<rparr>)) else s)"

definition restart :: "'a reactor_scheduler_scheme \<Rightarrow> 'a reactor_scheduler_scheme" where
  "restart s = s\<lparr>stopped_flag := False\<rparr>"

definition sched_work_started :: "'a reactor_scheduler_scheme \<Rightarrow> 'a reactor_scheduler_scheme" where
  "sched_work_started s = s\<lparr>outstanding_work := outstanding_work s + 1\<rparr>"

definition sched_work_finished :: "'a reactor_scheduler_scheme \<Rightarrow> 'a reactor_scheduler_scheme" where
  "sched_work_finished s =
     (let s1 = s\<lparr>outstanding_work := outstanding_work s - 1\<rparr> in
      if outstanding_work s = 1 then stop s1 else s1)"

definition compensating_work_started :: "'a reactor_scheduler_scheme \<Rightarrow> 'a reactor_scheduler_scheme" where
  "compensating_work_started s = (case find_context s of
     None \<Rightarrow> s
   | Some c \<Rightarrow> upd_context (\<lambda>c. c\<lparr>private_outstanding_work := private_outstanding_work c + 1\<rparr>) s)"

text \<open>The three overloads of \<open>post\<close>, for an operation, a coroutine and a continuation.\<close>

definition post_entry :: "entry \<Rightarrow> 'a reactor_scheduler_scheme \<Rightarrow> 'a reactor_scheduler_scheme" where
  "post_entry e s = (case find_context s of
     Some c \<Rightarrow> upd_context (\<lambda>c. c\<lparr>private_outstanding_work := private_outstanding_work c + 1,
       private_queue := private_queue c @ [e]\<rparr>) s
   | None \<Rightarrow>
       let s1 = s\<lparr>outstanding_work := outstanding_work s + 1\<rparr> in
       wake_one_thread_and_unlock (s1\<lparr>completed_ops := completed_ops s1 @ [e]\<rparr>))"

definition post_op :: "sched_op \<Rightarrow> 'a reactor_scheduler_scheme \<Rightarrow> 'a reactor_scheduler_scheme" where
  "post_op h = post_entry (op_entry h)"

definition post_coro :: "nat \<Rightarrow> 'a reactor_scheduler_scheme \<Rightarrow> 'a reactor_scheduler_scheme" where
  "post_coro h = post_entry (op_entry (post_handler h))"

definition post_cont :: "nat \<Rightarrow> 'a reactor_scheduler_scheme \<Rightarrow> 'a reactor_scheduler_scheme" where
  "post_cont c = post_entry (cont_entry c)"

definition drain_thread_queue :: "entry list \<Rightarrow> int \<Rightarrow> 'a reactor_scheduler_scheme \<Rightarrow> 'a reactor_scheduler_scheme" where
  "drain_thread_queue q count s =
     (let s1 = (if count > 0 then s\<lparr>outstanding_work := outstanding_work s + count\<rparr> else s);
          s2 = s1\<lparr>completed_ops := completed_ops s1 @ q\<rparr> in
      if count > 0 then snd (maybe_unlock_and_signal_one s2) else s2)"

definition post_deferred_completions :: "entry list \<Rightarrow> 'a reactor_scheduler_scheme \<Rightarrow> 'a reactor_scheduler_scheme" where
  "post_deferred_completions ops s =
     (if ops = [] then s
      else (case find_context s of
        Some c \<Rightarrow> upd_context (\<lambda>c. c\<lparr>private_queue := private_queue c @ ops\<rparr>) s
      | None \<Rightarrow> wake_one_thread_and_unlock (s\<lparr>completed_ops := completed_ops s @ ops\<rparr>)))"

text \<open>
  \<open>reactor_flush_private_work\<close> and \<open>reactor_drain_private_queue\<close>, for the context of this thread.
\<close>

definition reactor_flush_private_work :: "'a reactor_scheduler_scheme \<Rightarrow> 'a reactor_scheduler_scheme" where
  "reactor_flush_private_work s = (case find_context s of
     Some c \<Rightarrow>
       if private_outstanding_work c > 0
       then upd_context (\<lambda>c. c\<lparr>private_outstanding_work := 0\<rparr>)
              (s\<lparr>outstanding_work := outstanding_work s + private_outstanding_work c\<rparr>)
       else s
   | None \<Rightarrow> s)"

definition splice_private :: "'a reactor_scheduler_scheme \<Rightarrow> 'a reactor_scheduler_scheme" where
  "splice_private s = (case find_context s of
     None \<Rightarrow> s
   | Some c \<Rightarrow> upd_context (\<lambda>c. c\<lparr>private_queue := []\<rparr>) (s\<lparr>completed_ops := completed_ops s @ private_queue c\<rparr>))"

definition reactor_drain_private_queue :: "'a reactor_scheduler_scheme \<Rightarrow> bool \<times> 'a reactor_scheduler_scheme" where
  "reactor_drain_private_queue s = (case find_context s of
     None \<Rightarrow> (False, s)
   | Some c \<Rightarrow> if private_queue c = [] then (False, s) else (True, splice_private (reactor_flush_private_work s)))"

definition work_cleanup :: "'a reactor_scheduler_scheme \<Rightarrow> 'a reactor_scheduler_scheme" where
  "work_cleanup s = (case find_context s of
     Some c \<Rightarrow>
       let produced = private_outstanding_work c;
           s1 = (if produced > 1 then s\<lparr>outstanding_work := outstanding_work s + (produced - 1)\<rparr>
                 else if produced < 1 then sched_work_finished s else s);
           s2 = upd_context (\<lambda>c. c\<lparr>private_outstanding_work := 0\<rparr>) s1 in
       (if private_queue c \<noteq> [] then splice_private s2 else s2)
   | None \<Rightarrow> sched_work_finished s)"

definition task_cleanup :: "'a reactor_scheduler_scheme \<Rightarrow> 'a reactor_scheduler_scheme" where
  "task_cleanup s = (case find_context s of
     None \<Rightarrow> s
   | Some c \<Rightarrow>
       let s1 = reactor_flush_private_work s in
       (if private_queue c \<noteq> [] then splice_private s1 else s1))"

section \<open>The event loop\<close>

text \<open>
  \<open>exec\<close> is what an entry does, \<open>poll\<close> the poll of the reactor with a timeout in microseconds, and \<open>wait\<close>
  blocking on the condition variable until another thread signals or the timeout elapses; \<open>None\<close> stands for
  blocking for ever. An exception in flight is recorded in \<open>thrown\<close> and ends the loop.
\<close>

definition run_entry :: "(entry \<Rightarrow> 'a reactor_scheduler_scheme \<Rightarrow> 'a reactor_scheduler_scheme) \<Rightarrow> entry \<Rightarrow>
    'a reactor_scheduler_scheme \<Rightarrow> 'a reactor_scheduler_scheme" where
  "run_entry exec e s =
     (let more = completed_ops s \<noteq> [];
          s1 = (if more \<and> \<not> one_thread s then
                  (case unlock_and_signal_one s of (b, s') \<Rightarrow> upd_context (\<lambda>c. c\<lparr>unassisted := \<not> b\<rparr>) s')
                else upd_context (\<lambda>c. c\<lparr>unassisted := more\<rparr>) s) in
      work_cleanup (exec e s1))"

definition more_handlers :: "'a reactor_scheduler_scheme \<Rightarrow> bool" where
  "more_handlers s \<longleftrightarrow> completed_ops s \<noteq> [] \<or> (case find_context s of None \<Rightarrow> False | Some c \<Rightarrow> private_queue c \<noteq> [])"

definition run_sentinel :: "(int \<Rightarrow> 'a reactor_scheduler_scheme \<Rightarrow> 'a reactor_scheduler_scheme option) \<Rightarrow> int \<Rightarrow>
    'a reactor_scheduler_scheme \<Rightarrow> 'a reactor_scheduler_scheme option" where
  "run_sentinel poll timeout_us s =
     (let more = more_handlers s;
          task_timeout_us = (if more then 0 else timeout_us);
          s1 = s\<lparr>task_interrupted := task_timeout_us = 0, task_running := True\<rparr>;
          s2 = (if more \<and> \<not> one_thread s1 then snd (unlock_and_signal_one s1) else s1) in
      case poll task_timeout_us s2 of
        None \<Rightarrow> None
      | Some s3 \<Rightarrow>
          let s4 = s3\<lparr>task_running := False\<rparr> in
          Some (if thrown s4 \<noteq> None then s4 else s4\<lparr>completed_ops := completed_ops s4 @ [task_entry]\<rparr>))"

partial_function (option) do_one ::
    "(entry \<Rightarrow> 'a reactor_scheduler_scheme \<Rightarrow> 'a reactor_scheduler_scheme) \<Rightarrow>
     (int \<Rightarrow> 'a reactor_scheduler_scheme \<Rightarrow> 'a reactor_scheduler_scheme option) \<Rightarrow>
     (int \<Rightarrow> 'a reactor_scheduler_scheme \<Rightarrow> 'a reactor_scheduler_scheme option) \<Rightarrow> int \<Rightarrow>
     'a reactor_scheduler_scheme \<Rightarrow> (nat \<times> 'a reactor_scheduler_scheme) option" where
  "do_one exec poll wait timeout_us s =
     (if stopped_flag s then Some (0, s)
      else (case completed_ops s of
        e # es \<Rightarrow>
          (let s1 = s\<lparr>completed_ops := es\<rparr> in
           if e = task_entry then
             if \<not> more_handlers s1 \<and> (outstanding_work s1 = 0 \<or> timeout_us = 0)
             then Some (0, s1\<lparr>completed_ops := completed_ops s1 @ [task_entry]\<rparr>)
             else
               (case run_sentinel poll timeout_us s1 of
                  None \<Rightarrow> None
                | Some s2 \<Rightarrow>
                    if timeout_us > 0 \<or> thrown s2 \<noteq> None then Some (0, s2) else do_one exec poll wait timeout_us s2)
           else Some (1, run_entry exec e s1))
      | [] \<Rightarrow>
          (case reactor_drain_private_queue s of (drained, s1) \<Rightarrow>
             if drained then do_one exec poll wait timeout_us s1
             else if outstanding_work s1 = 0 \<or> timeout_us = 0 then Some (0, s1)
             else (case wait timeout_us (clear_signal s1) of
                None \<Rightarrow> None
              | Some s2 \<Rightarrow> do_one exec poll wait timeout_us s2))))"

definition size_max :: nat where
  "size_max = 2 ^ 64 - 1"

partial_function (option) do_all ::
    "(entry \<Rightarrow> 'a reactor_scheduler_scheme \<Rightarrow> 'a reactor_scheduler_scheme) \<Rightarrow>
     (int \<Rightarrow> 'a reactor_scheduler_scheme \<Rightarrow> 'a reactor_scheduler_scheme option) \<Rightarrow>
     (int \<Rightarrow> 'a reactor_scheduler_scheme \<Rightarrow> 'a reactor_scheduler_scheme option) \<Rightarrow> int \<Rightarrow> nat \<Rightarrow>
     'a reactor_scheduler_scheme \<Rightarrow> (nat \<times> 'a reactor_scheduler_scheme) option" where
  "do_all exec poll wait timeout_us n s = (case do_one exec poll wait timeout_us s of
     None \<Rightarrow> None
   | Some (k, s1) \<Rightarrow>
       if k = 0 \<or> thrown s1 \<noteq> None then Some (n, s1)
       else do_all exec poll wait timeout_us (if n \<noteq> size_max then n + 1 else n) s1)"

text \<open>The guard that pushes a context frame and, at the end, drains and pops it.\<close>

definition push_frame :: "'a reactor_scheduler_scheme \<Rightarrow> 'a reactor_scheduler_scheme" where
  "push_frame s = s\<lparr>context_stack := (self_key s, new_context s) # context_stack s\<rparr>"

definition pop_frame :: "'a reactor_scheduler_scheme \<Rightarrow> 'a reactor_scheduler_scheme" where
  "pop_frame s = (case context_stack s of
     [] \<Rightarrow> s
   | (k, c) # cs \<Rightarrow>
       let s1 = (if private_queue c \<noteq> [] then drain_thread_queue (private_queue c) (private_outstanding_work c) s else s) in
       s1\<lparr>context_stack := cs\<rparr>)"

definition guarded :: "('a reactor_scheduler_scheme \<Rightarrow> (nat \<times> 'a reactor_scheduler_scheme) option) \<Rightarrow>
    'a reactor_scheduler_scheme \<Rightarrow> (nat \<times> 'a reactor_scheduler_scheme) option" where
  "guarded f s =
     (if outstanding_work s = 0 then Some (0, stop s)
      else map_option (\<lambda>(n, s1). (n, pop_frame s1)) (f (push_frame s)))"

definition run :: "(entry \<Rightarrow> 'a reactor_scheduler_scheme \<Rightarrow> 'a reactor_scheduler_scheme) \<Rightarrow>
     (int \<Rightarrow> 'a reactor_scheduler_scheme \<Rightarrow> 'a reactor_scheduler_scheme option) \<Rightarrow>
     (int \<Rightarrow> 'a reactor_scheduler_scheme \<Rightarrow> 'a reactor_scheduler_scheme option) \<Rightarrow>
     'a reactor_scheduler_scheme \<Rightarrow> (nat \<times> 'a reactor_scheduler_scheme) option" where
  "run exec poll wait = guarded (do_all exec poll wait (-1) 0)"

definition run_one :: "(entry \<Rightarrow> 'a reactor_scheduler_scheme \<Rightarrow> 'a reactor_scheduler_scheme) \<Rightarrow>
     (int \<Rightarrow> 'a reactor_scheduler_scheme \<Rightarrow> 'a reactor_scheduler_scheme option) \<Rightarrow>
     (int \<Rightarrow> 'a reactor_scheduler_scheme \<Rightarrow> 'a reactor_scheduler_scheme option) \<Rightarrow>
     'a reactor_scheduler_scheme \<Rightarrow> (nat \<times> 'a reactor_scheduler_scheme) option" where
  "run_one exec poll wait = guarded (do_one exec poll wait (-1))"

definition wait_one :: "(entry \<Rightarrow> 'a reactor_scheduler_scheme \<Rightarrow> 'a reactor_scheduler_scheme) \<Rightarrow>
     (int \<Rightarrow> 'a reactor_scheduler_scheme \<Rightarrow> 'a reactor_scheduler_scheme option) \<Rightarrow>
     (int \<Rightarrow> 'a reactor_scheduler_scheme \<Rightarrow> 'a reactor_scheduler_scheme option) \<Rightarrow> int \<Rightarrow>
     'a reactor_scheduler_scheme \<Rightarrow> (nat \<times> 'a reactor_scheduler_scheme) option" where
  "wait_one exec poll wait usec = guarded (do_one exec poll wait usec)"

definition poll_all :: "(entry \<Rightarrow> 'a reactor_scheduler_scheme \<Rightarrow> 'a reactor_scheduler_scheme) \<Rightarrow>
     (int \<Rightarrow> 'a reactor_scheduler_scheme \<Rightarrow> 'a reactor_scheduler_scheme option) \<Rightarrow>
     (int \<Rightarrow> 'a reactor_scheduler_scheme \<Rightarrow> 'a reactor_scheduler_scheme option) \<Rightarrow>
     'a reactor_scheduler_scheme \<Rightarrow> (nat \<times> 'a reactor_scheduler_scheme) option" where
  "poll_all exec poll wait = guarded (do_all exec poll wait 0 0)"

definition poll_one :: "(entry \<Rightarrow> 'a reactor_scheduler_scheme \<Rightarrow> 'a reactor_scheduler_scheme) \<Rightarrow>
     (int \<Rightarrow> 'a reactor_scheduler_scheme \<Rightarrow> 'a reactor_scheduler_scheme option) \<Rightarrow>
     (int \<Rightarrow> 'a reactor_scheduler_scheme \<Rightarrow> 'a reactor_scheduler_scheme option) \<Rightarrow>
     'a reactor_scheduler_scheme \<Rightarrow> (nat \<times> 'a reactor_scheduler_scheme) option" where
  "poll_one exec poll wait = guarded (do_one exec poll wait 0)"

text \<open>Draining at shutdown: \<open>destroy\<close> is what the destruction of an entry does.\<close>

partial_function (option) drain_entries :: "(entry \<Rightarrow> 'a reactor_scheduler_scheme \<Rightarrow> 'a reactor_scheduler_scheme) \<Rightarrow>
    'a reactor_scheduler_scheme \<Rightarrow> 'a reactor_scheduler_scheme option" where
  "drain_entries destroy s = (case completed_ops s of
     [] \<Rightarrow> Some s
   | e # es \<Rightarrow>
       (let s1 = s\<lparr>completed_ops := es\<rparr> in
        drain_entries destroy (if e = task_entry then s1 else destroy e s1)))"

definition shutdown_drain :: "(entry \<Rightarrow> 'a reactor_scheduler_scheme \<Rightarrow> 'a reactor_scheduler_scheme) \<Rightarrow>
    'a reactor_scheduler_scheme \<Rightarrow> 'a reactor_scheduler_scheme option" where
  "shutdown_drain destroy s = map_option signal_all (drain_entries destroy s)"

end
