(* ===== verification/Reactor_State.thy ===== *)
theory Reactor_State
  imports Reactor_Scheduler Endpoint_Convert Timer_Service
begin

text \<open>
  Operations, descriptor states and sockets of the readiness back ends: the operation objects
  (reactor_op_base.hpp, reactor_op.hpp, coro_op.hpp), the descriptor state (reactor_descriptor_state.hpp),
  registration, cancellation and closing (reactor_basic_socket.hpp, the acceptor's counterparts in
  reactor_acceptor.hpp) and the registration with epoll (epoll_scheduler.hpp).

  One state holds the scheduler and all sockets. The results of system calls come from \<open>kernel\<close>, indexed by
  the number of calls made, and the addresses they fill in from \<open>kernel_names\<close>; \<open>addresses_used\<close> lists the
  addresses passed to \<^verbatim>\<open>connect\<close>, \<^verbatim>\<open>bind\<close> and \<^verbatim>\<open>sendmsg\<close>. The readings of the clock and the events of
  \<^verbatim>\<open>epoll_wait\<close> are indexed in the same way. A section under the
  mutex of a descriptor is one step. An error code or byte count that an operation writes through an output
  pointer goes to the entry of the coroutine that owns the pointer.
\<close>

unbundle bit_operations_syntax

section \<open>Data\<close>

datatype desc_slot = read_slot | write_slot | connect_slot | wait_read_slot | wait_write_slot | wait_error_slot

definition all_slots :: "desc_slot list" where
  "all_slots = [read_slot, write_slot, connect_slot, wait_read_slot, wait_write_slot, wait_error_slot]"

definition reactor_event_read :: u32 where "reactor_event_read = 1"

definition reactor_event_write :: u32 where "reactor_event_write = 4"

definition reactor_event_error :: u32 where "reactor_event_error = 8"

text \<open>
  The operation objects. The fields of the derived classes are gathered in one record;
  \<open>stop_armed\<close> says that \<^verbatim>\<open>stop_cb\<close> holds a callback, \<open>impl_ptr\<close> that the keepalive is set, \<open>owner_set\<close> that
  \<^verbatim>\<open>socket_impl_\<close> or \<^verbatim>\<open>acceptor_impl_\<close> is set.
\<close>

record reactor_op =
  op_handle :: nat
  op_fd :: int
  errn :: int
  bytes_transferred :: nat
  cancelled :: bool
  stop_armed :: bool
  impl_ptr :: bool
  owner_set :: bool
  target_endpoint :: endpoint
  wait_event :: u32
  iovecs :: "nat list"
  empty_buffer_read :: bool
  msg_flags :: int
  dest_storage :: "sockaddr_storage \<times> nat"
  source_storage :: sockaddr_storage
  source_out :: bool
  accepted_fd :: int
  peer_storage :: sockaddr_storage

text \<open>The six operation pointers and the six cancel flags are indexed by the slot.\<close>

record descriptor_state =
  slots :: "desc_slot \<Rightarrow> op_id option"
  cancel_pending :: "desc_slot \<Rightarrow> bool"
  read_ready :: bool
  write_ready :: bool
  registered_events :: u32
  desc_fd :: int
  ready_events :: u32
  is_enqueued :: bool
  impl_ref :: bool

datatype socket_kind = stream_socket | datagram_socket | acceptor_socket

text \<open>\<open>owned\<close>: a service holds the shared pointer, so \<^verbatim>\<open>weak_from_this().lock()\<close> succeeds.\<close>

record reactor_socket =
  socket_kind :: socket_kind
  sock_fd :: int
  local_ep :: endpoint
  remote_ep :: endpoint
  owned :: bool
  desc_state :: descriptor_state
  ops :: "op_id \<Rightarrow> reactor_op"

text \<open>What the pointer of an epoll event stands for: the event descriptor, the timer descriptor or a socket.\<close>

datatype epoll_target = wake_target | timer_target | desc_target nat

record reactor = reactor_scheduler +
  sockets :: "reactor_socket list"
  kernel :: "nat \<Rightarrow> sys_result"
  kernel_names :: "nat \<Rightarrow> sockaddr_storage"
  kernel_calls :: nat
  addresses_used :: "(sockaddr_storage \<times> nat) list"
  ec_result :: "nat \<Rightarrow> io_error"
  bytes_result :: "nat \<Rightarrow> nat"
  source_result :: "nat \<Rightarrow> endpoint"
  accept_result :: "nat \<Rightarrow> nat option"
  epoll_interest :: "(int \<times> nat) list"
  closed_fds :: "int list"
  impl_list :: "nat list"
  timers :: timer_service
  timerfd_stale :: bool
  timerfd :: "int \<times> int"
  clock :: "nat \<Rightarrow> int"
  epoll_events :: "nat \<Rightarrow> (epoll_target \<times> u32) list"

datatype stop_token = no_stop | stop_possible | stop_requested

definition upd_sock :: "nat \<Rightarrow> (reactor_socket \<Rightarrow> reactor_socket) \<Rightarrow> reactor \<Rightarrow> reactor" where
  "upd_sock i f s = s\<lparr>sockets := (sockets s)[i := f (sockets s ! i)]\<rparr>"

definition upd_desc :: "nat \<Rightarrow> (descriptor_state \<Rightarrow> descriptor_state) \<Rightarrow> reactor \<Rightarrow> reactor" where
  "upd_desc i f = upd_sock i (\<lambda>k. k\<lparr>desc_state := f (desc_state k)\<rparr>)"

definition upd_op :: "nat \<Rightarrow> op_id \<Rightarrow> (reactor_op \<Rightarrow> reactor_op) \<Rightarrow> reactor \<Rightarrow> reactor" where
  "upd_op i p f = upd_sock i (\<lambda>k. k\<lparr>ops := (ops k)(p := f (ops k p))\<rparr>)"

abbreviation desc_of :: "nat \<Rightarrow> reactor \<Rightarrow> descriptor_state" where
  "desc_of i s \<equiv> desc_state (sockets s ! i)"

abbreviation op_of :: "nat \<Rightarrow> op_id \<Rightarrow> reactor \<Rightarrow> reactor_op" where
  "op_of i p s \<equiv> ops (sockets s ! i) p"

abbreviation slot_of :: "nat \<Rightarrow> desc_slot \<Rightarrow> reactor \<Rightarrow> op_id option" where
  "slot_of i sl s \<equiv> slots (desc_of i s) sl"

definition set_slot :: "nat \<Rightarrow> desc_slot \<Rightarrow> op_id option \<Rightarrow> reactor \<Rightarrow> reactor" where
  "set_slot i sl v = upd_desc i (\<lambda>d. d\<lparr>slots := (slots d)(sl := v)\<rparr>)"

definition set_cancel_flag :: "nat \<Rightarrow> desc_slot \<Rightarrow> bool \<Rightarrow> reactor \<Rightarrow> reactor" where
  "set_cancel_flag i sl b = upd_desc i (\<lambda>d. d\<lparr>cancel_pending := (cancel_pending d)(sl := b)\<rparr>)"

definition syscall :: "reactor \<Rightarrow> sys_result \<times> sockaddr_storage \<times> reactor" where
  "syscall s = (kernel s (kernel_calls s), kernel_names s (kernel_calls s), s\<lparr>kernel_calls := kernel_calls s + 1\<rparr>)"

definition socket_family :: "reactor \<Rightarrow> address_family \<times> reactor" where
  "socket_family s = (case syscall s of (r, name, s1) \<Rightarrow>
     (case r of sys_fail _ \<Rightarrow> (AF_UNSPEC, s1) | sys_ok _ \<Rightarrow> (ss_family name, s1)))"

definition pass_address :: "sockaddr_storage \<times> nat \<Rightarrow> reactor \<Rightarrow> reactor" where
  "pass_address a s = s\<lparr>addresses_used := addresses_used s @ [a]\<rparr>"

section \<open>Operations\<close>

definition op_complete :: "int \<Rightarrow> nat \<Rightarrow> reactor_op \<Rightarrow> reactor_op" where
  "op_complete err b p = p\<lparr>errn := err, bytes_transferred := b\<rparr>"

definition op_reset :: "reactor_op \<Rightarrow> reactor_op" where
  "op_reset p = p\<lparr>op_fd := -1, errn := 0, bytes_transferred := 0, cancelled := False, impl_ptr := False,
     owner_set := False, target_endpoint := endpoint_default, wait_event := 0, iovecs := [],
     empty_buffer_read := False, msg_flags := 0, dest_storage := (SS_other, 0), source_storage := SS_other,
     source_out := False, accepted_fd := -1, peer_storage := SS_other\<rparr>"

definition request_cancel :: "reactor_op \<Rightarrow> reactor_op" where
  "request_cancel p = p\<lparr>cancelled := True\<rparr>"

definition is_read_operation :: "socket_kind \<Rightarrow> op_id \<Rightarrow> reactor_op \<Rightarrow> bool" where
  "is_read_operation k x p \<longleftrightarrow> (case x of
     rd \<Rightarrow> (if k = stream_socket then \<not> empty_buffer_read p else True)
   | recv_rd \<Rightarrow> True
   | wait_rd \<Rightarrow> wait_event p = reactor_event_read
   | wait_wr \<Rightarrow> wait_event p = reactor_event_read
   | wait_er \<Rightarrow> wait_event p = reactor_event_read
   | _ \<Rightarrow> False)"

text \<open>The overrides of \<open>perform_io\<close>.\<close>

definition perform_connect :: "nat \<Rightarrow> reactor \<Rightarrow> reactor" where
  "perform_connect i s = (case syscall s of (r, _, s1) \<Rightarrow>
     let err = (case r of sys_ok e \<Rightarrow> int e | sys_fail e \<Rightarrow> e) in
     upd_op i conn (op_complete err 0) s1)"

definition perform_transfer :: "nat \<Rightarrow> op_id \<Rightarrow> reactor \<Rightarrow> reactor" where
  "perform_transfer i x s = (case syscall s of (r, _, s1) \<Rightarrow>
     (case r of
        sys_ok n \<Rightarrow> upd_op i x (op_complete 0 n) s1
      | sys_fail e \<Rightarrow> upd_op i x (op_complete e 0) s1))"

definition perform_recv_from :: "nat \<Rightarrow> reactor \<Rightarrow> reactor" where
  "perform_recv_from i s = (case syscall s of (r, name, s1) \<Rightarrow>
     (case r of
        sys_ok n \<Rightarrow> upd_op i rd (\<lambda>p. op_complete 0 n (p\<lparr>source_storage := name\<rparr>)) s1
      | sys_fail e \<Rightarrow> upd_op i rd (op_complete e 0) s1))"

definition perform_accept :: "nat \<Rightarrow> reactor \<Rightarrow> reactor" where
  "perform_accept i s = (case syscall s of (r, name, s1) \<Rightarrow>
     (case r of
        sys_ok fd \<Rightarrow> upd_op i acc (\<lambda>p. op_complete 0 0 (p\<lparr>accepted_fd := int fd, peer_storage := name\<rparr>)) s1
      | sys_fail e \<Rightarrow> upd_op i acc (op_complete e 0) s1))"

definition perform_io :: "nat \<Rightarrow> op_id \<Rightarrow> reactor \<Rightarrow> reactor" where
  "perform_io i x s = (case x of
     conn \<Rightarrow> perform_connect i s
   | wait_rd \<Rightarrow> upd_op i x (op_complete 0 0) s
   | wait_wr \<Rightarrow> upd_op i x (op_complete 0 0) s
   | wait_er \<Rightarrow> upd_op i x (op_complete 0 0) s
   | acc \<Rightarrow> perform_accept i s
   | rd \<Rightarrow> (if socket_kind (sockets s ! i) = datagram_socket then perform_recv_from i s else perform_transfer i x s)
   | _ \<Rightarrow> perform_transfer i x s)"

section \<open>Registration, cancellation and closing\<close>

fun op_to_desc_slot :: "op_id \<Rightarrow> desc_slot" where
  "op_to_desc_slot conn = connect_slot"
| "op_to_desc_slot rd = read_slot"
| "op_to_desc_slot wr = write_slot"
| "op_to_desc_slot recv_rd = read_slot"
| "op_to_desc_slot send_wr = write_slot"
| "op_to_desc_slot wait_rd = wait_read_slot"
| "op_to_desc_slot wait_wr = wait_write_slot"
| "op_to_desc_slot wait_er = wait_error_slot"
| "op_to_desc_slot acc = read_slot"

text \<open>\<open>for_each_op\<close> and \<open>for_each_desc_entry\<close> visit the operations in this order.\<close>

fun socket_ops :: "socket_kind \<Rightarrow> op_id list" where
  "socket_ops stream_socket = [conn, rd, wr, wait_rd, wait_wr, wait_er]"
| "socket_ops datagram_socket = [conn, rd, wr, recv_rd, send_wr, wait_rd, wait_wr, wait_er]"
| "socket_ops acceptor_socket = [acc, wait_rd, wait_wr, wait_er]"

definition repost :: "nat \<Rightarrow> op_id \<Rightarrow> reactor \<Rightarrow> reactor" where
  "repost i x s = sched_work_finished (post_op (sock_op i x) (upd_op i x (\<lambda>p. p\<lparr>impl_ptr := True\<rparr>) s))"

definition basic_cancel_single_op :: "nat \<Rightarrow> op_id \<Rightarrow> reactor \<Rightarrow> reactor" where
  "basic_cancel_single_op i x s =
     (if \<not> owned (sockets s ! i) then s
      else
        let s1 = upd_op i x request_cancel s;
            sl = op_to_desc_slot x in
        if slot_of i sl s1 = Some x then repost i x (set_slot i sl None s1)
        else set_cancel_flag i sl True s1)"

definition try_claim :: "nat \<Rightarrow> op_id \<Rightarrow> desc_slot \<Rightarrow> bool \<times> reactor \<Rightarrow> bool \<times> reactor" where
  "try_claim i x sl c = (case c of (claimed, s) \<Rightarrow>
     if \<not> claimed \<and> slot_of i sl s = Some x then (True, set_slot i sl None s) else (claimed, s))"

definition acceptor_cancel_single_op :: "nat \<Rightarrow> op_id \<Rightarrow> reactor \<Rightarrow> reactor" where
  "acceptor_cancel_single_op i x s =
     (if \<not> owned (sockets s ! i) then s
      else
        let s1 = upd_op i x request_cancel s in
        (case try_claim i x wait_error_slot (try_claim i x wait_write_slot
                (try_claim i x wait_read_slot (try_claim i x read_slot (False, s1)))) of
           (claimed, s2) \<Rightarrow> if claimed then repost i x s2 else s2))"

definition cancel_single_op :: "nat \<Rightarrow> op_id \<Rightarrow> reactor \<Rightarrow> reactor" where
  "cancel_single_op i x s =
     (if socket_kind (sockets s ! i) = acceptor_socket then acceptor_cancel_single_op i x s
      else basic_cancel_single_op i x s)"

text \<open>\<open>on_cancel\<close>: what the stop callback of an operation does when the token is stopped.\<close>

definition on_cancel :: "nat \<Rightarrow> op_id \<Rightarrow> reactor \<Rightarrow> reactor" where
  "on_cancel i x s =
     (if owner_set (op_of i x s) then cancel_single_op i x s else upd_op i x request_cancel s)"

definition op_start :: "nat \<Rightarrow> op_id \<Rightarrow> stop_token \<Rightarrow> reactor \<Rightarrow> reactor" where
  "op_start i x token s =
     (let s1 = upd_op i x (\<lambda>p. p\<lparr>owner_set := True, cancelled := False, stop_armed := token \<noteq> no_stop\<rparr>) s in
      if token = stop_requested then on_cancel i x s1 else s1)"

datatype ready_flag = use_read_ready | use_write_ready | dummy_ready

definition flag_set :: "ready_flag \<Rightarrow> descriptor_state \<Rightarrow> bool" where
  "flag_set r d = (case r of use_read_ready \<Rightarrow> read_ready d | use_write_ready \<Rightarrow> write_ready d | dummy_ready \<Rightarrow> False)"

definition clear_flag :: "ready_flag \<Rightarrow> descriptor_state \<Rightarrow> descriptor_state" where
  "clear_flag r d = (case r of
     use_read_ready \<Rightarrow> d\<lparr>read_ready := False\<rparr>
   | use_write_ready \<Rightarrow> d\<lparr>write_ready := False\<rparr>
   | dummy_ready \<Rightarrow> d)"

definition would_block :: "int \<Rightarrow> bool" where
  "would_block e \<longleftrightarrow> e = EAGAIN \<or> e = EWOULDBLOCK"

text \<open>The cached edge: try the operation once if an edge event arrived while nothing was parked.\<close>

definition try_cached_edge :: "nat \<Rightarrow> op_id \<Rightarrow> ready_flag \<Rightarrow> reactor \<Rightarrow> bool \<times> reactor" where
  "try_cached_edge i x r s =
     (if flag_set r (desc_of i s) then
        let s1 = perform_io i x (upd_desc i (clear_flag r) s);
            io_done = (\<not> would_block (errn (op_of i x s1))) in
        (io_done, if io_done then s1 else upd_op i x (\<lambda>p. p\<lparr>errn := 0\<rparr>) s1)
      else (False, s))"

definition take_cancel_flag :: "nat \<Rightarrow> op_id \<Rightarrow> desc_slot \<Rightarrow> reactor \<Rightarrow> reactor" where
  "take_cancel_flag i x sl s =
     (if cancel_pending (desc_of i s) sl then upd_op i x request_cancel (set_cancel_flag i sl False s) else s)"

definition register_op :: "nat \<Rightarrow> op_id \<Rightarrow> desc_slot \<Rightarrow> ready_flag \<Rightarrow> reactor \<Rightarrow> reactor" where
  "register_op i x sl r s =
     (case try_cached_edge i x r (sched_work_started s) of (io_done, s1) \<Rightarrow>
        let s2 = take_cancel_flag i x sl s1 in
        if io_done \<or> cancelled (op_of i x s2) then sched_work_finished (post_op (sock_op i x) s2)
        else set_slot i sl (Some x) s2)"

fun claim_own :: "nat \<Rightarrow> op_id list \<Rightarrow> reactor \<Rightarrow> op_id list \<times> reactor" where
  "claim_own i [] s = ([], s)"
| "claim_own i (x # xs) s =
     (if slot_of i (op_to_desc_slot x) s = Some x
      then (case claim_own i xs (set_slot i (op_to_desc_slot x) None s) of (c, s1) \<Rightarrow> (x # c, s1))
      else claim_own i xs s)"

fun claim_all :: "nat \<Rightarrow> op_id list \<Rightarrow> reactor \<Rightarrow> op_id list \<times> reactor" where
  "claim_all i [] s = ([], s)"
| "claim_all i (x # xs) s = (case slot_of i (op_to_desc_slot x) s of
     Some c \<Rightarrow> (case claim_all i xs (set_slot i (op_to_desc_slot x) None s) of (cs, s1) \<Rightarrow> (c # cs, s1))
   | None \<Rightarrow> claim_all i xs s)"

definition request_cancel_all :: "nat \<Rightarrow> reactor \<Rightarrow> reactor" where
  "request_cancel_all i s = fold (\<lambda>x. upd_op i x request_cancel) (socket_ops (socket_kind (sockets s ! i))) s"

definition do_cancel :: "nat \<Rightarrow> reactor \<Rightarrow> reactor" where
  "do_cancel i s =
     (if \<not> owned (sockets s ! i) then s
      else (case claim_own i (socket_ops (socket_kind (sockets s ! i))) (request_cancel_all i s) of
        (cs, s1) \<Rightarrow> fold (repost i) cs s1))"

definition acceptor_do_cancel :: "nat \<Rightarrow> reactor \<Rightarrow> reactor" where
  "acceptor_do_cancel i s =
     acceptor_cancel_single_op i wait_er (acceptor_cancel_single_op i wait_wr
       (acceptor_cancel_single_op i wait_rd (acceptor_cancel_single_op i acc s)))"

text \<open>
  The first half of closing and releasing: claim every parked operation, drop cached edges and cancel
  flags, keep the implementation alive while its descriptor state is queued, post what was claimed.
  An acceptor keeps its cancel flags, which it never sets.
\<close>

definition reset_flags :: "socket_kind \<Rightarrow> descriptor_state \<Rightarrow> descriptor_state" where
  "reset_flags k d =
     (let d1 = d\<lparr>read_ready := False, write_ready := False\<rparr>;
          d2 = (if k = acceptor_socket then d1 else d1\<lparr>cancel_pending := \<lambda>_. False\<rparr>) in
      if is_enqueued d2 then d2\<lparr>impl_ref := True\<rparr> else d2)"

definition cancel_for_close :: "nat \<Rightarrow> reactor \<Rightarrow> reactor" where
  "cancel_for_close i s =
     (if owned (sockets s ! i) then
        let k = socket_kind (sockets s ! i) in
        (case claim_all i (socket_ops k) (request_cancel_all i s) of
           (cs, s1) \<Rightarrow> fold (repost i) cs (upd_desc i (reset_flags k) s1))
      else s)"

definition deregister_descriptor :: "int \<Rightarrow> reactor \<Rightarrow> reactor" where
  "deregister_descriptor fd s = s\<lparr>epoll_interest := filter (\<lambda>(f, i). f \<noteq> fd) (epoll_interest s)\<rparr>"

definition clear_descriptor :: "nat \<Rightarrow> reactor \<Rightarrow> reactor" where
  "clear_descriptor i s =
     upd_sock i (\<lambda>k. k\<lparr>local_ep := endpoint_default\<rparr>) (upd_desc i (\<lambda>d. d\<lparr>desc_fd := -1, registered_events := 0\<rparr>) s)"

definition do_close_socket :: "nat \<Rightarrow> reactor \<Rightarrow> reactor" where
  "do_close_socket i s =
     (let s1 = cancel_for_close i s;
          fd = sock_fd (sockets s1 ! i);
          s2 = (if fd \<ge> 0 then
                  let s' = (if registered_events (desc_of i s1) \<noteq> 0 then deregister_descriptor fd s1 else s1) in
                  upd_sock i (\<lambda>k. k\<lparr>sock_fd := -1\<rparr>) (s'\<lparr>closed_fds := closed_fds s' @ [fd]\<rparr>)
                else s1) in
      clear_descriptor i s2)"

definition do_release_socket :: "nat \<Rightarrow> reactor \<Rightarrow> int \<times> reactor" where
  "do_release_socket i s =
     (let s1 = cancel_for_close i s;
          released = sock_fd (sockets s1 ! i);
          s2 = (if released \<ge> 0 then
                  upd_sock i (\<lambda>k. k\<lparr>sock_fd := -1\<rparr>)
                    (if registered_events (desc_of i s1) \<noteq> 0 then deregister_descriptor released s1 else s1)
                else s1) in
      (released, clear_descriptor i s2))"

text \<open>
  Closing a stream or datagram socket also forgets the remote endpoint. Releasing forgets it for a
  datagram socket only.
\<close>

definition close_socket :: "nat \<Rightarrow> reactor \<Rightarrow> reactor" where
  "close_socket i s =
     (if socket_kind (sockets s ! i) = acceptor_socket then do_close_socket i s
      else upd_sock i (\<lambda>k. k\<lparr>remote_ep := endpoint_default\<rparr>) (do_close_socket i s))"

definition release_socket :: "nat \<Rightarrow> reactor \<Rightarrow> int \<times> reactor" where
  "release_socket i s = (case do_release_socket i s of (fd, s1) \<Rightarrow>
     (fd, if socket_kind (sockets s ! i) = datagram_socket
          then upd_sock i (\<lambda>k. k\<lparr>remote_ep := endpoint_default\<rparr>) s1 else s1))"

text \<open>The registration with epoll: \<^verbatim>\<open>EPOLLIN | EPOLLOUT | EPOLLET | EPOLLERR | EPOLLHUP\<close>.\<close>

definition epoll_mask :: u32 where
  "epoll_mask = 0x8000001D"

definition register_descriptor :: "int \<Rightarrow> nat \<Rightarrow> reactor \<Rightarrow> reactor" where
  "register_descriptor fd i s = (case syscall s of (r, _, s1) \<Rightarrow>
     (case r of
        sys_fail e \<Rightarrow> s1\<lparr>thrown := Some (make_err e)\<rparr>
      | sys_ok _ \<Rightarrow>
          upd_desc i (\<lambda>d. d\<lparr>registered_events := epoll_mask, desc_fd := fd, ready_events := 0, impl_ref := False,
              read_ready := False, write_ready := False\<rparr>)
            (s1\<lparr>epoll_interest := epoll_interest s1 @ [(fd, i)]\<rparr>)))"

definition init_and_register :: "nat \<Rightarrow> int \<Rightarrow> reactor \<Rightarrow> reactor" where
  "init_and_register i fd s =
     register_descriptor fd i
       (upd_desc i (\<lambda>d. d\<lparr>desc_fd := fd, slots := (slots d)(read_slot := None, write_slot := None, connect_slot := None)\<rparr>)
         (upd_sock i (\<lambda>k. k\<lparr>sock_fd := fd\<rparr>) s))"

definition init_acceptor_fd :: "nat \<Rightarrow> int \<Rightarrow> reactor \<Rightarrow> reactor" where
  "init_acceptor_fd i fd s =
     upd_desc i (\<lambda>d. d\<lparr>desc_fd := fd, slots := (slots d)(read_slot := None, wait_read_slot := None,
         wait_write_slot := None, wait_error_slot := None)\<rparr>)
       (upd_sock i (\<lambda>k. k\<lparr>sock_fd := fd\<rparr>) s)"

end
