(* ===== verification/Reactor_Stream.thy ===== *)
theory Reactor_Stream
  imports Reactor_State
begin

text \<open>
  The operations of stream sockets (reactor_stream_socket.hpp), the buffer sequences they take
  (detail/buffer_param.hpp) and the calls shared by all sockets (native_socket_base.hpp).

  An operation returns whether it completed inline, in which case the caller resumes the coroutine at once,
  and the new state. Buffers are given by their sizes.
\<close>

section \<open>Buffers\<close>

text \<open>\<open>copy_to\<close>: the first \<open>n\<close> buffers of non-zero size.\<close>

fun copy_to :: "nat \<Rightarrow> nat list \<Rightarrow> nat list" where
  "copy_to n [] = []"
| "copy_to n (b # bs) = (if n = 0 then [] else if b = 0 then copy_to n bs else b # copy_to (n - 1) bs)"

definition max_buffers :: nat where
  "max_buffers = 16"

section \<open>Results\<close>

definition write_ec :: "nat \<Rightarrow> io_error \<Rightarrow> reactor \<Rightarrow> reactor" where
  "write_ec h e s = s\<lparr>ec_result := (ec_result s)(h := e)\<rparr>"

definition write_bytes :: "nat \<Rightarrow> nat \<Rightarrow> reactor \<Rightarrow> reactor" where
  "write_bytes h n s = s\<lparr>bytes_result := (bytes_result s)(h := n)\<rparr>"

text \<open>Arming the operation: the owner's coroutine, the stop callback and the keepalive.\<close>

definition arm_op :: "nat \<Rightarrow> op_id \<Rightarrow> nat \<Rightarrow> stop_token \<Rightarrow> reactor \<Rightarrow> reactor" where
  "arm_op i x h token s =
     upd_op i x (\<lambda>p. p\<lparr>impl_ptr := True\<rparr>) (op_start i x token (upd_op i x (\<lambda>p. p\<lparr>op_handle := h\<rparr>) s))"

definition post_completed :: "nat \<Rightarrow> op_id \<Rightarrow> int \<Rightarrow> nat \<Rightarrow> reactor \<Rightarrow> reactor" where
  "post_completed i x err b s = post_op (sock_op i x) (upd_op i x (op_complete err b) s)"

definition set_op_fd :: "nat \<Rightarrow> op_id \<Rightarrow> reactor \<Rightarrow> reactor" where
  "set_op_fd i x s = upd_op i x (\<lambda>p. p\<lparr>op_fd := sock_fd (sockets s ! i)\<rparr>) s"

section \<open>Connecting\<close>

definition cache_local_endpoint :: "nat \<Rightarrow> reactor \<Rightarrow> reactor" where
  "cache_local_endpoint i s = (case syscall s of (r, name, s1) \<Rightarrow>
     (case r of
        sys_ok _ \<Rightarrow> upd_sock i (\<lambda>k. k\<lparr>local_ep := from_sockaddr name\<rparr>) s1
      | sys_fail _ \<Rightarrow> s1))"

definition prepare_connect :: "nat \<Rightarrow> nat \<Rightarrow> endpoint \<Rightarrow> stop_token \<Rightarrow> reactor \<Rightarrow> reactor" where
  "prepare_connect i h ep token s =
     arm_op i conn h token
       (upd_op i conn (\<lambda>p. p\<lparr>target_endpoint := ep\<rparr>) (set_op_fd i conn (upd_op i conn op_reset s)))"

definition do_connect :: "nat \<Rightarrow> nat \<Rightarrow> endpoint \<Rightarrow> stop_token \<Rightarrow> reactor \<Rightarrow> bool \<times> reactor" where
  "do_connect i h ep token s = (case socket_family s of (family, sf) \<Rightarrow>
     case syscall (pass_address (to_sockaddr_family ep family) sf) of (r, _, s0) \<Rightarrow>
     let s1 = (case r of
                 sys_ok _ \<Rightarrow> upd_sock i (\<lambda>k. k\<lparr>remote_ep := ep\<rparr>) (cache_local_endpoint i s0)
               | sys_fail _ \<Rightarrow> s0);
         err = (case r of sys_ok _ \<Rightarrow> 0 | sys_fail e \<Rightarrow> e) in
     if r \<noteq> sys_fail EINPROGRESS then
       (case try_consume_inline_budget s1 of
          (True, s2) \<Rightarrow> (True, write_ec h (if err \<noteq> 0 then make_err err else no_error) s2)
        | (False, s2) \<Rightarrow> (False, post_completed i conn err 0 (prepare_connect i h ep token s2)))
     else
       (False, register_op i conn connect_slot use_write_ready (prepare_connect i h ep token s1)))"

section \<open>Reading and writing\<close>

definition empty_buffers :: "nat list \<Rightarrow> bool" where
  "empty_buffers bufs \<longleftrightarrow> bufs = [] \<or> (length bufs = 1 \<and> hd bufs = 0)"

definition do_read_some :: "nat \<Rightarrow> nat \<Rightarrow> nat list \<Rightarrow> stop_token \<Rightarrow> reactor \<Rightarrow> bool \<times> reactor" where
  "do_read_some i h param token s =
     (let bufs = copy_to max_buffers param;
          s0 = upd_op i rd (\<lambda>p. (op_reset p)\<lparr>iovecs := bufs\<rparr>) s in
      if empty_buffers bufs then
        (False, post_completed i rd 0 0
           (arm_op i rd h token (upd_op i rd (\<lambda>p. p\<lparr>empty_buffer_read := True\<rparr>) s0)))
      else (case syscall s0 of (r, _, s1) \<Rightarrow>
        (case io_result r of (err, bytes) \<Rightarrow>
          if \<not> would_block err then
            (case try_consume_inline_budget s1 of
               (True, s2) \<Rightarrow>
                 (True, write_bytes h bytes
                    (write_ec h (if err \<noteq> 0 then make_err err else if r = sys_ok 0 then error_eof else no_error) s2))
             | (False, s2) \<Rightarrow> (False, post_completed i rd err bytes (arm_op i rd h token s2)))
          else (False, register_op i rd read_slot use_read_ready (arm_op i rd h token (set_op_fd i rd s1))))))"

definition do_write_some :: "nat \<Rightarrow> nat \<Rightarrow> nat list \<Rightarrow> stop_token \<Rightarrow> reactor \<Rightarrow> bool \<times> reactor" where
  "do_write_some i h param token s =
     (let bufs = copy_to max_buffers param;
          s0 = upd_op i wr (\<lambda>p. (op_reset p)\<lparr>iovecs := bufs\<rparr>) s in
      if empty_buffers bufs then (False, post_completed i wr 0 0 (arm_op i wr h token s0))
      else (case syscall s0 of (r, _, s1) \<Rightarrow>
        (case io_result r of (err, bytes) \<Rightarrow>
          if \<not> would_block err then
            (case try_consume_inline_budget s1 of
               (True, s2) \<Rightarrow>
                 (True, write_bytes h bytes (write_ec h (if err \<noteq> 0 then make_err err else no_error) s2))
             | (False, s2) \<Rightarrow> (False, post_completed i wr err bytes (arm_op i wr h token s2)))
          else (False, register_op i wr write_slot use_write_ready (arm_op i wr h token (set_op_fd i wr s1))))))"

section \<open>Waiting, shutting down and binding\<close>

datatype wait_type = wait_for_read | wait_for_write | wait_for_error

definition prepare_wait :: "nat \<Rightarrow> op_id \<Rightarrow> nat \<Rightarrow> u32 \<Rightarrow> stop_token \<Rightarrow> reactor \<Rightarrow> reactor" where
  "prepare_wait i x h event token s =
     arm_op i x h token (set_op_fd i x (upd_op i x (\<lambda>p. (op_reset p)\<lparr>wait_event := event\<rparr>) s))"

definition do_wait :: "nat \<Rightarrow> nat \<Rightarrow> wait_type \<Rightarrow> stop_token \<Rightarrow> reactor \<Rightarrow> bool \<times> reactor" where
  "do_wait i h w token s = (case w of
     wait_for_write \<Rightarrow>
       (case try_consume_inline_budget s of
          (True, s1) \<Rightarrow> (True, write_ec h no_error s1)
        | (False, s1) \<Rightarrow>
            (False, post_completed i wait_wr 0 0 (prepare_wait i wait_wr h reactor_event_write token s1)))
   | wait_for_read \<Rightarrow>
       (False, register_op i wait_rd wait_read_slot use_read_ready
          (prepare_wait i wait_rd h reactor_event_read token s))
   | wait_for_error \<Rightarrow>
       (False, register_op i wait_er wait_error_slot dummy_ready
          (prepare_wait i wait_er h reactor_event_error token s)))"

definition do_shutdown :: "int \<Rightarrow> reactor \<Rightarrow> io_error \<times> reactor" where
  "do_shutdown what s =
     (if what < 0 \<or> what > 2 then (make_err EINVAL, s)
      else (case syscall s of (r, _, s1) \<Rightarrow>
        (case r of sys_ok _ \<Rightarrow> (no_error, s1) | sys_fail e \<Rightarrow> (make_err e, s1))))"

definition set_endpoints :: "nat \<Rightarrow> endpoint \<Rightarrow> endpoint \<Rightarrow> reactor \<Rightarrow> reactor" where
  "set_endpoints i loc rem = upd_sock i (\<lambda>k. k\<lparr>local_ep := loc, remote_ep := rem\<rparr>)"

definition do_bind :: "nat \<Rightarrow> endpoint \<Rightarrow> reactor \<Rightarrow> io_error \<times> reactor" where
  "do_bind i ep s = (case socket_family s of (family, s0) \<Rightarrow>
     case syscall (pass_address (to_sockaddr_family ep family) s0) of (r, _, s1) \<Rightarrow>
     (case r of
        sys_fail e \<Rightarrow> (make_err e, s1)
      | sys_ok _ \<Rightarrow> (no_error, cache_local_endpoint i s1)))"

end
