(* ===== verification/Reactor_Datagram.thy ===== *)
theory Reactor_Datagram
  imports Reactor_Stream
begin

text \<open>
  The operations of datagram sockets (reactor_datagram_socket.hpp) and the translation of message flags
  (msg_flags.hpp). The two receiving operations share the read slot of the descriptor and the two
  sending operations its write slot.
\<close>

section \<open>Message flags\<close>

definition to_native_msg_flags :: "int \<Rightarrow> int" where
  "to_native_msg_flags flags =
     (if flags AND 1 \<noteq> 0 then 2 else 0) OR (if flags AND 2 \<noteq> 0 then 1 else 0) OR (if flags AND 4 \<noteq> 0 then 4 else 0)"

section \<open>Operations\<close>

definition write_source :: "nat \<Rightarrow> endpoint \<Rightarrow> reactor \<Rightarrow> reactor" where
  "write_source h ep s = s\<lparr>source_result := (source_result s)(h := ep)\<rparr>"

text \<open>
  After the speculative call of a datagram operation: complete inline, post, or park. \<open>found\<close> is the
  source endpoint that an inline completion stores, if any.
\<close>

definition dgram_dispatch :: "nat \<Rightarrow> op_id \<Rightarrow> ready_flag \<Rightarrow> nat \<Rightarrow> stop_token \<Rightarrow> endpoint option \<Rightarrow> sys_result \<Rightarrow>
    reactor \<Rightarrow> bool \<times> reactor" where
  "dgram_dispatch i x flag h token found r s = (case io_result r of (err, bytes) \<Rightarrow>
     if \<not> would_block err then
       (case try_consume_inline_budget s of
          (True, s1) \<Rightarrow>
            (let s2 = write_bytes h bytes (write_ec h (if err \<noteq> 0 then make_err err else no_error) s1) in
             (True, case found of Some ep \<Rightarrow> if err = 0 then write_source h ep s2 else s2 | None \<Rightarrow> s2))
        | (False, s1) \<Rightarrow> (False, post_completed i x err bytes (arm_op i x h token s1)))
     else (False, register_op i x (op_to_desc_slot x) flag (arm_op i x h token s)))"

definition do_send_to :: "nat \<Rightarrow> nat \<Rightarrow> nat list \<Rightarrow> endpoint \<Rightarrow> int \<Rightarrow> stop_token \<Rightarrow> reactor \<Rightarrow> bool \<times> reactor" where
  "do_send_to i h param dest flags token s =
     (let s0 = upd_op i wr (\<lambda>p. (op_reset p)\<lparr>iovecs := copy_to max_buffers param\<rparr>) s in
      case socket_family s0 of (family, s1) \<Rightarrow>
        let addr = to_sockaddr_family dest family;
            s2 = upd_op i wr (\<lambda>p. p\<lparr>dest_storage := addr, msg_flags := to_native_msg_flags flags\<rparr>) (set_op_fd i wr s1) in
        (case syscall (pass_address addr s2) of (r, _, s3) \<Rightarrow>
           dgram_dispatch i wr use_write_ready h token None r s3))"

definition do_recv_from :: "nat \<Rightarrow> nat \<Rightarrow> nat list \<Rightarrow> bool \<Rightarrow> int \<Rightarrow> stop_token \<Rightarrow> reactor \<Rightarrow> bool \<times> reactor" where
  "do_recv_from i h param source flags token s =
     (let bufs = copy_to max_buffers param;
          s0 = upd_op i rd (\<lambda>p. (op_reset p)\<lparr>iovecs := bufs\<rparr>) s in
      if empty_buffers bufs then (False, post_completed i rd 0 0 (arm_op i rd h token s0))
      else
        let s1 = upd_op i rd (\<lambda>p. p\<lparr>source_out := source, msg_flags := to_native_msg_flags flags\<rparr>) (set_op_fd i rd s0) in
        (case syscall s1 of (r, name, s2) \<Rightarrow>
           let s3 = (case r of
                       sys_ok _ \<Rightarrow> upd_op i rd (\<lambda>p. p\<lparr>source_storage := name\<rparr>) s2
                     | sys_fail _ \<Rightarrow> s2) in
           dgram_dispatch i rd use_read_ready h token (if source then Some (from_sockaddr name) else None) r s3))"

definition do_send :: "nat \<Rightarrow> nat \<Rightarrow> nat list \<Rightarrow> int \<Rightarrow> stop_token \<Rightarrow> reactor \<Rightarrow> bool \<times> reactor" where
  "do_send i h param flags token s =
     (let s0 = upd_op i send_wr (\<lambda>p. (op_reset p)\<lparr>iovecs := copy_to max_buffers param\<rparr>) s;
          s1 = upd_op i send_wr (\<lambda>p. p\<lparr>msg_flags := to_native_msg_flags flags\<rparr>) (set_op_fd i send_wr s0) in
      case syscall s1 of (r, _, s2) \<Rightarrow> dgram_dispatch i send_wr use_write_ready h token None r s2)"

definition do_recv :: "nat \<Rightarrow> nat \<Rightarrow> nat list \<Rightarrow> int \<Rightarrow> stop_token \<Rightarrow> reactor \<Rightarrow> bool \<times> reactor" where
  "do_recv i h param flags token s =
     (let bufs = copy_to max_buffers param;
          s0 = upd_op i recv_rd (\<lambda>p. (op_reset p)\<lparr>iovecs := bufs\<rparr>) s in
      if empty_buffers bufs then (False, post_completed i recv_rd 0 0 (arm_op i recv_rd h token s0))
      else
        let s1 = upd_op i recv_rd (\<lambda>p. p\<lparr>msg_flags := to_native_msg_flags flags\<rparr>) (set_op_fd i recv_rd s0) in
        (case syscall s1 of (r, _, s2) \<Rightarrow> dgram_dispatch i recv_rd use_read_ready h token None r s2))"

text \<open>Connecting, waiting and shutting down repeat the bodies of the stream socket.\<close>

definition dgram_do_connect :: "nat \<Rightarrow> nat \<Rightarrow> endpoint \<Rightarrow> stop_token \<Rightarrow> reactor \<Rightarrow> bool \<times> reactor" where
  "dgram_do_connect = do_connect"

definition dgram_do_wait :: "nat \<Rightarrow> nat \<Rightarrow> wait_type \<Rightarrow> stop_token \<Rightarrow> reactor \<Rightarrow> bool \<times> reactor" where
  "dgram_do_wait = do_wait"

definition dgram_do_shutdown :: "int \<Rightarrow> reactor \<Rightarrow> io_error \<times> reactor" where
  "dgram_do_shutdown = do_shutdown"

end
