(* ===== verification/Reactor_Acceptor.thy ===== *)
theory Reactor_Acceptor
  imports Reactor_Stream
begin

text \<open>
  The service side of sockets (reactor_socket_service.hpp, reactor_acceptor_service.hpp,
  reactor_service_finals.hpp) and the operations of acceptors (reactor_acceptor.hpp, \<open>accept\<close> in
  reactor_backend.hpp, the set-up of accepted sockets in reactor_op_complete.hpp).
\<close>

section \<open>Services\<close>

definition initial_op :: reactor_op where
  "initial_op = \<lparr>op_handle = 0, op_fd = -1, errn = 0, bytes_transferred = 0, cancelled = False, stop_armed = False,
     impl_ptr = False, owner_set = False, target_endpoint = endpoint_default, wait_event = 0, iovecs = [],
     empty_buffer_read = False, msg_flags = 0, dest_storage = (SS_other, 0), source_storage = SS_other,
     source_out = False, accepted_fd = -1, peer_storage = SS_other\<rparr>"

definition initial_desc :: descriptor_state where
  "initial_desc = \<lparr>slots = (\<lambda>_. None), cancel_pending = (\<lambda>_. False), read_ready = False, write_ready = False,
     registered_events = 0, desc_fd = -1, ready_events = 0, is_enqueued = False, impl_ref = False\<rparr>"

definition initial_socket :: "socket_kind \<Rightarrow> reactor_socket" where
  "initial_socket k = \<lparr>socket_kind = k, sock_fd = -1, local_ep = endpoint_default, remote_ep = endpoint_default,
     owned = True, desc_state = initial_desc, ops = (\<lambda>_. initial_op)\<rparr>"

text \<open>\<open>construct\<close>: a new implementation, owned by the service and linked into its list.\<close>

definition construct_socket :: "socket_kind \<Rightarrow> reactor \<Rightarrow> nat \<times> reactor" where
  "construct_socket k s =
     (length (sockets s),
      s\<lparr>sockets := sockets s @ [initial_socket k], impl_list := impl_list s @ [length (sockets s)]\<rparr>)"

definition destroy_socket :: "nat \<Rightarrow> reactor \<Rightarrow> reactor" where
  "destroy_socket i s =
     (let s1 = close_socket i s in
      upd_sock i (\<lambda>k. k\<lparr>owned := False\<rparr>) (s1\<lparr>impl_list := remove1 i (impl_list s1)\<rparr>))"

fun shutdown_list :: "nat list \<Rightarrow> reactor \<Rightarrow> reactor" where
  "shutdown_list [] s = s"
| "shutdown_list (i # is) s = shutdown_list is (close_socket i (s\<lparr>impl_list := is\<rparr>))"

definition service_shutdown :: "reactor \<Rightarrow> reactor" where
  "service_shutdown s = shutdown_list (impl_list s) s"

definition close_fd :: "int \<Rightarrow> reactor \<Rightarrow> reactor" where
  "close_fd fd s = s\<lparr>closed_fds := closed_fds s @ [fd]\<rparr>"

text \<open>
  The configuration hooks of the epoll traits: for an IPv6 socket one \<^verbatim>\<open>setsockopt\<close> whose result is ignored,
  and no error.
\<close>

definition configure_ip :: "address_family \<Rightarrow> reactor \<Rightarrow> io_error \<times> reactor" where
  "configure_ip family s = (if family = AF_INET6 then (no_error, snd (snd (syscall s))) else (no_error, s))"

definition configure_local :: "reactor \<Rightarrow> io_error \<times> reactor" where
  "configure_local s = (no_error, s)"

definition create_configured :: "nat \<Rightarrow> address_family \<Rightarrow> bool \<Rightarrow> reactor \<Rightarrow> (io_error + int) \<times> reactor" where
  "create_configured i family is_ip s = (case syscall (close_socket i s) of (r, _, s1) \<Rightarrow>
     (case r of
        sys_fail e \<Rightarrow> (Inl (make_err e), s1)
      | sys_ok fd \<Rightarrow>
          (case (if is_ip then configure_ip family s1 else configure_local s1) of (ec, s2) \<Rightarrow>
             if ec \<noteq> no_error then (Inl ec, close_fd (int fd) s2) else (Inr (int fd), s2))))"

definition do_open_socket :: "nat \<Rightarrow> address_family \<Rightarrow> bool \<Rightarrow> reactor \<Rightarrow> io_error \<times> reactor" where
  "do_open_socket i family is_ip s = (case create_configured i family is_ip s of
     (Inl ec, s1) \<Rightarrow> (ec, s1)
   | (Inr fd, s1) \<Rightarrow> (no_error, init_and_register i fd s1))"

definition do_open_acceptor :: "nat \<Rightarrow> address_family \<Rightarrow> bool \<Rightarrow> reactor \<Rightarrow> io_error \<times> reactor" where
  "do_open_acceptor i family is_ip s = (case create_configured i family is_ip s of
     (Inl ec, s1) \<Rightarrow> (ec, s1)
   | (Inr fd, s1) \<Rightarrow> (no_error, init_acceptor_fd i fd s1))"

section \<open>Acceptors\<close>

definition acceptor_do_bind :: "nat \<Rightarrow> endpoint \<Rightarrow> reactor \<Rightarrow> io_error \<times> reactor" where
  "acceptor_do_bind i ep s = (case syscall (pass_address (to_sockaddr ep) s) of (r, _, s1) \<Rightarrow>
     (case r of
        sys_fail e \<Rightarrow> (make_err e, s1)
      | sys_ok _ \<Rightarrow> (no_error, cache_local_endpoint i s1)))"

definition do_listen :: "nat \<Rightarrow> reactor \<Rightarrow> io_error \<times> reactor" where
  "do_listen i s = (case syscall s of (r, _, s1) \<Rightarrow>
     (case r of
        sys_fail e \<Rightarrow> (make_err e, s1)
      | sys_ok _ \<Rightarrow> (no_error, register_descriptor (sock_fd (sockets s1 ! i)) i s1)))"

text \<open>
  A socket for an accepted descriptor. The exception of a failed registration leaves \<open>setup_accepted\<close> with
  \<open>thrown\<close> set.
\<close>

definition setup_accepted :: "nat \<Rightarrow> int \<Rightarrow> sockaddr_storage \<Rightarrow> reactor \<Rightarrow> nat \<times> reactor" where
  "setup_accepted i fd peer s = (case construct_socket stream_socket s of (j, s1) \<Rightarrow>
     let s2 = init_and_register j fd s1 in
     (j, if thrown s2 \<noteq> None then s2
         else set_endpoints j (local_ep (sockets s2 ! i)) (from_sockaddr peer) s2))"

definition write_accept :: "nat \<Rightarrow> nat option \<Rightarrow> reactor \<Rightarrow> reactor" where
  "write_accept h j s = s\<lparr>accept_result := (accept_result s)(h := j)\<rparr>"

text \<open>\<open>stream_svc\<close> says that the acceptor service found its stream service.\<close>

definition accept_inline :: "bool \<Rightarrow> nat \<Rightarrow> nat \<Rightarrow> int \<Rightarrow> sockaddr_storage \<Rightarrow> reactor \<Rightarrow> reactor" where
  "accept_inline stream_svc i h fd peer s =
     (if stream_svc then
        (case setup_accepted i fd peer s of (j, s1) \<Rightarrow>
           if thrown s1 \<noteq> None then s1 else write_accept h (Some j) (write_ec h no_error s1))
      else write_accept h None (write_ec h (make_err ENOENT) (close_fd fd s)))"

definition accept :: "bool \<Rightarrow> nat \<Rightarrow> nat \<Rightarrow> stop_token \<Rightarrow> reactor \<Rightarrow> bool \<times> reactor" where
  "accept stream_svc i h token s =
     (let s0 = op_start i acc token
                 (set_op_fd i acc (upd_op i acc (\<lambda>p. (op_reset p)\<lparr>op_handle := h\<rparr>) s)) in
      case syscall s0 of (r, peer, s1) \<Rightarrow>
        (case r of
           sys_ok fd \<Rightarrow>
             (case try_consume_inline_budget (upd_desc i (\<lambda>d. d\<lparr>read_ready := False\<rparr>) s1) of
                (True, s2) \<Rightarrow> (True, accept_inline stream_svc i h (int fd) peer s2)
              | (False, s2) \<Rightarrow>
                  (False, post_op (sock_op i acc)
                     (upd_op i acc (\<lambda>p. (op_complete 0 0 (p\<lparr>accepted_fd := int fd, peer_storage := peer\<rparr>))\<lparr>impl_ptr := True\<rparr>) s2)))
         | sys_fail e \<Rightarrow>
             let s2 = upd_op i acc (\<lambda>p. p\<lparr>impl_ptr := True\<rparr>) s1 in
             if would_block e then
               (case try_cached_edge i acc use_read_ready (sched_work_started s2) of (io_done, s3) \<Rightarrow>
                  if io_done \<or> cancelled (op_of i acc s3) then (False, sched_work_finished (post_op (sock_op i acc) s3))
                  else (False, set_slot i read_slot (Some acc) s3))
             else (False, post_completed i acc e 0 s2)))"

definition acceptor_do_wait :: "nat \<Rightarrow> nat \<Rightarrow> wait_type \<Rightarrow> stop_token \<Rightarrow> reactor \<Rightarrow> bool \<times> reactor" where
  "acceptor_do_wait i h w token s =
     (if w = wait_for_write then
        (False, post_completed i wait_wr 0 0 (prepare_wait i wait_wr h reactor_event_write token s))
      else
        let x = (if w = wait_for_read then wait_rd else wait_er);
            event = (if w = wait_for_read then reactor_event_read else reactor_event_error);
            s1 = sched_work_started (prepare_wait i x h event token s) in
        (False, if cancelled (op_of i x s1) then sched_work_finished (post_op (sock_op i x) s1)
                else set_slot i (op_to_desc_slot x) (Some x) s1))"

end
