(* ===== verification/Reactor_Dispatch.thy ===== *)
theory Reactor_Dispatch
  imports Reactor_Datagram Reactor_Acceptor
begin

text \<open>
  Completion of operations (reactor_op_complete.hpp, coro_op_complete.hpp), the deferred input/output of a
  descriptor state (reactor_descriptor_state.hpp) and what the event loop runs for an entry of the ready queue
  (the call operators in reactor_stream_ops.hpp and reactor_datagram_ops.hpp).

  \<open>resume h\<close> is what the coroutine \<open>h\<close> does from the moment it is resumed until it suspends again.
\<close>

section \<open>Completing operations\<close>

definition coro_resume :: "(nat \<Rightarrow> reactor \<Rightarrow> reactor) \<Rightarrow> nat \<Rightarrow> op_id \<Rightarrow> reactor \<Rightarrow> reactor" where
  "coro_resume resume i x s =
     (let h = op_handle (op_of i x s) in resume h (upd_op i x (\<lambda>p. p\<lparr>impl_ptr := False\<rparr>) s))"

definition store_result :: "nat \<Rightarrow> io_error option \<Rightarrow> reactor \<Rightarrow> reactor" where
  "store_result h e s = (case e of None \<Rightarrow> s | Some ec \<Rightarrow> write_ec h ec s)"

definition op_error :: "reactor_op \<Rightarrow> io_error" where
  "op_error p = (if errn p \<noteq> 0 then make_err (errn p) else no_error)"

text \<open>The prologue of every handler: disarm the stop callback and refill the inline budget.\<close>

definition begin_completion :: "nat \<Rightarrow> op_id \<Rightarrow> reactor \<Rightarrow> reactor" where
  "begin_completion i x s = reset_inline_budget (upd_op i x (\<lambda>p. p\<lparr>stop_armed := False\<rparr>) s)"

definition decode_op :: "nat \<Rightarrow> op_id \<Rightarrow> bool \<Rightarrow> nat \<Rightarrow> reactor \<Rightarrow> reactor" where
  "decode_op i x is_read bytes s =
     (let p = op_of i x s in
      store_result (op_handle p) (decode_io_result True (cancelled p) (op_error p) is_read bytes False) s)"

definition store_bytes :: "nat \<Rightarrow> op_id \<Rightarrow> reactor \<Rightarrow> reactor" where
  "store_bytes i x s = write_bytes (op_handle (op_of i x s)) (bytes_transferred (op_of i x s)) s"

definition complete_io_op :: "(nat \<Rightarrow> reactor \<Rightarrow> reactor) \<Rightarrow> nat \<Rightarrow> op_id \<Rightarrow> reactor \<Rightarrow> reactor" where
  "complete_io_op resume i x s =
     (let s1 = begin_completion i x s;
          s2 = decode_op i x (is_read_operation (socket_kind (sockets s1 ! i)) x (op_of i x s1))
                 (bytes_transferred (op_of i x s1)) s1 in
      coro_resume resume i x (store_bytes i x s2))"

definition complete_wait_op :: "(nat \<Rightarrow> reactor \<Rightarrow> reactor) \<Rightarrow> nat \<Rightarrow> op_id \<Rightarrow> reactor \<Rightarrow> reactor" where
  "complete_wait_op resume i x s = coro_resume resume i x (decode_op i x False 0 (begin_completion i x s))"

definition connect_succeeded :: "nat \<Rightarrow> op_id \<Rightarrow> reactor \<Rightarrow> bool" where
  "connect_succeeded i x s \<longleftrightarrow> errn (op_of i x s) = 0 \<and> \<not> cancelled (op_of i x s)"

definition complete_connect_op :: "(nat \<Rightarrow> reactor \<Rightarrow> reactor) \<Rightarrow> nat \<Rightarrow> reactor \<Rightarrow> reactor" where
  "complete_connect_op resume i s =
     (let s1 = begin_completion i conn s;
          s2 = (if connect_succeeded i conn s1 \<and> owner_set (op_of i conn s1) then
                  (case syscall s1 of (r, name, s') \<Rightarrow>
                     set_endpoints i (case r of sys_ok _ \<Rightarrow> from_sockaddr name | sys_fail _ \<Rightarrow> endpoint_default)
                       (target_endpoint (op_of i conn s')) s')
                else s1) in
      coro_resume resume i conn (decode_op i conn False 0 s2))"

definition complete_datagram_op :: "(nat \<Rightarrow> reactor \<Rightarrow> reactor) \<Rightarrow> nat \<Rightarrow> op_id \<Rightarrow> reactor \<Rightarrow> reactor" where
  "complete_datagram_op resume i x s =
     coro_resume resume i x (store_bytes i x (decode_op i x False 0 (begin_completion i x s)))"

definition complete_datagram_source_op :: "(nat \<Rightarrow> reactor \<Rightarrow> reactor) \<Rightarrow> nat \<Rightarrow> reactor \<Rightarrow> reactor" where
  "complete_datagram_source_op resume i s =
     (let s1 = store_bytes i rd (decode_op i rd False 0 (begin_completion i rd s));
          p = op_of i rd s1;
          s2 = (if source_out p \<and> \<not> cancelled p \<and> errn p = 0
                then write_source (op_handle p) (from_sockaddr (source_storage p)) s1 else s1) in
      coro_resume resume i rd s2)"

definition setup_accepted_socket :: "bool \<Rightarrow> nat \<Rightarrow> reactor \<Rightarrow> bool \<times> reactor" where
  "setup_accepted_socket stream_svc i s =
     (let p = op_of i acc s in
      if \<not> stream_svc then (False, write_ec (op_handle p) (make_err ENOENT) s)
      else (case setup_accepted i (accepted_fd p) (peer_storage p) s of (j, s1) \<Rightarrow>
        if thrown s1 \<noteq> None then (True, s1)
        else (True, upd_op i acc (\<lambda>q. q\<lparr>accepted_fd := -1\<rparr>) (write_accept (op_handle p) (Some j) s1))))"

definition drop_accepted :: "nat \<Rightarrow> reactor \<Rightarrow> reactor" where
  "drop_accepted i s =
     (let p = op_of i acc s;
          s1 = (if accepted_fd p \<ge> 0
                then upd_op i acc (\<lambda>q. q\<lparr>accepted_fd := -1\<rparr>) (close_fd (accepted_fd p) s) else s) in
      write_accept (op_handle p) None s1)"

definition complete_accept_op :: "bool \<Rightarrow> (nat \<Rightarrow> reactor \<Rightarrow> reactor) \<Rightarrow> nat \<Rightarrow> reactor \<Rightarrow> reactor" where
  "complete_accept_op stream_svc resume i s =
     (let s1 = begin_completion i acc s;
          success = connect_succeeded i acc s1;
          s2 = decode_op i acc False 0 s1 in
      case (if success \<and> accepted_fd (op_of i acc s2) \<ge> 0 then setup_accepted_socket stream_svc i s2 else (success, s2)) of
        (ok, s3) \<Rightarrow>
          if thrown s3 \<noteq> None then s3
          else coro_resume resume i acc (if \<not> ok then drop_accepted i s3 else s3))"

text \<open>The call operator of an operation object.\<close>

definition run_op :: "bool \<Rightarrow> (nat \<Rightarrow> reactor \<Rightarrow> reactor) \<Rightarrow> nat \<Rightarrow> op_id \<Rightarrow> reactor \<Rightarrow> reactor" where
  "run_op stream_svc resume i x s = (case x of
     conn \<Rightarrow> complete_connect_op resume i s
   | wait_rd \<Rightarrow> complete_wait_op resume i x s
   | wait_wr \<Rightarrow> complete_wait_op resume i x s
   | wait_er \<Rightarrow> complete_wait_op resume i x s
   | acc \<Rightarrow> complete_accept_op stream_svc resume i s
   | recv_rd \<Rightarrow> complete_datagram_op resume i x s
   | rd \<Rightarrow> (if socket_kind (sockets s ! i) = datagram_socket then complete_datagram_source_op resume i s
            else complete_io_op resume i x s)
   | _ \<Rightarrow> complete_io_op resume i x s)"

section \<open>Deferred input and output\<close>

text \<open>
  The steps of \<open>invoke_deferred_io\<close> thread the list of completed operations. \<open>try_slot\<close> is the branch of a parked
  read or write, \<open>finish_slot\<close> the exchange of a slot with null after \<open>complete\<close>.
\<close>

definition attempt :: "nat \<Rightarrow> op_id \<Rightarrow> int \<Rightarrow> reactor \<Rightarrow> reactor" where
  "attempt i x err s = (if err \<noteq> 0 then upd_op i x (op_complete err 0) s else perform_io i x s)"

definition try_slot :: "nat \<Rightarrow> desc_slot \<Rightarrow> int \<Rightarrow> op_id list \<times> reactor \<Rightarrow> op_id list \<times> reactor" where
  "try_slot i sl err c = (case c of (local_ops, s) \<Rightarrow>
     (case slot_of i sl s of
        None \<Rightarrow> c
      | Some x \<Rightarrow>
          let s1 = attempt i x err s in
          if would_block (errn (op_of i x s1)) then (local_ops, upd_op i x (\<lambda>p. p\<lparr>errn := 0\<rparr>) s1)
          else (local_ops @ [x], set_slot i sl None s1)))"

definition finish_slot :: "nat \<Rightarrow> desc_slot \<Rightarrow> int \<Rightarrow> op_id list \<times> reactor \<Rightarrow> op_id list \<times> reactor" where
  "finish_slot i sl err c = (case c of (local_ops, s) \<Rightarrow>
     (case slot_of i sl s of
        None \<Rightarrow> c
      | Some x \<Rightarrow> (local_ops @ [x], set_slot i sl None (upd_op i x (op_complete err 0) s))))"

definition finish_connect :: "nat \<Rightarrow> int \<Rightarrow> op_id list \<times> reactor \<Rightarrow> op_id list \<times> reactor" where
  "finish_connect i err c = (case c of (local_ops, s) \<Rightarrow>
     (case slot_of i connect_slot s of
        None \<Rightarrow> c
      | Some x \<Rightarrow> (local_ops @ [x], set_slot i connect_slot None (attempt i x err s))))"

definition on_read_event :: "nat \<Rightarrow> int \<Rightarrow> op_id list \<times> reactor \<Rightarrow> op_id list \<times> reactor" where
  "on_read_event i err c =
     finish_slot i wait_read_slot err
       (if slot_of i read_slot (snd c) \<noteq> None then try_slot i read_slot err c
        else (fst c, upd_desc i (\<lambda>d. d\<lparr>read_ready := True\<rparr>) (snd c)))"

definition on_write_event :: "nat \<Rightarrow> int \<Rightarrow> op_id list \<times> reactor \<Rightarrow> op_id list \<times> reactor" where
  "on_write_event i err c =
     (let had_write_op = (slot_of i connect_slot (snd c) \<noteq> None \<or> slot_of i write_slot (snd c) \<noteq> None);
          c1 = try_slot i write_slot err (finish_connect i err c);
          c2 = (if \<not> had_write_op then (fst c1, upd_desc i (\<lambda>d. d\<lparr>write_ready := True\<rparr>) (snd c1)) else c1) in
      finish_slot i wait_write_slot err c2)"

definition on_error_event :: "nat \<Rightarrow> int \<Rightarrow> op_id list \<times> reactor \<Rightarrow> op_id list \<times> reactor" where
  "on_error_event i err c =
     finish_slot i wait_write_slot err (finish_slot i wait_read_slot err (finish_slot i connect_slot err
       (finish_slot i write_slot err (finish_slot i read_slot err c))))"

definition socket_error :: "u32 \<Rightarrow> reactor \<Rightarrow> int \<times> reactor" where
  "socket_error ev s =
     (if ev AND reactor_event_error \<noteq> 0 then
        (case syscall s of (r, _, s1) \<Rightarrow>
           let err = (case r of sys_ok e \<Rightarrow> int e | sys_fail e \<Rightarrow> e) in
           (if err = 0 then EIO else err, s1))
      else (0, s))"

definition collect_events :: "nat \<Rightarrow> u32 \<Rightarrow> int \<Rightarrow> reactor \<Rightarrow> op_id list \<times> reactor" where
  "collect_events i ev err s =
     (let c1 = (if ev AND reactor_event_read \<noteq> 0 then on_read_event i err ([], s) else ([], s));
          c2 = (if ev AND reactor_event_write \<noteq> 0 then on_write_event i err c1 else c1);
          c3 = (if ev AND reactor_event_error \<noteq> 0 \<or> err \<noteq> 0 then finish_slot i wait_error_slot err c2 else c2) in
      if err \<noteq> 0 then on_error_event i err c3 else c3)"

definition invoke_deferred_io :: "(op_id \<Rightarrow> reactor \<Rightarrow> reactor) \<Rightarrow> nat \<Rightarrow> reactor \<Rightarrow> reactor" where
  "invoke_deferred_io call i s =
     (let ev = ready_events (desc_of i s);
          s1 = upd_desc i (\<lambda>d. d\<lparr>impl_ref := False, is_enqueued := False, ready_events := 0\<rparr>) s in
      if ev = 0 then compensating_work_started s1
      else (case socket_error ev s1 of (err, s2) \<Rightarrow>
        (case collect_events i ev err s2 of
           ([], s3) \<Rightarrow> compensating_work_started s3
         | (x # rest, s3) \<Rightarrow> call x (post_deferred_completions (map (\<lambda>y. op_entry (sock_op i y)) rest) s3))))"

definition desc_destroy :: "nat \<Rightarrow> reactor \<Rightarrow> reactor" where
  "desc_destroy i = upd_desc i (\<lambda>d. d\<lparr>impl_ref := False\<rparr>)"

definition op_destroy :: "nat \<Rightarrow> op_id \<Rightarrow> reactor \<Rightarrow> reactor" where
  "op_destroy i x = upd_op i x (\<lambda>p. p\<lparr>stop_armed := False, impl_ptr := False\<rparr>)"

section \<open>Entries of the ready queue\<close>

text \<open>\<open>service n\<close> is the handler of a completion that another service posted.\<close>

fun exec_entry :: "bool \<Rightarrow> (nat \<Rightarrow> reactor \<Rightarrow> reactor) \<Rightarrow> (nat \<Rightarrow> reactor \<Rightarrow> reactor) \<Rightarrow> entry \<Rightarrow> reactor \<Rightarrow> reactor" where
  "exec_entry svc resume service task_entry s = s"
| "exec_entry svc resume service (op_entry (sock_op i x)) s = run_op svc resume i x s"
| "exec_entry svc resume service (op_entry (desc_op i)) s = invoke_deferred_io (run_op svc resume i) i s"
| "exec_entry svc resume service (op_entry (service_op n)) s = service n s"
| "exec_entry svc resume service (op_entry (post_handler h)) s = resume h s"
| "exec_entry svc resume service (cont_entry h) s = resume h s"

fun destroy_entry :: "entry \<Rightarrow> reactor \<Rightarrow> reactor" where
  "destroy_entry (op_entry (sock_op i x)) s = op_destroy i x s"
| "destroy_entry (op_entry (desc_op i)) s = desc_destroy i s"
| "destroy_entry _ s = s"

end
