(* ===== verification/Scheduler_Properties.thy ===== *)
theory Scheduler_Properties
  imports Reactor_Scheduler
begin

text \<open>
  Properties of the reactor scheduler: what the event loop guarantees when it returns, wake-ups by other
  threads, and the bounds of the inline completion budget.
\<close>

section \<open>Frames\<close>

lemma find_update_context [simp]:
  "reactor_find_context k (update_context k f cs) = map_option f (reactor_find_context k cs)"
  by (induction k f cs rule: update_context.induct) auto

lemma find_upd_context [simp]: "find_context (upd_context f s) = map_option f (find_context s)"
  by (simp add: find_context_def upd_context_def)

lemma find_context_cong: "self_key s' = self_key s \<Longrightarrow> context_stack s' = context_stack s \<Longrightarrow> find_context s' = find_context s"
  by (simp add: find_context_def)

lemma upd_context_fields [simp]:
  "self_key (upd_context f s) = self_key s"
  "completed_ops (upd_context f s) = completed_ops s"
  "outstanding_work (upd_context f s) = outstanding_work s"
  "stopped_flag (upd_context f s) = stopped_flag s"
  "inline_budget_max (upd_context f s) = inline_budget_max s"
  "inline_budget_initial (upd_context f s) = inline_budget_initial s"
  "unassisted_budget (upd_context f s) = unassisted_budget s"
  "thrown (upd_context f s) = thrown s"
  by (simp_all add: upd_context_def)

lemma find_context_simps [simp]:
  "find_context (s\<lparr>completed_ops := q\<rparr>) = find_context s"
  "find_context (s\<lparr>outstanding_work := w\<rparr>) = find_context s"
  "find_context (s\<lparr>state_word := v\<rparr>) = find_context s"
  "find_context (s\<lparr>stopped_flag := b\<rparr>) = find_context s"
  "find_context (s\<lparr>task_running := b\<rparr>) = find_context s"
  "find_context (s\<lparr>task_interrupted := b\<rparr>) = find_context s"
  by (simp_all add: find_context_def)

lemma find_push_frame [simp]: "find_context (push_frame s) = Some (new_context s)"
  by (simp add: find_context_def push_frame_def)

section \<open>Returning from the loop\<close>

definition idle :: "'a reactor_scheduler_scheme \<Rightarrow> bool" where
  "idle s \<longleftrightarrow> set (completed_ops s) \<subseteq> {task_entry} \<and> (\<forall>c. find_context s = Some c \<longrightarrow> private_queue c = [])"

text \<open>What a call of \<open>do_one\<close> that returns has done: run one entry, or found a reason to stop.\<close>

definition returned :: "(entry \<Rightarrow> 'a reactor_scheduler_scheme \<Rightarrow> 'a reactor_scheduler_scheme) \<Rightarrow> int \<Rightarrow>
    nat \<times> 'a reactor_scheduler_scheme \<Rightarrow> bool" where
  "returned exec timeout_us r \<longleftrightarrow> (case r of (n, s) \<Rightarrow>
     n = 1 \<and> (\<exists>e s1. e \<noteq> task_entry \<and> s = run_entry exec e s1) \<or>
     n = 0 \<and> (stopped_flag s \<or> thrown s \<noteq> None \<or> timeout_us > 0 \<or>
               (idle s \<and> (outstanding_work s = 0 \<or> timeout_us = 0))))"

lemma drain_private_unchanged: "reactor_drain_private_queue s = (False, s1) \<Longrightarrow>
    s1 = s \<and> (\<forall>c. find_context s = Some c \<longrightarrow> private_queue c = [])"
  by (auto simp: reactor_drain_private_queue_def split: option.splits if_splits)

lemma returned_intros:
  "stopped_flag s \<Longrightarrow> returned exec timeout_us (0, s)"
  "thrown s \<noteq> None \<Longrightarrow> returned exec timeout_us (0, s)"
  "timeout_us > 0 \<Longrightarrow> returned exec timeout_us (0, s)"
  "idle s \<Longrightarrow> outstanding_work s = 0 \<or> timeout_us = 0 \<Longrightarrow> returned exec timeout_us (0, s)"
  "e \<noteq> task_entry \<Longrightarrow> returned exec timeout_us (Suc 0, run_entry exec e s)"
  by (auto simp: returned_def)

lemma idle_sentinel: "completed_ops s = [] \<Longrightarrow> \<not> more_handlers s \<Longrightarrow> idle (s\<lparr>completed_ops := [task_entry]\<rparr>)"
  by (auto simp: idle_def more_handlers_def)

lemma more_handlers_nonempty [simp]: "completed_ops s \<noteq> [] \<Longrightarrow> more_handlers s"
  by (simp add: more_handlers_def)

lemma do_one_returned: "do_one exec poll wait timeout_us s = Some r \<Longrightarrow> returned exec timeout_us r"
proof (induction rule: do_one.raw_induct [rotated 1, consumes 1, case_names step])
  case (step loop exec poll wait timeout_us s r)
  note IH = step(1) and body = step(2)
  show ?case
  proof (cases "completed_ops s")
    case Nil
    obtain drained s1 where d: "reactor_drain_private_queue s = (drained, s1)" by fastforce
    have "\<not> drained \<Longrightarrow> s1 = s \<and> idle s"
      using drain_private_unchanged [of s s1] d Nil by (auto simp: idle_def)
    then show ?thesis using body Nil d
      by (auto intro: IH returned_intros split: if_splits option.splits)
  next
    case (Cons e es)
    have "es = [] \<or> more_handlers (s\<lparr>completed_ops := es\<rparr>)" by (cases es) auto
    then show ?thesis using body Cons idle_sentinel [of "s\<lparr>completed_ops := es\<rparr>"]
      by (auto simp: Let_def intro: IH returned_intros split: if_splits option.splits)
  qed
qed

section \<open>Timeouts\<close>

lemma clear_signal_idem [simp]: "clear_signal (clear_signal s) = clear_signal s"
  by (auto simp: clear_signal_def signaled_bit_def)

lemma clear_signal_fields [simp]:
  "stopped_flag (clear_signal s) = stopped_flag s"
  "completed_ops (clear_signal s) = completed_ops s"
  "outstanding_work (clear_signal s) = outstanding_work s"
  "find_context (clear_signal s) = find_context s"
  by (simp_all add: clear_signal_def find_context_def)

text \<open>A thread that finds the queue empty, with nothing happening until each wait times out.\<close>

definition starved :: "'a reactor_scheduler_scheme \<Rightarrow> bool" where
  "starved s \<longleftrightarrow> \<not> stopped_flag s \<and> completed_ops s = [] \<and> outstanding_work s \<noteq> 0 \<and>
     (\<forall>c. find_context s = Some c \<longrightarrow> private_queue c = [])"

lemma starved_drain: "starved s \<Longrightarrow> reactor_drain_private_queue s = (False, s)"
  by (auto simp: starved_def reactor_drain_private_queue_def split: option.splits)

lemma starved_do_one: "do_one exec poll wait timeout_us s = Some r \<Longrightarrow>
    starved s \<Longrightarrow> wait = (\<lambda>_ s. Some s) \<Longrightarrow> timeout_us \<noteq> 0 \<Longrightarrow> False"
proof (induction rule: do_one.raw_induct [rotated 1, consumes 1, case_names step])
  case (step loop exec poll wait timeout_us s r)
  have "loop exec poll wait timeout_us (clear_signal s) = Some r"
    using step(2-5) starved_drain [OF step(3)] by (simp add: starved_def split: if_splits)
  moreover have "starved (clear_signal s)" using step(3) by (simp add: starved_def)
  ultimately show ?case using step(1,4,5) by blast
qed

section \<open>The inline budget\<close>

definition budget_config :: "'a reactor_scheduler_scheme \<Rightarrow> bool" where
  "budget_config s \<longleftrightarrow> inline_budget_initial s \<le> inline_budget_max s \<and> unassisted_budget s \<le> inline_budget_max s \<and>
     inline_budget_max s < 2 ^ 30"

definition budget_range :: "'a reactor_scheduler_scheme \<Rightarrow> scheduler_context \<Rightarrow> bool" where
  "budget_range s c \<longleftrightarrow> 0 \<le> inline_budget c \<and> inline_budget c \<le> ctx_budget_max c \<and> ctx_budget_max c \<le> int (inline_budget_max s)"

definition budget_ok :: "'a reactor_scheduler_scheme \<Rightarrow> bool" where
  "budget_ok s \<longleftrightarrow> (case find_context s of None \<Rightarrow> True | Some c \<Rightarrow> budget_range s c)"

text \<open>A series of operations that complete inline if the budget allows it.\<close>

fun inline_run :: "nat \<Rightarrow> 'a reactor_scheduler_scheme \<Rightarrow> nat \<times> 'a reactor_scheduler_scheme" where
  "inline_run 0 s = (0, s)"
| "inline_run (Suc n) s = (case try_consume_inline_budget s of (b, s1) \<Rightarrow>
     (case inline_run n s1 of (k, s2) \<Rightarrow> (if b then k + 1 else k, s2)))"

lemma reset_budget_range:
  assumes "budget_config s" "budget_range s c"
  shows "budget_range s (reset_budget s c)"
proof -
  have small: "wrap_int (int n) = int n" if "n < 2 ^ 30" for n :: nat
    using that by (intro wrap_int_id) auto
  have "0 \<le> max 1 (ctx_budget_max c) * 2" "max 1 (ctx_budget_max c) * 2 < 2 ^ 31"
    using assms by (auto simp: budget_config_def budget_range_def)
  then have "wrap_int (max 1 (ctx_budget_max c) * 2) = max 1 (ctx_budget_max c) * 2"
    by (intro wrap_int_id) auto
  then show ?thesis using assms by (auto simp: budget_config_def budget_range_def reset_budget_def Let_def small)
qed

lemma budget_range_upd [simp]: "budget_range (upd_context f s) = budget_range s"
  by (simp add: fun_eq_iff budget_range_def)

lemma reset_inline_budget_ok: "budget_config s \<Longrightarrow> budget_ok s \<Longrightarrow> budget_ok (reset_inline_budget s)"
  using reset_budget_range [of s]
  by (auto simp: budget_ok_def reset_inline_budget_def split: option.splits)

lemma try_consume_budget:
  "try_consume_inline_budget s = (b, s1) \<Longrightarrow> budget_ok s \<Longrightarrow> budget_ok s1"
  "inline_budget_max (snd (try_consume_inline_budget s)) = inline_budget_max s"
  by (auto simp: try_consume_inline_budget_def budget_ok_def budget_range_def split: option.splits if_splits)

text \<open>What is left of the budget: nothing outside a context frame or with inline completion disabled.\<close>

definition budget_left :: "'a reactor_scheduler_scheme \<Rightarrow> nat" where
  "budget_left s = (case find_context s of
     None \<Rightarrow> 0
   | Some c \<Rightarrow> if inline_budget_max s = 0 then 0 else nat (inline_budget c))"

lemma budget_left_bound: "budget_ok s \<Longrightarrow> budget_left s \<le> inline_budget_max s"
  by (auto simp: budget_left_def budget_ok_def budget_range_def split: option.splits)

lemma try_consume_left: "budget_ok s \<Longrightarrow> try_consume_inline_budget s = (b, s1) \<Longrightarrow>
    b = (budget_left s > 0) \<and> budget_left s1 = budget_left s - 1"
  by (auto simp: try_consume_inline_budget_def budget_left_def budget_ok_def budget_range_def
      split: option.splits if_splits)

lemma inline_run_left: "budget_ok s \<Longrightarrow> inline_run n s = (k, s1) \<Longrightarrow>
    budget_ok s1 \<and> k = min n (budget_left s) \<and> budget_left s1 = budget_left s - n"
proof (induction n arbitrary: s k)
  case (Suc n)
  obtain b s2 where t: "try_consume_inline_budget s = (b, s2)" by fastforce
  obtain k2 where r: "inline_run n s2 = (k2, s1)" "k = (if b then k2 + 1 else k2)"
    using Suc.prems(2) t by (auto split: prod.splits)
  show ?case using Suc.IH [OF _ r(1)] r(2) try_consume_left [OF Suc.prems(1) t] try_consume_budget(1) [OF t Suc.prems(1)]
    by auto
qed simp

section \<open>Claims\<close>

text \<open>A scheduler without sentinel, and one whose queue holds two handlers, for the witnesses.\<close>

definition sample_scheduler :: "entry list \<Rightarrow> reactor_scheduler" where
  "sample_scheduler q = \<lparr>self_key = 7, context_stack = [], completed_ops = q, outstanding_work = 1, stopped_flag = False,
     task_running = True, task_interrupted = False, max_events_per_poll = 128, inline_budget_initial = 2,
     inline_budget_max = 16, unassisted_budget = 4, state_word = 0, one_thread = False,
     scheduler_locking_disabled = False, reactor_io_locking = True, notified_one = 0, notified_all = 0,
     eventfd_armed = False, eventfd_value = 0, thrown = None\<rparr>"



text \<open>
  C32: Timeouts of the event loop. While another thread holds the sentinel and nothing arrives, \<open>wait_one\<close> with
  any positive timeout never returns: each time its wait times out it starts the same wait again. With a
  zero timeout and only the sentinel queued, \<open>poll\<close> returns zero without polling the reactor, whatever events are
  ready in the kernel.
\<close>

theorem loop_timeouts:
  assumes "\<not> stopped_flag s" "outstanding_work s \<noteq> 0"
  shows "(completed_ops s = [] \<and> usec > 0 \<longrightarrow> wait_one exec poll (\<lambda>_ s. Some s) usec s = None) \<and>
    (completed_ops s = [task_entry] \<longrightarrow> poll_all exec poll wait s = Some (0, pop_frame (push_frame s)))"
proof
  show "completed_ops s = [] \<and> usec > 0 \<longrightarrow> wait_one exec poll (\<lambda>_ s. Some s) usec s = None"
  proof
    assume *: "completed_ops s = [] \<and> usec > 0"
    then have "starved (push_frame s)" using assms by (simp add: starved_def push_frame_def find_context_def new_context_def)
    then have "do_one exec poll (\<lambda>_ s. Some s) usec (push_frame s) = None"
      using starved_do_one [of exec poll "\<lambda>_ s. Some s" usec "push_frame s"] *
      by (cases "do_one exec poll (\<lambda>_ s. Some s) usec (push_frame s)") auto
    then show "wait_one exec poll (\<lambda>_ s. Some s) usec s = None" using assms by (simp add: wait_one_def guarded_def)
  qed
  show "completed_ops s = [task_entry] \<longrightarrow> poll_all exec poll wait s = Some (0, pop_frame (push_frame s))"
  proof
    assume q: "completed_ops s = [task_entry]"
    let ?f = "push_frame s"
    have f: "completed_ops ?f = [task_entry]" "\<not> stopped_flag ?f" "\<not> more_handlers (?f\<lparr>completed_ops := []\<rparr>)"
      using q assms by (simp_all add: push_frame_def more_handlers_def find_context_def new_context_def)
    then have "do_one exec poll wait 0 ?f = Some (0, ?f)" by (simp add: do_one.simps)
    then have "do_all exec poll wait 0 0 ?f = Some (0, ?f)" by (simp add: do_all.simps)
    then show "poll_all exec poll wait s = Some (0, pop_frame ?f)" using assms by (simp add: poll_all_def guarded_def)
  qed
qed

theorem loop_timeouts_witness:
  "wait_one (\<lambda>_ s. s) (\<lambda>_ _. None) (\<lambda>_ s. Some s) 1000 (sample_scheduler []) = None \<and>
   poll_all (\<lambda>_ s. s) (\<lambda>_ _. None) (\<lambda>_ _. None) (sample_scheduler [task_entry]) =
     Some (0, pop_frame (push_frame (sample_scheduler [task_entry])))"
  using loop_timeouts [of "sample_scheduler []" 1000 "\<lambda>_ s. s" "\<lambda>_ _. None"]
    loop_timeouts [of "sample_scheduler [task_entry]" 1000 "\<lambda>_ s. s" "\<lambda>_ _. None" "\<lambda>_ _. None"]
  by (simp add: sample_scheduler_def)

text \<open>
  C33: A post from a thread outside the loop queues the entry, counts its work and leaves the signal set. If a
  thread waits, one is notified; if none waits but a thread is polling the reactor, that poll has been
  interrupted, through the event descriptor unless an earlier interruption is still pending. Stopping notifies
  all waiting threads and arms the event descriptor.
\<close>

theorem foreign_post_wakes:
  assumes "find_context s = None"
  shows "(let s' = post_entry e s in
      completed_ops s' = completed_ops s @ [e] \<and> outstanding_work s' = outstanding_work s + 1 \<and> odd (state_word s') \<and>
      (state_word s \<ge> waiter_increment \<longrightarrow> notified_one s' = notified_one s + 1) \<and>
      (state_word s < waiter_increment \<and> task_running s \<longrightarrow>
         task_interrupted s' \<and> (task_interrupted s \<or> eventfd_armed s'))) \<and>
    (\<not> stopped_flag s \<longrightarrow>
      stopped_flag (stop s) \<and> notified_all (stop s) = notified_all s + 1 \<and> eventfd_armed (stop s))"
proof -
  have "odd (set_signal w)" "set_signal w > signaled_bit \<longleftrightarrow> w \<ge> waiter_increment" for w
    by (auto simp: set_signal_def signaled_bit_def waiter_increment_def elim: oddE)
  then show ?thesis
    using assms
    by (auto simp: post_entry_def wake_one_thread_and_unlock_def maybe_unlock_and_signal_one_def interrupt_reactor_def
        stop_def signal_all_def Let_def)
qed

theorem foreign_post_wakes_witness:
  "eventfd_armed (post_entry (cont_entry 3) (sample_scheduler [])) \<and>
   completed_ops (post_entry (cont_entry 3) (sample_scheduler [])) = [cont_entry 3]"
  using foreign_post_wakes [of "sample_scheduler []" "cont_entry 3"]
  by (simp add: sample_scheduler_def find_context_def waiter_increment_def Let_def)

text \<open>
  C34: With a maximal inline budget below \<^verbatim>\<open>2^30\<close> the budget of a context frame stays between zero and that maximum:
  a fresh frame, a refill and a series of inline completions keep it so. A series of \<open>n\<close> operations
  completes as many inline as the budget has left and no more, so after at most \<open>inline_budget_max\<close> of them
  the scheduler gets control back.
\<close>

theorem inline_budget_bounded:
  assumes "budget_config s" "budget_ok s"
  shows "budget_ok (push_frame s) \<and> budget_ok (reset_inline_budget s) \<and> budget_ok (snd (inline_run n s)) \<and>
    fst (inline_run n s) = min n (budget_left s) \<and> fst (inline_run n s) \<le> inline_budget_max s"
proof -
  have "budget_ok (push_frame s)"
    using assms(1)
    by (simp add: budget_ok_def budget_range_def new_context_def push_frame_def find_context_def budget_config_def wrap_int_id)
  then show ?thesis
    using reset_inline_budget_ok [OF assms] inline_run_left [OF assms(2), of n] budget_left_bound [OF assms(2)]
    by (cases "inline_run n s") auto
qed

theorem inline_budget_bounded_witness:
  "fst (inline_run 5 (reset_inline_budget (push_frame (sample_scheduler [])))) = 4"
proof -
  let ?s = "reset_inline_budget (push_frame (sample_scheduler []))"
  have "budget_config ?s" "budget_ok ?s"
    by (simp_all add: budget_config_def budget_ok_def budget_range_def reset_inline_budget_def reset_budget_def
        sample_scheduler_def push_frame_def new_context_def find_context_def upd_context_def wrap_int_def)
  from inline_budget_bounded [OF this, of 5] show ?thesis
    by (simp add: budget_left_def reset_inline_budget_def reset_budget_def
        sample_scheduler_def push_frame_def new_context_def find_context_def upd_context_def wrap_int_def)
qed

end
