(* ===== verification/Reactor_Balance.thy ===== *)
theory Reactor_Balance
  imports Reactor_Dispatch Scheduler_Properties
begin

text \<open>
  Conservation of operations and of work. An operation is pending while it is parked in a slot of a descriptor or
  queued for completion. The lemmas of this theory say for every operation of the sockets and of the
  scheduler what becomes of the pending operations and of the gap between the work that is counted and the
  work that is there.
\<close>

section \<open>Pending operations\<close>

text \<open>
  The work counted for a queued entry. A descriptor state is queued without work of its own. A timer
  completion carries the unit of its post and the unit counted since the wait began.
\<close>

fun entry_weight :: "entry \<Rightarrow> int" where
  "entry_weight task_entry = 0"
| "entry_weight (op_entry (desc_op i)) = 0"
| "entry_weight (op_entry (service_op n)) = 2"
| "entry_weight _ = 1"

fun entry_op :: "entry \<Rightarrow> (nat \<times> op_id) multiset" where
  "entry_op (op_entry (sock_op i x)) = {#(i, x)#}"
| "entry_op _ = {#}"

definition private_entries :: "'a reactor_scheduler_scheme \<Rightarrow> entry list" where
  "private_entries s = (case find_context s of None \<Rightarrow> [] | Some c \<Rightarrow> private_queue c)"

definition private_work :: "'a reactor_scheduler_scheme \<Rightarrow> int" where
  "private_work s = (case find_context s of None \<Rightarrow> 0 | Some c \<Rightarrow> private_outstanding_work c)"

definition queued :: "'a reactor_scheduler_scheme \<Rightarrow> entry list" where
  "queued s = completed_ops s @ private_entries s"

definition total_work :: "'a reactor_scheduler_scheme \<Rightarrow> int" where
  "total_work s = outstanding_work s + private_work s"

definition parked_in :: "nat \<Rightarrow> (desc_slot \<Rightarrow> op_id option) \<Rightarrow> (nat \<times> op_id) multiset" where
  "parked_in i sls = (\<Sum>sl \<in> set all_slots. case sls sl of None \<Rightarrow> {#} | Some x \<Rightarrow> {#(i, x)#})"

definition parked :: "reactor \<Rightarrow> (nat \<times> op_id) multiset" where
  "parked s = (\<Sum>i<length (sockets s). parked_in i (slots (desc_of i s)))"

definition pending :: "reactor \<Rightarrow> (nat \<times> op_id) multiset" where
  "pending s = (\<Sum>e \<leftarrow> queued s. entry_op e) + parked s"

text \<open>Counted work that belongs neither to a queued entry nor to a parked operation.\<close>

definition gap :: "reactor \<Rightarrow> int" where
  "gap s = total_work s - (\<Sum>e \<leftarrow> queued s. entry_weight e) - int (size (parked s))"

text \<open>The same for the shared counter, the shared queue and the parked operations.\<close>

definition slack :: "reactor \<Rightarrow> int" where
  "slack s = outstanding_work s - (\<Sum>e \<leftarrow> completed_ops s. entry_weight e) - int (size (parked s))"

definition in_loop :: "'a reactor_scheduler_scheme \<Rightarrow> bool" where
  "in_loop s \<longleftrightarrow> find_context s \<noteq> None"

text \<open>Every parked operation is in the slot of its kind.\<close>

definition typed_slots :: "reactor \<Rightarrow> bool" where
  "typed_slots s \<longleftrightarrow> (\<forall>i<length (sockets s). \<forall>sl x. slot_of i sl s = Some x \<longrightarrow> op_to_desc_slot x = sl)"

lemma typed_slots_cong: "sockets s' = sockets s \<Longrightarrow> typed_slots s' = typed_slots s"
  by (simp add: typed_slots_def)

text \<open>
  The private count is not negative, exactly the descriptor states marked as enqueued are queued, once each, and
  the slots are typed.
\<close>

definition work_ok :: "reactor \<Rightarrow> bool" where
  "work_ok s \<longleftrightarrow> private_work s \<ge> 0 \<and>
     (\<forall>i. count (mset (queued s)) (op_entry (desc_op i)) = of_bool (i < length (sockets s) \<and> is_enqueued (desc_of i s))) \<and>
     typed_slots s"

definition framed :: "reactor \<Rightarrow> reactor \<Rightarrow> bool" where
  "framed s s' \<longleftrightarrow> (in_loop s' \<longleftrightarrow> in_loop s) \<and> (work_ok s \<longrightarrow> work_ok s') \<and> timers s' = timers s \<and> epoll_events s' = epoll_events s \<and>
     self_key s' = self_key s \<and> map fst (context_stack s') = map fst (context_stack s) \<and>
     (task_entry \<in> set (completed_ops s) \<longrightarrow> task_entry \<in> set (completed_ops s')) \<and>
     length (sockets s) \<le> length (sockets s')"

lemma framed_trans [trans]: "framed s t \<Longrightarrow> framed t u \<Longrightarrow> framed s u"
  by (auto simp: framed_def)

text \<open>
  A step that adds the pending operations \<open>A\<close>, keeps the gap and does not stop the scheduler as long as there is
  slack in the shared counter.
\<close>

definition conserves :: "(nat \<times> op_id) multiset \<Rightarrow> reactor \<Rightarrow> reactor \<Rightarrow> bool" where
  "conserves A s s' \<longleftrightarrow> pending s' = pending s + A \<and> gap s' = gap s \<and> slack s \<le> slack s' \<and>
     (1 \<le> slack s \<longrightarrow> stopped_flag s' = stopped_flag s) \<and> framed s s'"

lemma conserves_refl [simp]: "conserves {#} s s"
  by (simp add: conserves_def framed_def)

lemma conserves_trans: "conserves A s s1 \<Longrightarrow> conserves B s1 s2 \<Longrightarrow> conserves (A + B) s s2"
  using framed_trans [of s s1 s2] by (auto simp: conserves_def)

lemma conserves_left: "conserves {#} s s1 \<Longrightarrow> conserves B s1 s2 \<Longrightarrow> conserves B s s2"
  using conserves_trans [of "{#}"] by fastforce

lemma conserves_right: "conserves A s s1 \<Longrightarrow> conserves {#} s1 s2 \<Longrightarrow> conserves A s s2"
  using conserves_trans [of _ _ _ "{#}"] by fastforce

section \<open>Parked operations\<close>

lemma all_slots_UNIV: "set all_slots = UNIV"
proof -
  have "sl \<in> set all_slots" for sl by (cases sl) (simp_all add: all_slots_def)
  then show ?thesis by auto
qed

definition in_slot :: "nat \<Rightarrow> op_id option \<Rightarrow> (nat \<times> op_id) multiset" where
  "in_slot i v = (case v of None \<Rightarrow> {#} | Some x \<Rightarrow> {#(i, x)#})"

lemma in_slot_simps [simp]: "in_slot i None = {#}" "in_slot i (Some x) = {#(i, x)#}"
  by (simp_all add: in_slot_def)

lemma parked_in_update: "parked_in i (sls(sl := v)) + in_slot i (sls sl) = parked_in i sls + in_slot i v"
proof -
  have "sl \<in> set all_slots" by (simp add: all_slots_UNIV)
  with finite_set have "parked_in i f = in_slot i (f sl) + (\<Sum>t \<in> set all_slots - {sl}. in_slot i (f t))" for f
    unfolding parked_in_def in_slot_def [symmetric] by (rule sum.remove)
  then show ?thesis by (simp add: ac_simps)
qed

lemma parked_in_none [simp]: "parked_in i (\<lambda>_. None) = {#}"
  by (simp add: parked_in_def)

lemma parked_cong: "length (sockets s') = length (sockets s) \<Longrightarrow>
    (\<And>i. i < length (sockets s) \<Longrightarrow> slots (desc_of i s') = slots (desc_of i s)) \<Longrightarrow> parked s' = parked s"
  by (simp add: parked_def)

lemma upd_sock_length [simp]: "length (sockets (upd_sock i f s)) = length (sockets s)"
  by (simp add: upd_sock_def)

lemma upd_sock_nth: "j < length (sockets s) \<Longrightarrow>
    sockets (upd_sock i f s) ! j = (if j = i then f (sockets s ! i) else sockets s ! j)"
  by (simp add: upd_sock_def)

lemma parked_upd_sock: "(\<And>k. slots (desc_state (f k)) = slots (desc_state k)) \<Longrightarrow> parked (upd_sock i f s) = parked s"
  by (rule parked_cong) (simp_all add: upd_sock_nth)

lemma parked_upd_op [simp]: "parked (upd_op i x f s) = parked s"
  unfolding upd_op_def by (rule parked_upd_sock) simp

lemma parked_upd_desc: "(\<And>d. slots (f d) = slots d) \<Longrightarrow> parked (upd_desc i f s) = parked s"
  unfolding upd_desc_def by (rule parked_upd_sock) simp

lemma parked_set_slot:
  assumes "i < length (sockets s)"
  shows "parked (set_slot i sl v s) + in_slot i (slot_of i sl s) = parked s + in_slot i v"
proof -
  let ?n = "length (sockets s)" and ?s = "set_slot i sl v s"
  have n: "finite {..<?n}" "i \<in> {..<?n}" using assms by auto
  have same: "slots (desc_of j ?s) = (if j = i then (slots (desc_of i s))(sl := v) else slots (desc_of j s))" if "j < ?n" for j
    using that by (simp add: set_slot_def upd_desc_def upd_sock_nth)
  have "parked ?s = (\<Sum>j<?n. parked_in j (slots (desc_of j ?s)))"
    by (simp add: parked_def set_slot_def upd_desc_def)
  also have "\<dots> = parked_in i ((slots (desc_of i s))(sl := v)) + (\<Sum>j\<in>{..<?n} - {i}. parked_in j (slots (desc_of j s)))"
    by (subst sum.remove [OF n]) (simp add: same assms)
  finally show ?thesis
    using parked_in_update [of i "slots (desc_of i s)" sl v] sum.remove [OF n, of "\<lambda>j. parked_in j (slots (desc_of j s))"]
    by (simp add: parked_def ac_simps)
qed

section \<open>Quiet steps\<close>

text \<open>Steps that touch neither queues, work counts nor slots, as rules that peel off the last update.\<close>

named_theorems quiet_steps

definition quiet :: "reactor \<Rightarrow> reactor \<Rightarrow> bool" where
  "quiet s s' \<longleftrightarrow> completed_ops s' = completed_ops s \<and> private_entries s' = private_entries s \<and>
     outstanding_work s' = outstanding_work s \<and> private_work s' = private_work s \<and>
     in_loop s' = in_loop s \<and> stopped_flag s' = stopped_flag s \<and> timers s' = timers s \<and> epoll_events s' = epoll_events s \<and>
     self_key s' = self_key s \<and> map fst (context_stack s') = map fst (context_stack s) \<and>
     length (sockets s') = length (sockets s) \<and>
     (\<forall>i<length (sockets s). slots (desc_of i s') = slots (desc_of i s) \<and> is_enqueued (desc_of i s') = is_enqueued (desc_of i s))"

lemma quiet_refl [simp, quiet_steps]: "quiet s s"
  by (simp add: quiet_def)

lemma quiet_trans: "quiet s s1 \<Longrightarrow> quiet s1 s2 \<Longrightarrow> quiet s s2"
  by (simp add: quiet_def)

lemma quiet_conserves: "quiet s s' \<Longrightarrow> conserves {#} s s'"
  using parked_cong [of s' s]
  by (simp add: quiet_def conserves_def framed_def pending_def gap_def slack_def total_work_def work_ok_def typed_slots_def queued_def)

lemma quiet_slot: "quiet s s' \<Longrightarrow> i < length (sockets s) \<Longrightarrow> slot_of i sl s' = slot_of i sl s"
  by (simp add: quiet_def)

lemma quiet_length: "quiet s s' \<Longrightarrow> length (sockets s') = length (sockets s)"
  by (simp add: quiet_def)

lemma find_context_sockets [simp]:
  "find_context (s\<lparr>sockets := k\<rparr>) = find_context s"
  "find_context (s\<lparr>kernel_calls := n\<rparr>) = find_context s"
  "find_context (s\<lparr>addresses_used := a\<rparr>) = find_context s"
  "find_context (s\<lparr>ec_result := e\<rparr>) = find_context s"
  "find_context (s\<lparr>bytes_result := b\<rparr>) = find_context s"
  "find_context (s\<lparr>source_result := r\<rparr>) = find_context s"
  "find_context (s\<lparr>accept_result := r'\<rparr>) = find_context s"
  "find_context (s\<lparr>epoll_interest := p\<rparr>) = find_context s"
  "find_context (s\<lparr>closed_fds := f\<rparr>) = find_context s"
  "find_context (s\<lparr>impl_list := l\<rparr>) = find_context s"
  "find_context (s\<lparr>thrown := x\<rparr>) = find_context s"
  by (simp_all add: find_context_def)

lemma upd_sock_fields [simp]:
  "completed_ops (upd_sock i f t) = completed_ops t" "outstanding_work (upd_sock i f t) = outstanding_work t"
  "stopped_flag (upd_sock i f t) = stopped_flag t" "timers (upd_sock i f t) = timers t" "epoll_events (upd_sock i f t) = epoll_events t"
    "self_key (upd_sock i f t) = self_key t" "map fst (context_stack (upd_sock i f t)) = map fst (context_stack t)"
  "private_entries (upd_sock i f t) = private_entries t" "private_work (upd_sock i f t) = private_work t"
  "in_loop (upd_sock i f t) = in_loop t"
  by (simp_all add: upd_sock_def private_entries_def private_work_def in_loop_def)

lemma quiet_upd_sock_at:
  assumes "slots (desc_state (f (sockets t ! i))) = slots (desc_of i t)"
    "is_enqueued (desc_state (f (sockets t ! i))) = is_enqueued (desc_of i t)" "quiet s t"
  shows "quiet s (upd_sock i f t)"
  using assms by (simp add: quiet_def upd_sock_nth)

lemma quiet_upd_sock: "(\<And>k. desc_state (f k) = desc_state k) \<Longrightarrow> quiet s t \<Longrightarrow> quiet s (upd_sock i f t)"
  by (rule quiet_upd_sock_at) simp_all

lemma quiet_upd_op [quiet_steps]: "quiet s t \<Longrightarrow> quiet s (upd_op i x f t)"
  unfolding upd_op_def by (rule quiet_upd_sock) simp_all

lemma quiet_upd_desc_at: "slots (f (desc_of i t)) = slots (desc_of i t) \<Longrightarrow>
    is_enqueued (f (desc_of i t)) = is_enqueued (desc_of i t) \<Longrightarrow> quiet s t \<Longrightarrow> quiet s (upd_desc i f t)"
  unfolding upd_desc_def by (rule quiet_upd_sock_at) simp_all

lemma quiet_upd_desc: "(\<And>d. slots (f d) = slots d) \<Longrightarrow> (\<And>d. is_enqueued (f d) = is_enqueued d) \<Longrightarrow>
    quiet s t \<Longrightarrow> quiet s (upd_desc i f t)"
  by (rule quiet_upd_desc_at) simp_all

lemma quiet_fields [quiet_steps]:
  "quiet s t \<Longrightarrow> quiet s (t\<lparr>kernel_calls := n\<rparr>)"
  "quiet s t \<Longrightarrow> quiet s (t\<lparr>addresses_used := a\<rparr>)"
  "quiet s t \<Longrightarrow> quiet s (t\<lparr>ec_result := e\<rparr>)"
  "quiet s t \<Longrightarrow> quiet s (t\<lparr>bytes_result := b\<rparr>)"
  "quiet s t \<Longrightarrow> quiet s (t\<lparr>source_result := r\<rparr>)"
  "quiet s t \<Longrightarrow> quiet s (t\<lparr>accept_result := r'\<rparr>)"
  "quiet s t \<Longrightarrow> quiet s (t\<lparr>epoll_interest := p\<rparr>)"
  "quiet s t \<Longrightarrow> quiet s (t\<lparr>closed_fds := f\<rparr>)"
  "quiet s t \<Longrightarrow> quiet s (t\<lparr>impl_list := l\<rparr>)"
  "quiet s t \<Longrightarrow> quiet s (t\<lparr>thrown := x\<rparr>)"
  by (simp_all add: quiet_def private_entries_def private_work_def in_loop_def)

lemma quiet_cancel_flag [quiet_steps]: "quiet s t \<Longrightarrow> quiet s (set_cancel_flag i sl b t)"
  unfolding set_cancel_flag_def by (rule quiet_upd_desc) simp_all

lemma quiet_small_steps [quiet_steps]:
  "quiet s t \<Longrightarrow> quiet s (write_ec h e t)"
  "quiet s t \<Longrightarrow> quiet s (write_bytes h n t)"
  "quiet s t \<Longrightarrow> quiet s (write_source h ep t)"
  "quiet s t \<Longrightarrow> quiet s (write_accept h j t)"
  "quiet s t \<Longrightarrow> quiet s (pass_address a t)"
  "quiet s t \<Longrightarrow> quiet s (close_fd fd t)"
  "quiet s t \<Longrightarrow> quiet s (deregister_descriptor fd t)"
  "quiet s t \<Longrightarrow> quiet s (snd (snd (syscall t)))"
  "quiet s t \<Longrightarrow> quiet s (snd (socket_family t))"
  by (auto simp: write_ec_def write_bytes_def write_source_def write_accept_def pass_address_def close_fd_def
      deregister_descriptor_def syscall_def socket_family_def intro: quiet_steps split: sys_result.splits)

lemma syscall_eq: "syscall t = (kernel t (kernel_calls t), kernel_names t (kernel_calls t), snd (snd (syscall t)))"
  by (simp add: syscall_def)

lemma quiet_perform_io [quiet_steps]: "quiet s t \<Longrightarrow> quiet s (perform_io i x t)"
  by (cases x) (auto simp: perform_io_def perform_connect_def perform_transfer_def perform_recv_from_def perform_accept_def
      syscall_def intro!: quiet_steps split: sys_result.splits)

lemma update_context_keys [simp]: "map fst (update_context k f cs) = map fst cs"
  by (induction k f cs rule: update_context.induct) auto

lemma upd_context_sockets [simp]: "sockets (upd_context f t) = sockets t" "timers (upd_context f t) = timers t" "epoll_events (upd_context f t) = epoll_events t"
  "map fst (context_stack (upd_context f t)) = map fst (context_stack t)"
  by (simp_all add: upd_context_def)

lemma quiet_upd_context:
  "(\<And>c. private_queue (f c) = private_queue c \<and> private_outstanding_work (f c) = private_outstanding_work c) \<Longrightarrow>
    quiet s t \<Longrightarrow> quiet s (upd_context f t)"
  by (auto simp: quiet_def queued_def private_entries_def private_work_def in_loop_def split: option.splits)

lemma quiet_budget [quiet_steps]:
  "quiet s t \<Longrightarrow> quiet s (snd (try_consume_inline_budget t))"
  "quiet s t \<Longrightarrow> quiet s (reset_inline_budget t)"
  by (auto simp: try_consume_inline_budget_def reset_inline_budget_def reset_budget_def Let_def
      intro!: quiet_upd_context split: option.splits)

section \<open>Scheduler steps\<close>

lemma private_upd:
  "private_entries (upd_context f s) = (case find_context s of None \<Rightarrow> [] | Some c \<Rightarrow> private_queue (f c))"
  "private_work (upd_context f s) = (case find_context s of None \<Rightarrow> 0 | Some c \<Rightarrow> private_outstanding_work (f c))"
  "in_loop (upd_context f s) = in_loop s"
  by (simp_all add: private_entries_def private_work_def in_loop_def split: option.splits)

lemma wake_fields [simp]:
  "find_context (wake_one_thread_and_unlock s) = find_context s"
  "completed_ops (wake_one_thread_and_unlock s) = completed_ops s"
  "outstanding_work (wake_one_thread_and_unlock s) = outstanding_work s"
  by (auto simp: wake_one_thread_and_unlock_def maybe_unlock_and_signal_one_def interrupt_reactor_def find_context_def Let_def)

lemma wake_sockets [simp]: "sockets (wake_one_thread_and_unlock s) = sockets s"
  "timers (wake_one_thread_and_unlock s) = timers s" "epoll_events (wake_one_thread_and_unlock s) = epoll_events s"
    "self_key (wake_one_thread_and_unlock s) = self_key s" "map fst (context_stack (wake_one_thread_and_unlock s)) = map fst (context_stack s)" "stopped_flag (wake_one_thread_and_unlock s) = stopped_flag s"
  by (auto simp: wake_one_thread_and_unlock_def maybe_unlock_and_signal_one_def interrupt_reactor_def Let_def)

lemma post_entry_view:
  "queued (post_entry e s) = queued s @ [e]" "total_work (post_entry e s) = total_work s + 1"
  "task_entry \<in> set (completed_ops s) \<Longrightarrow> task_entry \<in> set (completed_ops (post_entry e s))"
  "in_loop (post_entry e s) = in_loop s" "private_work s \<ge> 0 \<Longrightarrow> private_work (post_entry e s) \<ge> 0"
  by (auto simp: post_entry_def queued_def total_work_def private_entries_def private_work_def in_loop_def Let_def
      split: option.splits)

lemma post_entry_sockets [simp]: "sockets (post_entry e s) = sockets s" "timers (post_entry e s) = timers s" "epoll_events (post_entry e s) = epoll_events s"
    "self_key (post_entry e s) = self_key s" "map fst (context_stack (post_entry e s)) = map fst (context_stack s)"
  "stopped_flag (post_entry e s) = stopped_flag s"
  by (auto simp: post_entry_def Let_def split: option.splits)

lemma post_entry_ok: "work_ok s \<Longrightarrow> (\<And>i. e \<noteq> op_entry (desc_op i)) \<Longrightarrow> work_ok (post_entry e s)"
  by (auto simp: work_ok_def post_entry_view typed_slots_def)

lemma stop_fields [simp]:
  "find_context (stop s) = find_context s" "completed_ops (stop s) = completed_ops s"
  "outstanding_work (stop s) = outstanding_work s"
  by (auto simp: stop_def signal_all_def interrupt_reactor_def find_context_def)

lemma stop_sockets [simp]: "sockets (stop s) = sockets s" "timers (stop s) = timers s" "epoll_events (stop s) = epoll_events s"
    "self_key (stop s) = self_key s" "map fst (context_stack (stop s)) = map fst (context_stack s)"
  by (auto simp: stop_def signal_all_def interrupt_reactor_def)

lemma work_finished_view:
  "completed_ops (sched_work_finished s) = completed_ops s"
  "queued (sched_work_finished s) = queued s" "total_work (sched_work_finished s) = total_work s - 1"
  "in_loop (sched_work_finished s) = in_loop s" "private_work (sched_work_finished s) = private_work s"
  by (auto simp: sched_work_finished_def queued_def total_work_def private_entries_def private_work_def in_loop_def Let_def)

lemma work_finished_sockets [simp]: "sockets (sched_work_finished s) = sockets s" "timers (sched_work_finished s) = timers s" "epoll_events (sched_work_finished s) = epoll_events s"
    "self_key (sched_work_finished s) = self_key s" "map fst (context_stack (sched_work_finished s)) = map fst (context_stack s)"
  "outstanding_work s \<noteq> 1 \<Longrightarrow> stopped_flag (sched_work_finished s) = stopped_flag s"
  by (auto simp: sched_work_finished_def Let_def)

lemma work_started_view:
  "completed_ops (sched_work_started s) = completed_ops s"
  "queued (sched_work_started s) = queued s" "total_work (sched_work_started s) = total_work s + 1"
  "in_loop (sched_work_started s) = in_loop s" "private_work (sched_work_started s) = private_work s"
  by (auto simp: sched_work_started_def queued_def total_work_def private_entries_def private_work_def in_loop_def)

lemma work_started_sockets [simp]: "sockets (sched_work_started s) = sockets s" "timers (sched_work_started s) = timers s" "epoll_events (sched_work_started s) = epoll_events s"
    "self_key (sched_work_started s) = self_key s" "map fst (context_stack (sched_work_started s)) = map fst (context_stack s)"
  "stopped_flag (sched_work_started s) = stopped_flag s"
  by (simp_all add: sched_work_started_def)

lemma work_ok_sched: "work_ok (sched_work_finished s) = work_ok s" "work_ok (sched_work_started s) = work_ok s"
  by (simp_all add: work_ok_def work_finished_view work_started_view typed_slots_def)

lemma parked_sockets: "sockets s' = sockets s \<Longrightarrow> parked s' = parked s"
  by (simp add: parked_def)

lemmas view_simps = post_entry_view work_finished_view work_started_view work_ok_sched post_entry_ok
lemmas parked_sched = parked_sockets [OF post_entry_sockets(1)] parked_sockets [OF work_finished_sockets(1)]
  parked_sockets [OF work_started_sockets(1)]

lemma weights_nonneg: "(\<Sum>e \<leftarrow> es. entry_weight e) \<ge> 0"
proof -
  have "entry_weight e \<ge> 0" for e by (cases e rule: entry_weight.cases) simp_all
  then show ?thesis by (intro sum_list_nonneg) auto
qed

lemma slack_work: "slack s \<le> outstanding_work s"
  using weights_nonneg [of "completed_ops s"] by (simp add: slack_def)

lemma slack_post: "entry_weight e \<le> 1 \<Longrightarrow> slack s \<le> slack (post_entry e s)"
proof -
  assume "entry_weight e \<le> 1"
  moreover have "parked (post_entry e s) = parked s" by (rule parked_sched)
  ultimately show ?thesis by (auto simp: slack_def post_entry_def Let_def split: option.splits)
qed

lemma slack_finished: "slack (sched_work_finished s) = slack s - 1"
  using parked_sched(2) [of s] by (auto simp: slack_def sched_work_finished_def Let_def)

lemma slack_started: "slack (sched_work_started s) = slack s + 1"
  using parked_sched(3) [of s] by (simp add: slack_def sched_work_started_def)

lemma post_sock_op: "conserves {#(i, x)#} s (post_op (sock_op i x) s)"
  using slack_post [of "op_entry (sock_op i x)" s]
  by (simp add: conserves_def framed_def post_op_def pending_def gap_def view_simps parked_sched)

text \<open>Posting an operation and giving back the work of its parked time.\<close>

lemma post_finish: "let s' = sched_work_finished (post_op (sock_op i x) s) in
    pending s' = pending s + {#(i, x)#} \<and> gap s' = gap s - 1 \<and> slack s - 1 \<le> slack s' \<and>
    (2 \<le> slack s \<longrightarrow> stopped_flag s' = stopped_flag s) \<and> framed s s' \<and> sockets s' = sockets s"
proof -
  let ?p = "post_op (sock_op i x) s"
  have "slack s \<le> slack ?p" unfolding post_op_def by (rule slack_post) simp
  moreover have "2 \<le> slack s \<Longrightarrow> outstanding_work ?p \<noteq> 1" using calculation slack_work [of ?p] by simp
  ultimately show ?thesis
    by (simp add: slack_finished post_op_def pending_def gap_def view_simps parked_sched framed_def Let_def)
qed

lemma set_slot_view [simp]: "queued (set_slot i sl v s) = queued s" "total_work (set_slot i sl v s) = total_work s"
  "in_loop (set_slot i sl v s) = in_loop s" "stopped_flag (set_slot i sl v s) = stopped_flag s"
  "completed_ops (set_slot i sl v s) = completed_ops s" "outstanding_work (set_slot i sl v s) = outstanding_work s"
  "length (sockets (set_slot i sl v s)) = length (sockets s)"
  by (simp_all add: set_slot_def upd_desc_def queued_def total_work_def)

lemma set_slot_framed:
  assumes "\<And>x. v = Some x \<Longrightarrow> op_to_desc_slot x = sl"
  shows "framed s (set_slot i sl v s)"
proof -
  have "typed_slots s \<Longrightarrow> typed_slots (set_slot i sl v s)"
    using assms by (auto simp: typed_slots_def set_slot_def upd_desc_def upd_sock_nth)
  moreover
  have "is_enqueued (desc_of j (set_slot i sl v s)) = is_enqueued (desc_of j s)" if "j < length (sockets s)" for j
    using that by (simp add: set_slot_def upd_desc_def upd_sock_nth)
  moreover have "private_work (set_slot i sl v s) = private_work s" "timers (set_slot i sl v s) = timers s" "epoll_events (set_slot i sl v s) = epoll_events s"
    "self_key (set_slot i sl v s) = self_key s" "map fst (context_stack (set_slot i sl v s)) = map fst (context_stack s)"
    by (simp_all add: set_slot_def upd_desc_def)
  ultimately show ?thesis by (auto simp: framed_def work_ok_def)
qed

lemma clear_slot_framed [simp]: "framed s (set_slot i sl None s)"
  by (rule set_slot_framed) simp

lemma set_slot_nth: "i < length (sockets s) \<Longrightarrow> slot_of i t (set_slot i sl v s) = (if t = sl then v else slot_of i t s)"
  by (simp add: set_slot_def upd_desc_def upd_sock_nth)

lemma park_op:
  assumes "i < length (sockets s)" "slot_of i sl s = None"
  shows "pending (set_slot i sl (Some x) s) = pending s + {#(i, x)#}" "gap (set_slot i sl (Some x) s) = gap s - 1"
    "slack (set_slot i sl (Some x) s) = slack s - 1"
  using parked_set_slot [OF assms(1), of sl "Some x"] assms(2) by (simp_all add: pending_def gap_def slack_def)

lemma unpark_op:
  assumes "i < length (sockets s)" "slot_of i sl s = Some x"
  shows "pending s = pending (set_slot i sl None s) + {#(i, x)#}" "gap (set_slot i sl None s) = gap s + 1"
    "slack (set_slot i sl None s) = slack s + 1"
proof -
  have "parked s = add_mset (i, x) (parked (set_slot i sl None s))"
    using parked_set_slot [OF assms(1), of sl None] assms(2) by simp
  then show "pending s = pending (set_slot i sl None s) + {#(i, x)#}" "gap (set_slot i sl None s) = gap s + 1"
    "slack (set_slot i sl None s) = slack s + 1"
    by (simp_all add: pending_def gap_def slack_def)
qed

section \<open>Cancelling and registering\<close>

lemma quiet_gap: "quiet s t \<Longrightarrow> gap t = gap s \<and> pending t = pending s \<and> slack t = slack s \<and> stopped_flag t = stopped_flag s \<and>
    framed s t \<and> length (sockets t) = length (sockets s)"
  using quiet_conserves [of s t] quiet_length [of s t] parked_cong [of t s]
  by (simp add: conserves_def quiet_def slack_def)

text \<open>Moving a parked operation to the queue: the multiset of pending operations and the gap stay the same.\<close>

lemma repost_claimed:
  assumes "i < length (sockets s)" "slot_of i sl s = Some x"
  shows "conserves {#} s (repost i x (set_slot i sl None s))"
proof -
  let ?u = "set_slot i sl None s"
  let ?v = "upd_op i x (\<lambda>p. p\<lparr>impl_ptr := True\<rparr>) ?u"
  have q: "quiet ?u ?v" by (intro quiet_steps)
  from post_finish [of i x ?v] unpark_op [OF assms] quiet_gap [OF q]
  show ?thesis
    by (auto simp: conserves_def repost_def Let_def intro: framed_trans [OF clear_slot_framed framed_trans])
qed

lemma quiet_op [simp]: "quiet s (upd_op i x f s)"
  by (intro quiet_steps)

lemma basic_cancel_conserves: "i < length (sockets s) \<Longrightarrow> conserves {#} s (basic_cancel_single_op i x s)"
proof -
  assume i: "i < length (sockets s)"
  let ?s1 = "upd_op i x request_cancel s" and ?sl = "op_to_desc_slot x"
  have q: "quiet s ?s1" by simp
  show ?thesis
  proof (cases "owned (sockets s ! i) \<and> slot_of i ?sl ?s1 = Some x")
    case True
    then have "conserves {#} ?s1 (repost i x (set_slot i ?sl None ?s1))"
      using i quiet_length [OF q] by (intro repost_claimed) simp_all
    with True conserves_left [OF quiet_conserves [OF q]] show ?thesis by (simp add: basic_cancel_single_op_def Let_def)
  next
    case False
    have "quiet s (basic_cancel_single_op i x s)"
      using False by (auto simp: basic_cancel_single_op_def Let_def intro!: quiet_steps)
    then show ?thesis by (rule quiet_conserves)
  qed
qed

lemma try_claim_cases: "try_claim i x sl (b, s) =
    (if \<not> b \<and> slot_of i sl s = Some x then (True, set_slot i sl None s) else (b, s))"
  by (simp add: try_claim_def)

lemma acceptor_cancel_conserves: "i < length (sockets s) \<Longrightarrow> conserves {#} s (acceptor_cancel_single_op i x s)"
proof -
  assume i: "i < length (sockets s)"
  let ?s1 = "upd_op i x request_cancel s"
  have q: "quiet s ?s1" by simp
  have "conserves {#} ?s1 (repost i x (set_slot i sl None ?s1))" if "slot_of i sl ?s1 = Some x" for sl
    using that i quiet_length [OF q] by (intro repost_claimed) simp_all
  then have "conserves {#} s (repost i x (set_slot i sl None ?s1))" if "slot_of i sl ?s1 = Some x" for sl
    using that conserves_left [OF quiet_conserves [OF q]] by blast
  then show ?thesis
    using quiet_conserves [OF q] by (auto simp: acceptor_cancel_single_op_def try_claim_cases Let_def)
qed

lemma on_cancel_conserves: "i < length (sockets s) \<Longrightarrow> conserves {#} s (on_cancel i x s)"
  using quiet_conserves [of s "upd_op i x request_cancel s"]
  by (auto simp: on_cancel_def cancel_single_op_def basic_cancel_conserves acceptor_cancel_conserves)

text \<open>Slots that are free stay free while an operation is started.\<close>

lemma repost_slots [simp]: "i < length (sockets s) \<Longrightarrow> slot_of i sl (repost j x s) = slot_of i sl s"
  using quiet_slot [OF quiet_op] by (simp add: repost_def post_op_def)

lemma basic_cancel_free: "i < length (sockets s) \<Longrightarrow> slot_of i sl s = None \<Longrightarrow> slot_of i sl (basic_cancel_single_op i x s) = None"
proof -
  assume a: "i < length (sockets s)" "slot_of i sl s = None"
  have u: "slot_of i t (upd_op i x f s) = slot_of i t s" for t f using a(1) by (intro quiet_slot [OF quiet_op])
  have "quiet s (set_cancel_flag i t True (upd_op i x request_cancel s))" for t by (intro quiet_steps)
  then have "slot_of i t' (set_cancel_flag i t True (upd_op i x request_cancel s)) = slot_of i t' s" for t t'
    using a(1) quiet_slot by blast
  then show ?thesis using a u quiet_length [OF quiet_op] by (simp add: basic_cancel_single_op_def set_slot_nth Let_def)
qed

lemma acceptor_cancel_free: "i < length (sockets s) \<Longrightarrow> slot_of i sl s = None \<Longrightarrow> slot_of i sl (acceptor_cancel_single_op i x s) = None"
proof -
  assume a: "i < length (sockets s)" "slot_of i sl s = None"
  have u: "slot_of i t (upd_op i x f s) = slot_of i t s" for t f using a(1) by (intro quiet_slot [OF quiet_op])
  show ?thesis using a u quiet_length [OF quiet_op]
    by (auto simp: acceptor_cancel_single_op_def try_claim_cases set_slot_nth Let_def)
qed

lemma op_start_conserves: "i < length (sockets s) \<Longrightarrow> conserves {#} s (op_start i x token s)"
  using conserves_left [OF quiet_conserves [OF quiet_op] on_cancel_conserves] quiet_length [OF quiet_op]
  by (simp add: op_start_def quiet_conserves Let_def)

lemma on_cancel_free: "i < length (sockets s) \<Longrightarrow> slot_of i sl s = None \<Longrightarrow> slot_of i sl (on_cancel i x s) = None"
  using basic_cancel_free [of i s sl x] acceptor_cancel_free [of i s sl x] quiet_slot [OF quiet_op]
  by (simp add: on_cancel_def cancel_single_op_def)

lemma op_start_free:
  assumes "i < length (sockets s)" "slot_of i sl s = None"
  shows "slot_of i sl (op_start i x token s) = None"
proof -
  let ?t = "upd_op i x (\<lambda>p. p\<lparr>owner_set := True, cancelled := False, stop_armed := token \<noteq> no_stop\<rparr>) s"
  have t: "i < length (sockets ?t)" "slot_of i sl ?t = None"
    using assms quiet_length [OF quiet_op] quiet_slot [OF quiet_op] by simp_all
  show ?thesis
  proof (cases "token = stop_requested")
    case True
    then have "op_start i x token s = on_cancel i x ?t" unfolding op_start_def Let_def by (rule if_P)
    with on_cancel_free [OF t] show ?thesis by (simp only:)
  next
    case False
    then have "op_start i x token s = ?t" unfolding op_start_def Let_def by (rule if_not_P)
    with t(2) show ?thesis by (simp only:)
  qed
qed

lemma conserves_length: "conserves A s t \<Longrightarrow> i < length (sockets s) \<Longrightarrow> i < length (sockets t)"
  by (simp add: conserves_def framed_def)

lemma arm_op_ok:
  assumes "i < length (sockets s)"
  shows "conserves {#} s (arm_op i x h token s)"
    and "slot_of i sl s = None \<Longrightarrow> slot_of i sl (arm_op i x h token s) = None"
proof -
  let ?u = "upd_op i x (\<lambda>p. p\<lparr>op_handle := h\<rparr>) s"
  have q: "quiet s ?u" by simp
  have i: "i < length (sockets ?u)" using assms quiet_length [OF q] by simp
  have c: "conserves {#} s (op_start i x token ?u)"
    by (rule conserves_left [OF quiet_conserves [OF q] op_start_conserves [OF i]])
  show "conserves {#} s (arm_op i x h token s)"
    unfolding arm_op_def by (rule conserves_right [OF c quiet_conserves [OF quiet_op]])
  show "slot_of i sl (arm_op i x h token s) = None" if "slot_of i sl s = None"
    using op_start_free [OF i, of sl] that quiet_slot [OF q assms, of sl]
      quiet_slot [OF quiet_op conserves_length [OF c assms]] by (simp add: arm_op_def)
qed

lemma try_cached_edge_quiet: "quiet s (snd (try_cached_edge i x r s))"
proof -
  have "quiet s (upd_desc i (clear_flag r) s)"
    by (rule quiet_upd_desc) (simp_all add: clear_flag_def split: ready_flag.split)
  then show ?thesis by (auto simp: try_cached_edge_def Let_def intro!: quiet_steps)
qed

lemma take_cancel_flag_quiet: "quiet s (take_cancel_flag i x sl s)"
  by (auto simp: take_cancel_flag_def intro!: quiet_steps)

text \<open>\<open>register_op\<close> makes the operation pending, parked or queued, with one unit of work.\<close>

lemma work_started_framed [simp]: "framed s (sched_work_started s)"
  by (simp add: framed_def view_simps)

lemma finish_or_park:
  assumes "i < length (sockets s)" "slot_of i sl s = None" "op_to_desc_slot x = sl" "quiet (sched_work_started s) t"
  shows "conserves {#(i, x)#} s
    (if b then sched_work_finished (post_op (sock_op i x) t) else set_slot i sl (Some x) t)"
proof -
  have "gap (sched_work_started s) = gap s + 1" "pending (sched_work_started s) = pending s"
    by (simp_all add: gap_def pending_def view_simps parked_sched)
  then have t: "gap t = gap s + 1" "pending t = pending s" "slack t = slack s + 1" "stopped_flag t = stopped_flag s"
    "framed s t" "length (sockets t) = length (sockets s)" "slot_of i sl t = None"
    using quiet_gap [OF assms(4)] quiet_slot [OF assms(4), of i sl] assms(1,2) slack_started [of s]
      framed_trans [OF work_started_framed] by simp_all
  have "framed t (set_slot i sl (Some x) t)" using assms(3) by (intro set_slot_framed) simp
  then show ?thesis
    using t assms(1) post_finish [of i x t] park_op [of i t sl x] framed_trans [OF t(5)]
    by (auto simp: conserves_def Let_def)
qed

lemma register_op_conserves:
  assumes "i < length (sockets s)" "slot_of i sl s = None" "op_to_desc_slot x = sl"
  shows "conserves {#(i, x)#} s (register_op i x sl r s)"
proof -
  let ?w = "sched_work_started s"
  obtain b t where e: "try_cached_edge i x r ?w = (b, t)" by fastforce
  have q: "quiet ?w (take_cancel_flag i x sl t)"
    using quiet_trans [OF try_cached_edge_quiet [of ?w i x r] take_cancel_flag_quiet [of _ i x sl]] e by simp
  show ?thesis
    using finish_or_park [OF assms q, of "b \<or> cancelled (op_of i x (take_cancel_flag i x sl t))"] e
    by (simp add: register_op_def Let_def)
qed

section \<open>Operations of the sockets\<close>

lemma arm_post:
  assumes "quiet s t" "i < length (sockets s)"
  shows "conserves {#(i, x)#} s (post_completed i x err b (arm_op i x h token t))"
proof -
  have "conserves {#} s (arm_op i x h token t)"
    using conserves_left [OF quiet_conserves [OF assms(1)] arm_op_ok(1)] quiet_length [OF assms(1)] assms(2) by simp
  then have "conserves {#} s (upd_op i x (op_complete err b) (arm_op i x h token t))"
    by (rule conserves_right [OF _ quiet_conserves [OF quiet_op]])
  then show ?thesis unfolding post_completed_def by (rule conserves_left [OF _ post_sock_op])
qed

lemma arm_register:
  assumes "quiet s t" "i < length (sockets s)" "slot_of i sl s = None" "op_to_desc_slot x = sl"
  shows "conserves {#(i, x)#} s (register_op i x sl r (arm_op i x h token t))"
proof -
  have t: "i < length (sockets t)" "slot_of i sl t = None"
    using assms quiet_length [OF assms(1)] quiet_slot [OF assms(1,2)] by simp_all
  have "conserves {#} s (arm_op i x h token t)"
    by (rule conserves_left [OF quiet_conserves [OF assms(1)] arm_op_ok(1) [OF t(1)]])
  then show ?thesis
    using register_op_conserves [OF _ arm_op_ok(2) [OF t] assms(4)] conserves_length [OF _ assms(2)] conserves_left by blast
qed

lemma quiet_consume: "try_consume_inline_budget t = (b, s2) \<Longrightarrow> quiet s t \<Longrightarrow> quiet s s2"
  using quiet_budget(1) [of s t] by simp

lemma quiet_set_op_fd [quiet_steps]: "quiet s t \<Longrightarrow> quiet s (set_op_fd i x t)"
  unfolding set_op_fd_def by (intro quiet_steps)

text \<open>
  What an operation of the interface does to the pending operations: none is added when it completed
  inline, itself otherwise.
\<close>

definition issues :: "nat \<Rightarrow> op_id \<Rightarrow> reactor \<Rightarrow> bool \<times> reactor \<Rightarrow> bool" where
  "issues i x s r \<longleftrightarrow> conserves (if fst r then {#} else {#(i, x)#}) s (snd r)"

lemma issues_simps [simp]:
  "issues i x s (True, t) \<longleftrightarrow> conserves {#} s t" "issues i x s (False, t) \<longleftrightarrow> conserves {#(i, x)#} s t"
  by (simp_all add: issues_def)

lemma do_read_some_issues:
  assumes "i < length (sockets s)" "slot_of i read_slot s = None"
  shows "issues i rd s (do_read_some i h param token s)"
  by (auto simp: do_read_some_def syscall_def Let_def split: prod.split bool.split
      intro!: arm_post [OF _ assms(1)] arm_register [OF _ assms] quiet_conserves quiet_steps intro: quiet_consume)

lemma do_write_some_issues:
  assumes "i < length (sockets s)" "slot_of i write_slot s = None"
  shows "issues i wr s (do_write_some i h param token s)"
  by (auto simp: do_write_some_def syscall_def Let_def split: prod.split bool.split
      intro!: arm_post [OF _ assms(1)] arm_register [OF _ assms] quiet_conserves quiet_steps intro: quiet_consume)

lemma do_wait_issues:
  assumes "i < length (sockets s)" "slot_of i (op_to_desc_slot x) s = None"
    and "x = (case w of wait_for_read \<Rightarrow> wait_rd | wait_for_write \<Rightarrow> wait_wr | wait_for_error \<Rightarrow> wait_er)"
  shows "issues i x s (do_wait i h w token s)"
  using assms
  by (cases w) (auto simp: do_wait_def prepare_wait_def split: prod.split bool.split
      intro!: arm_post arm_register quiet_conserves quiet_steps intro: quiet_consume)

lemma quiet_cache_local [quiet_steps]: "quiet s t \<Longrightarrow> quiet s (cache_local_endpoint i t)"
  by (auto simp: cache_local_endpoint_def syscall_def split: sys_result.split intro!: quiet_upd_sock quiet_steps)

lemma do_connect_issues:
  assumes "i < length (sockets s)" "slot_of i connect_slot s = None"
  shows "issues i conn s (do_connect i h ep token s)"
  by (auto simp: do_connect_def socket_family_def prepare_connect_def syscall_def Let_def
      split: prod.split bool.split sys_result.split
      intro!: arm_post [OF _ assms(1)] arm_register [OF _ assms] quiet_conserves quiet_steps quiet_upd_sock
      intro: quiet_consume)

lemma dgram_dispatch_issues:
  assumes "i < length (sockets s)" "slot_of i (op_to_desc_slot x) s = None" "quiet s t"
  shows "issues i x s (dgram_dispatch i x flag h token found r t)"
  using assms(3)
  by (auto simp: dgram_dispatch_def Let_def split: prod.split bool.split option.split
      intro!: arm_post [OF _ assms(1)] arm_register [OF _ assms(1,2)] quiet_conserves quiet_steps intro: quiet_consume)

lemma do_send_to_issues:
  assumes "i < length (sockets s)" "slot_of i write_slot s = None"
  shows "issues i wr s (do_send_to i h param dest flags token s)"
  using assms
  by (auto simp: do_send_to_def socket_family_def syscall_def Let_def split: prod.split sys_result.split
      intro!: dgram_dispatch_issues quiet_steps)

lemma do_recv_from_issues:
  assumes "i < length (sockets s)" "slot_of i read_slot s = None"
  shows "issues i rd s (do_recv_from i h param source flags token s)"
  using assms
  by (auto simp: do_recv_from_def syscall_def Let_def split: prod.split sys_result.split
      intro!: arm_post dgram_dispatch_issues quiet_steps)

lemma do_send_issues:
  assumes "i < length (sockets s)" "slot_of i write_slot s = None"
  shows "issues i send_wr s (do_send i h param flags token s)"
  using assms
  by (auto simp: do_send_def syscall_def Let_def split: prod.split intro!: dgram_dispatch_issues quiet_steps)

lemma do_recv_issues:
  assumes "i < length (sockets s)" "slot_of i read_slot s = None"
  shows "issues i recv_rd s (do_recv i h param flags token s)"
  using assms
  by (auto simp: do_recv_def syscall_def Let_def split: prod.split intro!: arm_post dgram_dispatch_issues quiet_steps)

section \<open>Closing\<close>

text \<open>Claimed operations leave their slots; posting them and giving back their work restores the balance.\<close>

lemma request_cancel_all_quiet: "quiet s (request_cancel_all i s)"
proof -
  have "quiet s t \<Longrightarrow> quiet s (fold (\<lambda>x. upd_op i x request_cancel) xs t)" for xs t
    by (induction xs arbitrary: t) (auto intro: quiet_steps)
  then show ?thesis by (simp add: request_cancel_all_def)
qed

text \<open>After claiming \<open>cs\<close>: the operations to be posted are no longer pending and their work is still counted.\<close>

definition claimed :: "nat \<Rightarrow> op_id list \<Rightarrow> reactor \<Rightarrow> reactor \<Rightarrow> bool" where
  "claimed i cs s t \<longleftrightarrow> pending s = pending t + mset (map (Pair i) cs) \<and> gap t = gap s + int (length cs) \<and>
     slack t = slack s + int (length cs) \<and> stopped_flag t = stopped_flag s \<and>
     framed s t \<and> length (sockets t) = length (sockets s)"

lemma claimed_quiet: "claimed i cs s t \<Longrightarrow> quiet t u \<Longrightarrow> claimed i cs s u"
  using quiet_gap [of t u] framed_trans [of s t u] by (simp add: claimed_def)

lemma quiet_claimed: "quiet s t \<Longrightarrow> claimed i cs t u \<Longrightarrow> claimed i cs s u"
  using quiet_gap [of s t] framed_trans [of s t u] by (simp add: claimed_def)

lemma claimed_none [simp]: "claimed i [] s s"
  by (simp add: claimed_def framed_def)

lemma claim_cons:
  assumes "i < length (sockets s)" "slot_of i sl s = Some x" "claimed i cs (set_slot i sl None s) t"
  shows "claimed i (x # cs) s t"
  using assms(3) unpark_op [OF assms(1,2)] framed_trans [OF clear_slot_framed] by (auto simp: claimed_def)

lemma claim_own_claimed: "i < length (sockets s) \<Longrightarrow> claim_own i xs s = (cs, t) \<Longrightarrow> claimed i cs s t"
proof (induction xs arbitrary: s cs)
  case Nil
  then show ?case by simp
next
  case (Cons x xs)
  show ?case
  proof (cases "slot_of i (op_to_desc_slot x) s = Some x")
    case True
    obtain ds where d: "claim_own i xs (set_slot i (op_to_desc_slot x) None s) = (ds, t)" "cs = x # ds"
      using Cons.prems(2) True by (auto split: prod.splits)
    have "claimed i ds (set_slot i (op_to_desc_slot x) None s) t" using Cons.IH [OF _ d(1)] Cons.prems(1) by simp
    with claim_cons [OF Cons.prems(1) True] d(2) show ?thesis by simp
  next
    case False
    then show ?thesis using Cons by simp
  qed
qed

lemma claim_all_claimed: "i < length (sockets s) \<Longrightarrow> claim_all i xs s = (cs, t) \<Longrightarrow> claimed i cs s t"
proof (induction xs arbitrary: s cs)
  case Nil
  then show ?case by simp
next
  case (Cons x xs)
  show ?case
  proof (cases "slot_of i (op_to_desc_slot x) s")
    case (Some c)
    obtain ds where d: "claim_all i xs (set_slot i (op_to_desc_slot x) None s) = (ds, t)" "cs = c # ds"
      using Cons.prems(2) Some by (auto split: prod.splits)
    have "claimed i ds (set_slot i (op_to_desc_slot x) None s) t" using Cons.IH [OF _ d(1)] Cons.prems(1) by simp
    with claim_cons [OF Cons.prems(1) Some] d(2) show ?thesis by simp
  next
    case None
    then show ?thesis using Cons by simp
  qed
qed

lemma repost_step: "let t = repost i x s in pending t = pending s + {#(i, x)#} \<and> gap t = gap s - 1 \<and>
    slack s - 1 \<le> slack t \<and> (2 \<le> slack s \<longrightarrow> stopped_flag t = stopped_flag s) \<and>
    framed s t \<and> length (sockets t) = length (sockets s)"
proof -
  let ?u = "upd_op i x (\<lambda>p. p\<lparr>impl_ptr := True\<rparr>) s"
  have "quiet s ?u" by simp
  note u = quiet_gap [OF this]
  from post_finish [of i x ?u] u framed_trans [of s ?u] show ?thesis by (simp add: repost_def Let_def)
qed

text \<open>The same while some of the claimed operations have been posted.\<close>

definition owing :: "nat \<Rightarrow> op_id list \<Rightarrow> reactor \<Rightarrow> reactor \<Rightarrow> bool" where
  "owing i cs s t \<longleftrightarrow> pending s = pending t + mset (map (Pair i) cs) \<and> gap t = gap s + int (length cs) \<and>
     slack s + int (length cs) \<le> slack t \<and> (1 \<le> slack s \<longrightarrow> stopped_flag t = stopped_flag s) \<and> framed s t"

lemma repost_owing: "owing i cs s t \<Longrightarrow> conserves {#} s (fold (repost i) cs t)"
proof (induction cs arbitrary: t)
  case Nil
  then show ?case by (simp add: owing_def conserves_def)
next
  case (Cons x cs)
  then have "owing i cs s (repost i x t)"
    using repost_step [of i x t] framed_trans [of s t "repost i x t"] by (simp add: owing_def Let_def)
  then show ?case using Cons.IH by simp
qed

lemma repost_all: "claimed i cs s t \<Longrightarrow> conserves {#} s (fold (repost i) cs t)"
  by (rule repost_owing) (simp add: claimed_def owing_def)

lemma do_cancel_conserves:
  assumes "i < length (sockets s)"
  shows "conserves {#} s (do_cancel i s)"
proof -
  note q = request_cancel_all_quiet [of s i]
  obtain cs t where c: "claim_own i (socket_ops (socket_kind (sockets s ! i))) (request_cancel_all i s) = (cs, t)" by fastforce
  have "claimed i cs s t"
    using quiet_claimed [OF q claim_own_claimed [OF _ c]] assms quiet_length [OF q] by simp
  from repost_all [OF this] show ?thesis using c by (simp add: do_cancel_def)
qed

lemma acceptor_do_cancel_conserves: "i < length (sockets s) \<Longrightarrow> conserves {#} s (acceptor_do_cancel i s)"
  unfolding acceptor_do_cancel_def
  by (meson acceptor_cancel_conserves conserves_left conserves_length)

end
