(* ===== verification/Reactor_Conservation.thy ===== *)
theory Reactor_Conservation
  imports Reactor_Balance
begin

text \<open>
  Conservation for closing, opening and accepting sockets, for the completion of operations, and for the
  deferred input/output of a descriptor.
\<close>

section \<open>Closing and opening\<close>

lemma reset_flags_slots [simp]: "slots (reset_flags k d) = slots d" "is_enqueued (reset_flags k d) = is_enqueued d"
  by (simp_all add: reset_flags_def Let_def)

lemma cancel_for_close_conserves:
  assumes "i < length (sockets s)"
  shows "conserves {#} s (cancel_for_close i s)"
proof -
  let ?k = "socket_kind (sockets s ! i)"
  note q = request_cancel_all_quiet [of s i]
  obtain cs t where c: "claim_all i (socket_ops ?k) (request_cancel_all i s) = (cs, t)" by fastforce
  have "claimed i cs s t"
    using quiet_claimed [OF q claim_all_claimed [OF _ c]] assms quiet_length [OF q] by simp
  moreover have "quiet t (upd_desc i (reset_flags ?k) t)" by (intro quiet_upd_desc) simp_all
  ultimately have "claimed i cs s (upd_desc i (reset_flags ?k) t)" by (rule claimed_quiet)
  from repost_all [OF this] show ?thesis using c by (simp add: cancel_for_close_def Let_def)
qed

lemma clear_descriptor_quiet [quiet_steps]: "quiet s t \<Longrightarrow> quiet s (clear_descriptor i t)"
  unfolding clear_descriptor_def by (intro quiet_upd_sock quiet_upd_desc) simp_all

lemma do_close_conserves: "i < length (sockets s) \<Longrightarrow> conserves {#} s (do_close_socket i s)"
  by (rule conserves_right [OF cancel_for_close_conserves quiet_conserves])
    (auto simp: do_close_socket_def Let_def intro!: quiet_steps quiet_upd_sock)

lemma close_socket_conserves: "i < length (sockets s) \<Longrightarrow> conserves {#} s (close_socket i s)"
  by (rule conserves_right [OF do_close_conserves quiet_conserves])
    (auto simp: close_socket_def intro!: quiet_steps quiet_upd_sock)

lemma release_socket_conserves: "i < length (sockets s) \<Longrightarrow> conserves {#} s (snd (release_socket i s))"
  by (rule conserves_right [OF cancel_for_close_conserves quiet_conserves])
    (auto simp: release_socket_def do_release_socket_def Let_def intro!: quiet_steps quiet_upd_sock)

lemma destroy_socket_conserves: "i < length (sockets s) \<Longrightarrow> conserves {#} s (destroy_socket i s)"
  by (rule conserves_right [OF close_socket_conserves quiet_conserves])
    (auto simp: destroy_socket_def Let_def intro!: quiet_steps quiet_upd_sock)

lemma construct_conserves:
  assumes "construct_socket k s = (j, t)"
  shows "conserves {#} s t"
proof -
  have t: "queued t = queued s" "total_work t = total_work s" "in_loop t = in_loop s" "private_work t = private_work s"
    "completed_ops t = completed_ops s" "outstanding_work t = outstanding_work s" "stopped_flag t = stopped_flag s"
    "timers t = timers s" "epoll_events t = epoll_events s"
    "self_key t = self_key s" "map fst (context_stack t) = map fst (context_stack s)" "sockets t = sockets s @ [initial_socket k]"
    using assms by (auto simp: construct_socket_def queued_def total_work_def private_entries_def private_work_def
        in_loop_def find_context_def)
  then have "parked t = parked s" by (simp add: parked_def nth_append initial_socket_def initial_desc_def)
  moreover have "work_ok s \<Longrightarrow> work_ok t"
    using t by (auto simp: work_ok_def typed_slots_def nth_append initial_socket_def initial_desc_def)
  ultimately show ?thesis using t by (simp add: conserves_def framed_def pending_def gap_def slack_def)
qed

lemma register_descriptor_quiet [quiet_steps]: "quiet s t \<Longrightarrow> quiet s (register_descriptor fd i t)"
  by (auto simp: register_descriptor_def syscall_def split: sys_result.split intro!: quiet_upd_desc quiet_steps)

lemma init_and_register_quiet:
  assumes "i < length (sockets s)" "slot_of i read_slot s = None" "slot_of i write_slot s = None" "slot_of i connect_slot s = None"
  shows "quiet s (init_and_register i fd s)"
proof -
  let ?t = "upd_sock i (\<lambda>k. k\<lparr>sock_fd := fd\<rparr>) s"
  have t: "quiet s ?t" by (intro quiet_upd_sock) simp_all
  then have "slots (desc_of i ?t) = slots (desc_of i s)" using assms(1) by (simp add: quiet_def)
  with assms(2-) have "(slots (desc_of i ?t))(read_slot := None, write_slot := None, connect_slot := None) = slots (desc_of i ?t)"
    by (auto simp: fun_eq_iff)
  then show ?thesis
    unfolding init_and_register_def by (intro quiet_steps quiet_upd_desc_at t) simp_all
qed

lemma setup_accepted_conserves: "setup_accepted i fd peer s = (j, t) \<Longrightarrow> conserves {#} s t"
proof -
  assume a: "setup_accepted i fd peer s = (j, t)"
  obtain j' u where c: "construct_socket stream_socket s = (j', u)" by fastforce
  have n: "j' < length (sockets u)" "slot_of j' sl u = None" for sl
    using c by (auto simp: construct_socket_def initial_socket_def initial_desc_def)
  have "quiet u (init_and_register j' fd u)" using n by (intro init_and_register_quiet) simp_all
  then have "quiet u t" using a c
    by (auto simp: setup_accepted_def set_endpoints_def Let_def intro!: quiet_upd_sock split: if_splits)
  from conserves_left [OF construct_conserves [OF c] quiet_conserves [OF this]] show ?thesis .
qed

section \<open>Accepting\<close>

lemma accept_inline_conserves: "conserves {#} s (accept_inline svc i h fd peer s)"
proof (cases svc)
  case True
  obtain j t where t: "setup_accepted i fd peer s = (j, t)" by fastforce
  have "quiet t (accept_inline svc i h fd peer s)"
    using True t by (auto simp: accept_inline_def intro!: quiet_steps)
  from conserves_right [OF setup_accepted_conserves [OF t] quiet_conserves [OF this]] show ?thesis .
next
  case False
  then show ?thesis by (auto simp: accept_inline_def intro!: quiet_conserves quiet_steps)
qed

lemma accept_issues:
  assumes "i < length (sockets s)" "slot_of i read_slot s = None"
  shows "issues i acc s (accept svc i h token s)"
proof -
  define u where "u = set_op_fd i acc (upd_op i acc (\<lambda>p. (op_reset p)\<lparr>op_handle := h\<rparr>) s)"
  define t where "t = op_start i acc token u"
  have q: "quiet s u" unfolding u_def by (intro quiet_steps)
  have u: "i < length (sockets u)" "slot_of i read_slot u = None"
    using assms quiet_length [OF q] quiet_slot [OF q assms(1)] by simp_all
  have t: "conserves {#} s t" "slot_of i read_slot t = None"
    unfolding t_def using conserves_left [OF quiet_conserves [OF q] op_start_conserves [OF u(1)]] op_start_free [OF u] by auto
  note i = conserves_length [OF t(1) assms(1)]
  obtain r peer t1 where c: "syscall t = (r, peer, t1)" by (cases "syscall t")
  have q1: "quiet t t1" using c quiet_small_steps(8) [of t t] by simp
  have post: "conserves {#(i, acc)#} s (post_op (sock_op i acc) v)" if "quiet t v" for v
    using conserves_trans [OF conserves_right [OF t(1) quiet_conserves [OF that]] post_sock_op] by simp
  show ?thesis
  proof (cases r)
    case (sys_ok fd)
    let ?d = "upd_desc i (\<lambda>d. d\<lparr>read_ready := False\<rparr>) t1"
    obtain b v where v: "try_consume_inline_budget ?d = (b, v)" by fastforce
    have "quiet t ?d" using q1 by (intro quiet_upd_desc) simp_all
    then have "quiet t v" by (rule quiet_consume [OF v])
    moreover from this have "conserves {#} s (accept_inline svc i h (int fd) peer v)"
      using conserves_right [OF conserves_right [OF t(1) quiet_conserves] accept_inline_conserves] by blast
    ultimately show ?thesis
      using sys_ok c v by (cases b) (auto simp: accept_def u_def [symmetric] t_def [symmetric] Let_def intro!: post quiet_steps)
  next
    case (sys_fail e)
    let ?v = "upd_op i acc (\<lambda>p. p\<lparr>impl_ptr := True\<rparr>) t1"
    have qv: "quiet t ?v" using q1 by (intro quiet_steps)
    have v: "i < length (sockets ?v)" "slot_of i read_slot ?v = None" "conserves {#} s ?v"
      using i t quiet_length [OF qv] quiet_slot [OF qv i] conserves_right [OF t(1) quiet_conserves [OF qv]] by simp_all
    obtain b w where w: "try_cached_edge i acc use_read_ready (sched_work_started ?v) = (b, w)" by fastforce
    have "quiet (sched_work_started ?v) w" using try_cached_edge_quiet [of "sched_work_started ?v" i acc use_read_ready] w by simp
    from finish_or_park [OF v(1,2) op_to_desc_slot.simps(9) this] conserves_trans [OF v(3)] have
      "conserves {#(i, acc)#} s (if d then sched_work_finished (post_op (sock_op i acc) w) else set_slot i read_slot (Some acc) w)" for d
      by fastforce
    from this [of True] this [of False] show ?thesis
      using sys_fail c w qv
      by (auto simp: accept_def u_def [symmetric] t_def [symmetric] post_completed_def Let_def intro!: post quiet_steps)
  qed
qed

lemma acceptor_wait_issues:
  assumes "i < length (sockets s)" "slot_of i (op_to_desc_slot x) s = None"
    and "x = (case w of wait_for_read \<Rightarrow> wait_rd | wait_for_write \<Rightarrow> wait_wr | wait_for_error \<Rightarrow> wait_er)"
  shows "issues i x s (acceptor_do_wait i h w token s)"
proof -
  let ?u = "\<lambda>ev. set_op_fd i x (upd_op i x (\<lambda>p. (op_reset p)\<lparr>wait_event := ev\<rparr>) s)"
  have q: "quiet s (?u ev)" for ev by (intro quiet_steps)
  let ?t = "\<lambda>ev. prepare_wait i x h ev token s"
  have u: "i < length (sockets (?u ev))" "slot_of i (op_to_desc_slot x) (?u ev) = None" for ev
    using assms(1,2) quiet_length [OF q] quiet_slot [OF q assms(1)] by simp_all
  have t: "conserves {#} s (?t ev)" "slot_of i (op_to_desc_slot x) (?t ev) = None" for ev
    unfolding prepare_wait_def
    by (rule conserves_left [OF quiet_conserves [OF q] arm_op_ok(1) [OF u(1)]], rule arm_op_ok(2) [OF u])
  note i = conserves_length [OF t(1) assms(1)]
  have "conserves {#(i, x)#} s (if b then sched_work_finished (post_op (sock_op i x) (sched_work_started (?t ev)))
      else set_slot i (op_to_desc_slot x) (Some x) (sched_work_started (?t ev)))" for b ev
    using conserves_trans [OF t(1) finish_or_park [OF i t(2) refl quiet_refl]] by simp
  from this [of True] this [of False] show ?thesis
    using assms(3) arm_post [OF q assms(1)]
    by (cases w) (auto simp: acceptor_do_wait_def prepare_wait_def Let_def)
qed

section \<open>Deferred input and output\<close>

lemma claim_snoc:
  assumes "claimed i q s t" "i < length (sockets s)" "quiet t u" "slot_of i sl t = Some x"
  shows "claimed i (q @ [x]) s (set_slot i sl None u)"
proof -
  have u: "claimed i q s u" by (rule claimed_quiet [OF assms(1,3)])
  then have "i < length (sockets t)" "i < length (sockets u)" using assms(1,2) by (simp_all add: claimed_def)
  then show ?thesis
    using unpark_op [of i u sl x] quiet_slot [OF assms(3), of i sl] assms(4) u framed_trans [OF _ clear_slot_framed, of s u]
    by (auto simp: claimed_def)
qed

lemma attempt_quiet: "quiet s (attempt i x err s)"
  by (auto simp: attempt_def intro!: quiet_steps)

text \<open>The state of \<open>invoke_deferred_io\<close> while it collects completed operations.\<close>

definition collecting :: "nat \<Rightarrow> reactor \<Rightarrow> op_id list \<times> reactor \<Rightarrow> bool" where
  "collecting i s c \<longleftrightarrow> claimed i (fst c) s (snd c)"

lemma collecting_quiet: "collecting i s c \<Longrightarrow> quiet (snd c) u \<Longrightarrow> collecting i s (fst c, u)"
  using claimed_quiet by (auto simp: collecting_def)

lemma try_slot_collecting:
  assumes "i < length (sockets s)" "collecting i s c"
  shows "collecting i s (try_slot i sl err c)"
proof -
  obtain q t where c: "c = (q, t)" by fastforce
  have "collecting i s (q, upd_op i x f (attempt i x err t))" for x f
    using collecting_quiet [OF assms(2)] c quiet_upd_op [OF attempt_quiet [of t i x err]] by simp
  moreover have "collecting i s (q @ [x], set_slot i sl None (attempt i x err t))" if "slot_of i sl t = Some x" for x
    using claim_snoc [OF _ assms(1) attempt_quiet that] assms(2) c by (simp add: collecting_def)
  ultimately show ?thesis using c assms(2) by (auto simp: try_slot_def Let_def split: option.split)
qed

lemma finish_slot_collecting:
  assumes "i < length (sockets s)" "collecting i s c"
  shows "collecting i s (finish_slot i sl err c)"
proof -
  obtain q t where c: "c = (q, t)" by fastforce
  have "collecting i s (q @ [x], set_slot i sl None (upd_op i x f t))" if "slot_of i sl t = Some x" for x f
    using claim_snoc [OF _ assms(1) quiet_op that] assms(2) c by (simp add: collecting_def)
  then show ?thesis using c assms(2) by (auto simp: finish_slot_def split: option.split)
qed

lemma finish_connect_collecting:
  assumes "i < length (sockets s)" "collecting i s c"
  shows "collecting i s (finish_connect i err c)"
proof -
  obtain q t where c: "c = (q, t)" by fastforce
  have "collecting i s (q @ [x], set_slot i connect_slot None (attempt i x err t))" if "slot_of i connect_slot t = Some x" for x
    using claim_snoc [OF _ assms(1) attempt_quiet that] assms(2) c by (simp add: collecting_def)
  then show ?thesis using c assms(2) by (auto simp: finish_connect_def split: option.split)
qed

lemma ready_collecting:
  "collecting i s c \<Longrightarrow> collecting i s (fst c, upd_desc i (\<lambda>d. d\<lparr>read_ready := True\<rparr>) (snd c))"
  "collecting i s c \<Longrightarrow> collecting i s (fst c, upd_desc i (\<lambda>d. d\<lparr>write_ready := True\<rparr>) (snd c))"
  by (auto intro!: collecting_quiet quiet_upd_desc)

lemmas collect_steps = try_slot_collecting finish_slot_collecting finish_connect_collecting ready_collecting

lemma if_collecting: "(b \<Longrightarrow> collecting i s c) \<Longrightarrow> (\<not> b \<Longrightarrow> collecting i s d) \<Longrightarrow> collecting i s (if b then c else d)"
  by simp

lemma event_collecting:
  assumes "i < length (sockets s)" "collecting i s c"
  shows "collecting i s (on_read_event i err c)" "collecting i s (on_write_event i err c)"
    "collecting i s (on_error_event i err c)"
  unfolding on_read_event_def on_write_event_def on_error_event_def Let_def
  by (intro collect_steps if_collecting assms)+

lemma collect_events_collecting:
  assumes "i < length (sockets s)"
  shows "collecting i s (collect_events i ev err s)"
proof -
  have "collecting i s ([], s)" by (simp add: collecting_def)
  then show ?thesis
    unfolding collect_events_def Let_def by (intro collect_steps event_collecting if_collecting assms)
qed

lemma post_deferred_view:
  "queued (post_deferred_completions es s) = queued s @ es"
  "total_work (post_deferred_completions es s) = total_work s"
  "in_loop (post_deferred_completions es s) = in_loop s"
  "private_work (post_deferred_completions es s) = private_work s"
  by (auto simp: post_deferred_completions_def queued_def total_work_def private_entries_def private_work_def in_loop_def
      split: option.split)

lemma post_deferred_sockets [simp]: "sockets (post_deferred_completions es s) = sockets s"
  "timers (post_deferred_completions es s) = timers s" "epoll_events (post_deferred_completions es s) = epoll_events s"
    "self_key (post_deferred_completions es s) = self_key s" "map fst (context_stack (post_deferred_completions es s)) = map fst (context_stack s)" "stopped_flag (post_deferred_completions es s) = stopped_flag s"
  by (auto simp: post_deferred_completions_def split: option.split)

lemma post_deferred_task: "task_entry \<in> set (completed_ops s) \<Longrightarrow> task_entry \<in> set (completed_ops (post_deferred_completions es s))"
  by (auto simp: post_deferred_completions_def split: option.split)

lemma post_deferred_shared:
  "in_loop s \<Longrightarrow> completed_ops (post_deferred_completions es s) = completed_ops s"
  "in_loop s \<Longrightarrow> outstanding_work (post_deferred_completions es s) = outstanding_work s"
  by (auto simp: post_deferred_completions_def in_loop_def split: option.split)

lemma sum_sock_entries:
  "(\<Sum>e \<leftarrow> map (\<lambda>y. op_entry (sock_op i y)) xs. entry_op e) = mset (map (Pair i) xs)"
  "(\<Sum>e \<leftarrow> map (\<lambda>y. op_entry (sock_op i y)) xs. entry_weight e) = int (length xs)"
  "count (mset (map (\<lambda>y. op_entry (sock_op i y)) xs)) (op_entry (desc_op j)) = 0"
  by (induction xs) (simp_all add: o_def)

text \<open>
  The state in which an operation is called or a coroutine resumed by the loop: it no longer belongs to the
  pending ones, and the unit of work that the loop gives back afterwards is in the gap and in the slack.
\<close>

definition owes_one :: "(nat \<times> op_id) multiset \<Rightarrow> reactor \<Rightarrow> reactor \<Rightarrow> bool" where
  "owes_one D s t \<longleftrightarrow> pending s = pending t + D \<and> gap t = gap s + 1 \<and> slack s + 1 \<le> slack t \<and>
     stopped_flag t = stopped_flag s \<and> framed s t"

lemma post_rest_owes:
  assumes "claimed i (x # rest) s t" "in_loop s"
  shows "owes_one {#(i, x)#} s (post_deferred_completions (map (\<lambda>y. op_entry (sock_op i y)) rest) t)"
proof -
  let ?es = "map (\<lambda>y. op_entry (sock_op i y)) rest"
  let ?u = "post_deferred_completions ?es t"
  have p: "parked ?u = parked t" by (rule parked_sockets) simp
  have loop: "in_loop t" using assms by (simp add: claimed_def framed_def)
  have "pending ?u = pending t + mset (map (Pair i) rest)"
    by (simp only: pending_def post_deferred_view p map_append sum_list_append sum_sock_entries ac_simps)
  moreover have "gap ?u = gap t - int (length rest)"
    by (simp only: gap_def post_deferred_view p map_append sum_list_append sum_sock_entries of_nat_0 diff_diff_eq ac_simps)
  moreover have "slack ?u = slack t" using post_deferred_shared [OF loop] p by (simp add: slack_def)
  moreover have "framed t ?u"
    by (simp only: framed_def work_ok_def typed_slots_def post_deferred_view post_deferred_sockets mset_append count_union sum_sock_entries)
      (simp add: post_deferred_task)
  ultimately show ?thesis
    using assms(1) framed_trans [of s t ?u] by (simp add: claimed_def owes_one_def)
qed

section \<open>Compensation\<close>

lemma compensate_owes:
  assumes "in_loop s"
  shows "let t = compensating_work_started s in pending t = pending s \<and> gap t = gap s + 1 \<and> slack t = slack s \<and>
    stopped_flag t = stopped_flag s \<and> framed s t"
proof -
  obtain c where c: "find_context s = Some c" using assms by (auto simp: in_loop_def)
  let ?t = "compensating_work_started s"
  have t: "?t = upd_context (\<lambda>c. c\<lparr>private_outstanding_work := private_outstanding_work c + 1\<rparr>) s"
    using c by (simp add: compensating_work_started_def)
  have "parked ?t = parked s" by (rule parked_sockets) (simp add: t)
  moreover have "queued ?t = queued s" "private_work ?t = private_work s + 1" "in_loop ?t"
    using c by (simp_all add: t queued_def private_entries_def private_work_def in_loop_def)
  ultimately show ?thesis
    using assms by (auto simp: pending_def gap_def slack_def total_work_def framed_def work_ok_def typed_slots_def Let_def)
      (simp_all add: t)
qed

end
