(* ===== verification/Epoll_Scheduler.thy ===== *)
theory Epoll_Scheduler
  imports Reactor_Dispatch
begin

text \<open>
  The epoll back end (epoll/epoll_scheduler.hpp): the poll of the reactor, the timer descriptor and the wake-up
  of a blocked poll, and the timed run functions of the context (io_context.hpp).
\<close>

section \<open>The timer descriptor\<close>

definition timerfd_spec :: "int \<Rightarrow> int \<Rightarrow> int \<times> int" where
  "timerfd_spec nearest now =
     (if nearest = time_max then (0, 0)
      else if nearest \<le> now then (0, 1)
      else
        let nsec = nearest - now;
            tv_sec = nsec div 1000000000;
            tv_nsec = nsec mod 1000000000 in
        if tv_sec = 0 \<and> tv_nsec = 0 then (tv_sec, 1) else (tv_sec, tv_nsec))"

definition update_timerfd :: "reactor \<Rightarrow> reactor" where
  "update_timerfd s =
     (let now = clock s (kernel_calls s) in
      case syscall s of (r, _, s1) \<Rightarrow>
        (case r of
           sys_fail e \<Rightarrow> s1\<lparr>thrown := Some (make_err e)\<rparr>
         | sys_ok _ \<Rightarrow> s1\<lparr>timerfd := timerfd_spec (nearest_expiry (timers s1)) now\<rparr>))"

text \<open>The callback that the scheduler installs in the timer service.\<close>

definition earliest_changed :: "reactor \<Rightarrow> reactor" where
  "earliest_changed s = interrupt_reactor (s\<lparr>timerfd_stale := True\<rparr>)"

section \<open>Polling\<close>

definition poll_timeout :: "bool \<Rightarrow> int \<Rightarrow> int" where
  "poll_timeout task_intr timeout_us =
     (if task_intr then 0 else if timeout_us < 0 then -1 else wrap_int ((timeout_us + 999) div 1000))"

definition add_ready_events :: "u32 \<Rightarrow> descriptor_state \<Rightarrow> descriptor_state" where
  "add_ready_events ev d = d\<lparr>ready_events := ready_events d OR ev\<rparr>"

text \<open>One event: the flag for expired timers, the descriptor states to queue, and the new state.\<close>

fun deliver :: "epoll_target \<times> u32 \<Rightarrow> bool \<times> entry list \<times> reactor \<Rightarrow> bool \<times> entry list \<times> reactor" where
  "deliver (wake_target, ev) (check, q, s) = (check, q, s\<lparr>eventfd_value := 0, eventfd_armed := False\<rparr>)"
| "deliver (timer_target, ev) (check, q, s) = (True, q, s)"
| "deliver (desc_target i, ev) (check, q, s) =
     (let s1 = upd_desc i (add_ready_events ev) s in
      if \<not> is_enqueued (desc_of i s1)
      then (check, q @ [op_entry (desc_op i)], upd_desc i (\<lambda>d. d\<lparr>is_enqueued := True\<rparr>) s1)
      else (check, q, s1))"

fun post_waiters :: "waiter_id list \<Rightarrow> reactor \<Rightarrow> reactor" where
  "post_waiters [] s = s"
| "post_waiters (w # ws) s = post_waiters ws (post_op (service_op w) s)"

text \<open>
  The completion of a timer wait when the loop runs it: the continuation of the waiter is posted to the
  executor, and the unit of work counted since the wait began is given back.
\<close>

definition timer_completion :: "waiter_id \<Rightarrow> reactor \<Rightarrow> reactor" where
  "timer_completion w s = sched_work_finished (post_cont w (s\<lparr>timers := completion_invoke w (timers s)\<rparr>))"

text \<open>Expired timers: what the timer service posts reaches the ready queue.\<close>

definition run_timers :: "reactor \<Rightarrow> reactor option" where
  "run_timers s = (case process_expired (clock s (kernel_calls s)) (timers s) of
     None \<Rightarrow> None
   | Some (n, t) \<Rightarrow>
       Some (update_timerfd (post_waiters (drop (length (ts_posted (timers s))) (ts_posted t)) (s\<lparr>timers := t\<rparr>))))"

definition flush_timerfd :: "reactor \<Rightarrow> reactor" where
  "flush_timerfd s = (if timerfd_stale s then update_timerfd (s\<lparr>timerfd_stale := False\<rparr>) else s)"

text \<open>
  \<open>run_task\<close>. The timeout only matters to the kernel. \<open>task_cleanup\<close> runs on every way out, also when an
  exception leaves.
\<close>

definition wait_events :: "reactor \<Rightarrow> (epoll_target \<times> u32) list \<times> reactor" where
  "wait_events s =
     (let events = epoll_events s (kernel_calls s) in
      case syscall s of (r, _, s1) \<Rightarrow>
        (case r of
           sys_ok n \<Rightarrow> (take n (take (max_events_per_poll s1) events), s1)
         | sys_fail e \<Rightarrow> if e \<noteq> EINTR then ([], s1\<lparr>thrown := Some (make_err e)\<rparr>) else ([], s1)))"

definition run_task :: "int \<Rightarrow> reactor \<Rightarrow> reactor option" where
  "run_task timeout_us s =
     (let s1 = flush_timerfd s in
      if thrown s1 \<noteq> None then Some (task_cleanup s1)
      else (case wait_events s1 of (events, s2) \<Rightarrow>
        if thrown s2 \<noteq> None then Some (task_cleanup s2)
        else (case fold deliver events (False, [], s2) of (check_timers, local_ops, s3) \<Rightarrow>
          (case (if check_timers then run_timers s3 else Some s3) of
             None \<Rightarrow> None
           | Some s4 \<Rightarrow>
               if thrown s4 \<noteq> None then Some (task_cleanup s4)
               else Some (task_cleanup (s4\<lparr>completed_ops := completed_ops s4 @ local_ops\<rparr>))))))"

text \<open>The constructor's last step queues the sentinel; shutdown drains the queue and wakes the poll.\<close>

definition epoll_shutdown :: "reactor \<Rightarrow> reactor option" where
  "epoll_shutdown s = map_option interrupt_reactor (shutdown_drain destroy_entry s)"

section \<open>Timed run functions\<close>

text \<open>
  \<open>run_one_until\<close> and \<open>run_until\<close> of the context, over any \<open>wait_one\<close>. Times and durations count nanoseconds;
  \<open>now k\<close> is the \<open>k\<close>-th reading of the clock.
\<close>

definition clamp_wait :: "int \<Rightarrow> int" where
  "clamp_wait rel_time = (if rel_time < 0 then 0 else if rel_time > 1000000000 then 1000000000 else rel_time)"

partial_function (option) run_one_until ::
    "(int \<Rightarrow> 's \<Rightarrow> (nat \<times> 's) option) \<Rightarrow> ('s \<Rightarrow> bool) \<Rightarrow> (nat \<Rightarrow> int) \<Rightarrow> int \<Rightarrow> nat \<Rightarrow> 's \<Rightarrow> (nat \<times> nat \<times> 's) option" where
  "run_one_until wait1 stopped now abs_time k s =
     (case wait1 (clamp_wait (abs_time - now k) div 1000) s of
        None \<Rightarrow> None
      | Some (n, s1) \<Rightarrow>
          if n \<noteq> 0 \<or> stopped s1 then Some (n, k + 1, s1)
          else if now (k + 1) \<ge> abs_time then Some (0, k + 2, s1)
          else run_one_until wait1 stopped now abs_time (k + 1) s1)"

partial_function (option) run_until ::
    "(int \<Rightarrow> 's \<Rightarrow> (nat \<times> 's) option) \<Rightarrow> ('s \<Rightarrow> bool) \<Rightarrow> (nat \<Rightarrow> int) \<Rightarrow> int \<Rightarrow> nat \<Rightarrow> nat \<Rightarrow> 's \<Rightarrow> (nat \<times> 's) option" where
  "run_until wait1 stopped now abs_time n k s =
     (case run_one_until wait1 stopped now abs_time k s of
        None \<Rightarrow> None
      | Some (m, k1, s1) \<Rightarrow>
          if m = 0 then Some (n, s1)
          else run_until wait1 stopped now abs_time (if n \<noteq> size_max then n + 1 else n) k1 s1)"

end
