(* ===== verification/Reactor_Loop.thy ===== *)
theory Reactor_Loop
  imports Reactor_Conservation Epoll_Scheduler Timer_Lifecycle
begin

text \<open>
  The event loop over sockets and timers: running an entry of the ready queue and polling the reactor keep the
  balance between counted and existing work, so that the loop ends only when nothing is left to do.
\<close>

section \<open>States of the loop\<close>

definition single :: "reactor \<Rightarrow> bool" where
  "single s \<longleftrightarrow> (\<forall>p. count (pending s) p \<le> 1)"

text \<open>A state in which a handler runs, and what the handler may do to it.\<close>

definition active :: "reactor \<Rightarrow> bool" where
  "active s \<longleftrightarrow> in_loop s \<and> work_ok s \<and> single s \<and> 1 \<le> slack s"

definition works :: "reactor \<Rightarrow> reactor \<Rightarrow> bool" where
  "works s t \<longleftrightarrow> single t \<and> gap t = gap s \<and> slack s \<le> slack t \<and> stopped_flag t = stopped_flag s \<and> framed s t"

lemma works_active: "active s \<Longrightarrow> works s t \<Longrightarrow> active t"
  by (auto simp: active_def works_def framed_def)

lemma works_trans: "works s t \<Longrightarrow> works t u \<Longrightarrow> works s u"
  using framed_trans [of s t u] by (auto simp: works_def)

lemma conserves_works: "active s \<Longrightarrow> conserves {#} s t \<Longrightarrow> works s t"
  by (auto simp: active_def works_def conserves_def single_def)

lemma quiet_works: "active s \<Longrightarrow> quiet s t \<Longrightarrow> works s t"
  by (rule conserves_works [OF _ quiet_conserves])

text \<open>The number of waiters of the timers in the heap.\<close>

definition waiting :: "timer_service \<Rightarrow> nat" where
  "waiting t = length (due_waiters t (ts_heap t))"

text \<open>The kernel reports events of descriptors that belong to a socket.\<close>

definition events_ok :: "reactor \<Rightarrow> bool" where
  "events_ok s \<longleftrightarrow> (\<forall>n i ev. (desc_target i, ev) \<in> set (epoll_events s n) \<longrightarrow> i < length (sockets s))"

lemma events_ok_framed: "events_ok s \<Longrightarrow> framed s t \<Longrightarrow> events_ok t"
  by (auto simp: events_ok_def framed_def intro: order_less_le_trans)

text \<open>The innermost context frame of the thread is one of this scheduler.\<close>

definition top_frame :: "reactor \<Rightarrow> bool" where
  "top_frame s \<longleftrightarrow> (\<exists>ks. map fst (context_stack s) = self_key s # ks)"

lemma top_frame_framed: "framed s t \<Longrightarrow> top_frame t = top_frame s"
  by (simp add: top_frame_def framed_def)

text \<open>
  The state between two entries: nothing is private to the thread, every operation is pending at most once, and
  the work beyond that of entries and parked operations covers the waiters of the timers.
\<close>

definition settled :: "reactor \<Rightarrow> bool" where
  "settled s \<longleftrightarrow> in_loop s \<and> work_ok s \<and> single s \<and> private_entries s = [] \<and> private_work s = 0 \<and>
     service_inv (timers s) \<and> int (waiting (timers s)) \<le> gap s \<and> events_ok s \<and> top_frame s"

lemma settled_slack: "settled s \<Longrightarrow> slack s = gap s \<and> 0 \<le> slack s"
  by (auto simp: settled_def slack_def gap_def queued_def total_work_def)

section \<open>Coroutines\<close>

text \<open>What the loop expects of a coroutine between being resumed and suspending.\<close>

locale coroutines =
  fixes resume :: "nat \<Rightarrow> reactor \<Rightarrow> reactor"
  assumes resumed: "active s \<Longrightarrow> works s (resume h s)"
begin

lemma coro_resume_works:
  assumes "active s" "conserves {#} s t"
  shows "works s (coro_resume resume i x t)"
proof -
  let ?u = "upd_op i x (\<lambda>p. p\<lparr>impl_ptr := False\<rparr>) t"
  have "conserves {#} s ?u" by (rule conserves_right [OF assms(2) quiet_conserves [OF quiet_op]])
  note u = conserves_works [OF assms(1) this]
  then show ?thesis
    using works_trans [OF u resumed [OF works_active [OF assms(1) u]]] by (simp add: coro_resume_def Let_def)
qed

lemma resume_quiet: "active s \<Longrightarrow> quiet s t \<Longrightarrow> works s (coro_resume resume i x t)"
  by (rule coro_resume_works [OF _ quiet_conserves])

end

lemma quiet_begin [quiet_steps]: "quiet s t \<Longrightarrow> quiet s (begin_completion i x t)"
  unfolding begin_completion_def by (intro quiet_steps)

lemma quiet_decode [quiet_steps]: "quiet s t \<Longrightarrow> quiet s (decode_op i x b n t)"
  by (auto simp: decode_op_def store_result_def Let_def split: option.split intro!: quiet_steps)

lemma quiet_store_bytes [quiet_steps]: "quiet s t \<Longrightarrow> quiet s (store_bytes i x t)"
  unfolding store_bytes_def by (intro quiet_steps)

lemma quiet_set_endpoints [quiet_steps]: "quiet s t \<Longrightarrow> quiet s (set_endpoints i l r t)"
  unfolding set_endpoints_def by (rule quiet_upd_sock) simp_all

lemma setup_accepted_socket_conserves: "setup_accepted_socket svc i s = (b, t) \<Longrightarrow> conserves {#} s t"
proof (cases svc)
  case True
  assume e: "setup_accepted_socket svc i s = (b, t)"
  obtain j u where u: "setup_accepted i (accepted_fd (op_of i acc s)) (peer_storage (op_of i acc s)) s = (j, u)" by fastforce
  have "quiet u t" using True e u by (auto simp: setup_accepted_socket_def Let_def intro!: quiet_steps split: if_splits)
  from conserves_right [OF setup_accepted_conserves [OF u] quiet_conserves [OF this]] show ?thesis .
next
  case False
  assume "setup_accepted_socket svc i s = (b, t)"
  with False show ?thesis by (auto simp: setup_accepted_socket_def Let_def intro!: quiet_conserves quiet_steps)
qed

context coroutines begin

lemma complete_connect_works: "active s \<Longrightarrow> works s (complete_connect_op resume i s)"
  unfolding complete_connect_op_def Let_def
  by (intro resume_quiet) (auto simp: syscall_def split: sys_result.split intro!: quiet_steps)

lemma complete_accept_works:
  assumes "active s"
  shows "works s (complete_accept_op svc resume i s)"
proof -
  let ?d = "decode_op i acc False 0 (begin_completion i acc s)"
  have q: "quiet s ?d" by (intro quiet_steps)
  obtain ok t where t: "(if connect_succeeded i acc (begin_completion i acc s) \<and> accepted_fd (op_of i acc ?d) \<ge> 0
      then setup_accepted_socket svc i ?d else (connect_succeeded i acc (begin_completion i acc s), ?d)) = (ok, t)" by fastforce
  have c: "conserves {#} s t"
    using t conserves_left [OF quiet_conserves [OF q] setup_accepted_socket_conserves] quiet_conserves [OF q]
    by (auto split: if_splits)
  have "quiet t (drop_accepted i t)" by (auto simp: drop_accepted_def Let_def intro!: quiet_steps)
  with c have "conserves {#} s (if \<not> ok then drop_accepted i t else t)" using conserves_right quiet_conserves by auto
  with c t assms show ?thesis
    by (auto simp: complete_accept_op_def Let_def intro: conserves_works coro_resume_works)
qed

lemma run_op_works: "active s \<Longrightarrow> works s (run_op svc resume i x s)"
  by (auto simp: run_op_def complete_io_op_def complete_wait_op_def complete_datagram_op_def complete_datagram_source_op_def
      Let_def split: op_id.split intro!: resume_quiet complete_connect_works complete_accept_works quiet_steps)

end

section \<open>Taking an entry from the queue\<close>

abbreviation pop_entry :: "entry list \<Rightarrow> reactor \<Rightarrow> reactor" where
  "pop_entry es s \<equiv> s\<lparr>completed_ops := es\<rparr>"

lemma pop_view:
  assumes "completed_ops s = e # es"
  shows "pending s = pending (pop_entry es s) + entry_op e" "gap (pop_entry es s) = gap s + entry_weight e"
    "slack (pop_entry es s) = slack s + entry_weight e" "queued s = e # queued (pop_entry es s)"
    "private_work (pop_entry es s) = private_work s" "in_loop (pop_entry es s) = in_loop s"
proof -
  have q: "queued s = e # queued (pop_entry es s)" "private_work (pop_entry es s) = private_work s"
    "in_loop (pop_entry es s) = in_loop s"
    using assms by (simp_all add: queued_def private_entries_def private_work_def in_loop_def)
  have "parked (pop_entry es s) = parked s" by (rule parked_sockets) simp
  with q assms show "pending s = pending (pop_entry es s) + entry_op e" "gap (pop_entry es s) = gap s + entry_weight e"
    "slack (pop_entry es s) = slack s + entry_weight e" "queued s = e # queued (pop_entry es s)"
    "private_work (pop_entry es s) = private_work s" "in_loop (pop_entry es s) = in_loop s"
    by (simp_all add: pending_def gap_def slack_def total_work_def)
qed

lemma pop_work_ok:
  assumes "completed_ops s = e # es" "work_ok s" "\<And>i. e \<noteq> op_entry (desc_op i)"
  shows "work_ok (pop_entry es s)"
  using assms(2,3) pop_view [OF assms(1)] by (simp add: work_ok_def typed_slots_def)

text \<open>The update of the context frame before an entry runs.\<close>

definition mark_assisted :: "reactor \<Rightarrow> reactor" where
  "mark_assisted s =
     (if completed_ops s \<noteq> [] \<and> \<not> one_thread s
      then case unlock_and_signal_one s of (b, s') \<Rightarrow> upd_context (\<lambda>c. c\<lparr>unassisted := \<not> b\<rparr>) s'
      else upd_context (\<lambda>c. c\<lparr>unassisted := completed_ops s \<noteq> []\<rparr>) s)"

lemma run_entry_eq: "run_entry exec e s = work_cleanup (exec e (mark_assisted s))"
  by (simp add: run_entry_def mark_assisted_def Let_def)

lemma find_context_state:
  "find_context (s\<lparr>state_word := w\<rparr>) = find_context s" "find_context (s\<lparr>notified_one := n\<rparr>) = find_context s"
  by (simp_all add: find_context_def)

lemma quiet_signal [quiet_steps]:
  "quiet s t \<Longrightarrow> quiet s (t\<lparr>state_word := w\<rparr>)" "quiet s t \<Longrightarrow> quiet s (t\<lparr>notified_one := n\<rparr>)"
  by (simp_all add: quiet_def private_entries_def private_work_def in_loop_def find_context_state)

lemma mark_assisted_quiet: "quiet s (mark_assisted s)"
  by (auto simp: mark_assisted_def unlock_and_signal_one_def Let_def intro!: quiet_upd_context quiet_steps)

lemma quiet_desc: "quiet s t \<Longrightarrow> i < length (sockets s) \<Longrightarrow> is_enqueued (desc_of i t) = is_enqueued (desc_of i s)"
  by (simp add: quiet_def)

text \<open>The end of an entry that has run: its unit of work is still counted.\<close>

definition ran :: "reactor \<Rightarrow> reactor \<Rightarrow> bool" where
  "ran s t \<longleftrightarrow> in_loop t \<and> work_ok t \<and> single t \<and> gap t = gap s + 1 \<and> stopped_flag t = stopped_flag s \<and>
     (task_entry \<in> set (completed_ops s) \<longrightarrow> task_entry \<in> set (completed_ops t)) \<and>
     service_inv (timers t) \<and> waiting (timers t) = waiting (timers s) \<and> events_ok t \<and> top_frame t"

lemma timers_quiet: "quiet s t \<Longrightarrow> timers t = timers s" "quiet s t \<Longrightarrow> completed_ops t = completed_ops s"
  "quiet s t \<Longrightarrow> epoll_events t = epoll_events s"
  "quiet s t \<Longrightarrow> self_key t = self_key s" "quiet s t \<Longrightarrow> map fst (context_stack t) = map fst (context_stack s)"
  by (simp_all add: quiet_def)

text \<open>An entry with its own unit of work.\<close>

lemma entry_active:
  assumes "settled s" "completed_ops s = e # es" "e \<noteq> task_entry" "\<And>i. e \<noteq> op_entry (desc_op i)" "1 \<le> entry_weight e"
  defines "m \<equiv> mark_assisted (pop_entry es s)"
  shows "active m" "gap m = gap s + entry_weight e" "slack m = slack s + entry_weight e"
    "stopped_flag m = stopped_flag s" "timers m = timers s"
    "task_entry \<in> set (completed_ops s) \<Longrightarrow> task_entry \<in> set (completed_ops m)" "events_ok m" "top_frame m"
proof -
  note p = pop_view [OF assms(2)]
  have q: "quiet (pop_entry es s) m" unfolding m_def by (rule mark_assisted_quiet)
  note g = quiet_gap [OF q]
  show "gap m = gap s + entry_weight e" "slack m = slack s + entry_weight e" "stopped_flag m = stopped_flag s" "timers m = timers s"
    using g p timers_quiet [OF q] by simp_all
  show "task_entry \<in> set (completed_ops s) \<Longrightarrow> task_entry \<in> set (completed_ops m)"
    using timers_quiet [OF q] assms(2,3) by simp
  show "events_ok m" "top_frame m"
    using timers_quiet [OF q] quiet_length [OF q] assms(1) by (simp_all add: events_ok_def top_frame_def settled_def)
  have "single m"
  proof -
    have "count (pending m) r \<le> count (pending s) r" for r using p(1) g by simp
    then show ?thesis using assms(1) by (meson settled_def single_def order_trans)
  qed
  moreover have "work_ok (pop_entry es s)" using assms(1) by (intro pop_work_ok [OF assms(2) _ assms(4)]) (simp add: settled_def)
  ultimately show "active m"
    using g p assms(1,5) settled_slack [OF assms(1)] by (simp add: active_def framed_def settled_def)
qed

lemma works_ran:
  assumes "settled s" "completed_ops s = e # es" "e \<noteq> task_entry" "\<And>i. e \<noteq> op_entry (desc_op i)" "entry_weight e = 1"
    "active (mark_assisted (pop_entry es s)) \<Longrightarrow> works (mark_assisted (pop_entry es s)) t"
  shows "ran s t"
proof -
  let ?m = "mark_assisted (pop_entry es s)"
  note m = entry_active [OF assms(1-4)]
  have a: "active ?m" using m(1) assms(5) by simp
  note w = assms(6) [OF a]
  have f: "framed ?m t" using w by (simp add: works_def)
  have "events_ok t" "top_frame t" using m(7,8) assms(5) events_ok_framed [OF _ f] top_frame_framed [OF f] by simp_all
  then show ?thesis
    using w m assms(1,5) works_active [OF a w] by (auto simp: ran_def works_def active_def framed_def settled_def)
qed

text \<open>The completion of a timer wait.\<close>

lemma completion_invoke_view: "ts_heap (completion_invoke w t) = ts_heap t"
  "waiters (ts_impls (completion_invoke w t) u) = waiters (ts_impls t u)"
  by (simp_all add: completion_invoke_def reset_stop_cb_def work_finished_def resume_post_def setter_defs)

lemma completion_invoke_waiting [simp]: "waiting (completion_invoke w t) = waiting t"
  by (simp add: waiting_def completion_invoke_view)

lemma timer_completion_ran:
  assumes "settled s" "completed_ops s = op_entry (service_op w) # es"
  shows "ran s (timer_completion w (mark_assisted (pop_entry es s)))"
proof -
  let ?m = "mark_assisted (pop_entry es s)"
  have "active ?m" "gap ?m = gap s + 2" "slack ?m = slack s + 2" "stopped_flag ?m = stopped_flag s" "timers ?m = timers s"
    "task_entry \<in> set (completed_ops s) \<Longrightarrow> task_entry \<in> set (completed_ops ?m)"
    "events_ok ?m" "top_frame ?m"
    using entry_active [OF assms] by simp_all
  note m = this
  let ?u = "?m\<lparr>timers := completion_invoke w (timers ?m)\<rparr>"
  let ?v = "post_cont w ?u"
  have u: "pending ?u = pending ?m" "gap ?u = gap ?m" "slack ?u = slack ?m" "work_ok ?u = work_ok ?m" "in_loop ?u = in_loop ?m"
    by (simp_all add: pending_def gap_def slack_def work_ok_def typed_slots_def queued_def private_entries_def total_work_def private_work_def
        in_loop_def parked_def find_context_def)
  have s: "gap s + 2 = gap ?m" "2 \<le> slack ?m" using m settled_slack [OF assms(1)] by simp_all
  have "slack ?u \<le> slack ?v" unfolding post_cont_def by (rule slack_post) simp
  then have "outstanding_work ?v \<noteq> 1" using slack_work [of ?v] s u by simp
  then have stop: "stopped_flag (timer_completion w ?m) = stopped_flag s"
    using m by (simp add: timer_completion_def post_cont_def)
  have "pending (timer_completion w ?m) = pending ?m"
    using u by (simp add: timer_completion_def post_cont_def pending_def view_simps parked_sched)
  moreover have "gap (timer_completion w ?m) = gap s + 1"
    using u s by (simp add: timer_completion_def post_cont_def gap_def view_simps parked_sched)
  moreover have "work_ok (timer_completion w ?m)" "in_loop (timer_completion w ?m)"
    using u m(1) by (simp_all add: timer_completion_def post_cont_def view_simps active_def)
  moreover have "timers (timer_completion w ?m) = completion_invoke w (timers s)"
    using m(5) by (simp add: timer_completion_def post_cont_def)
  moreover have "service_inv (completion_invoke w (timers s))"
    using service_inv_effect effect_complete assms(1) by (auto simp: settled_def)
  moreover have "task_entry \<in> set (completed_ops s) \<Longrightarrow> task_entry \<in> set (completed_ops (timer_completion w ?m))"
    using m(6) by (simp add: timer_completion_def post_cont_def view_simps)
  moreover have "single ?m" using m(1) by (simp add: active_def)
  moreover have "events_ok (timer_completion w ?m)" "top_frame (timer_completion w ?m)"
    using m(7,8) by (simp_all add: timer_completion_def post_cont_def events_ok_def top_frame_def)
  ultimately show ?thesis using stop by (simp add: ran_def single_def)
qed

section \<open>Descriptor states\<close>

text \<open>The state in which \<open>invoke_deferred_io\<close> works, its own entry taken and the flags of the descriptor cleared.\<close>

abbreviation take_events :: "nat \<Rightarrow> reactor \<Rightarrow> reactor" where
  "take_events i \<equiv> upd_desc i (\<lambda>d. d\<lparr>impl_ref := False, is_enqueued := False, ready_events := 0\<rparr>)"

lemma take_events_view [simp]:
  "completed_ops (take_events i m) = completed_ops m" "queued (take_events i m) = queued m"
  "total_work (take_events i m) = total_work m" "private_work (take_events i m) = private_work m"
  "outstanding_work (take_events i m) = outstanding_work m" "in_loop (take_events i m) = in_loop m"
  "stopped_flag (take_events i m) = stopped_flag m" "timers (take_events i m) = timers m" "epoll_events (take_events i m) = epoll_events m"
    "self_key (take_events i m) = self_key m" "map fst (context_stack (take_events i m)) = map fst (context_stack m)"
  "length (sockets (take_events i m)) = length (sockets m)"
  by (simp_all add: upd_desc_def queued_def total_work_def)

lemma take_events_enqueued: "j < length (sockets m) \<Longrightarrow>
    is_enqueued (desc_of j (take_events i m)) \<longleftrightarrow> j \<noteq> i \<and> is_enqueued (desc_of j m)"
  by (simp add: upd_desc_def upd_sock_nth)

lemma parked_take_events [simp]: "parked (take_events i m) = parked m"
  by (rule parked_upd_desc) simp

lemma deferred_start:
  assumes "settled s" "completed_ops s = op_entry (desc_op i) # es"
  defines "u \<equiv> take_events i (mark_assisted (pop_entry es s))"
  shows "i < length (sockets u)" "pending u = pending s" "gap u = gap s" "slack u = slack s"
    "stopped_flag u = stopped_flag s" "framed s u"
proof -
  let ?p = "pop_entry es s" and ?m = "mark_assisted (pop_entry es s)"
  note p = pop_view [OF assms(2)]
  have q: "quiet ?p ?m" by (rule mark_assisted_quiet)
  note g = quiet_gap [OF q]
  have qm: "queued ?m = queued ?p" using q by (simp add: quiet_def queued_def)
  have ok: "count (mset (queued s)) (op_entry (desc_op j)) = of_bool (j < length (sockets s) \<and> is_enqueued (desc_of j s))"
    and pw: "private_work s \<ge> 0" for j
    using assms(1) by (simp_all add: settled_def work_ok_def)
  have len: "length (sockets u) = length (sockets s)" using g by (simp add: u_def)
  have "i < length (sockets s)"
  proof (rule ccontr)
    assume "\<not> i < length (sockets s)"
    then show False using ok [of i] p(4) by simp
  qed
  then show i: "i < length (sockets u)" using len by simp
  have eq: "pending u = pending ?m" "gap u = gap ?m" "slack u = slack ?m"
    by (simp_all add: u_def pending_def gap_def slack_def)
  then show "pending u = pending s" "gap u = gap s" "slack u = slack s" "stopped_flag u = stopped_flag s"
    using g p by (simp_all add: u_def)
  have "count (mset (queued u)) (op_entry (desc_op j)) = of_bool (j < length (sockets u) \<and> is_enqueued (desc_of j u))" for j
  proof -
    have c: "count (mset (queued s)) (op_entry (desc_op j)) = count (mset (queued u)) (op_entry (desc_op j)) + of_bool (j = i)"
      using p(4) qm by (simp add: u_def)
    moreover have "count (mset (queued s)) (op_entry (desc_op j)) \<le> 1" using ok [of j] by simp
    moreover have "is_enqueued (desc_of j u) \<longleftrightarrow> j \<noteq> i \<and> is_enqueued (desc_of j s)" if "j < length (sockets s)"
      using that take_events_enqueued [of j ?m i] quiet_desc [OF q, of j] g by (simp add: u_def)
    ultimately show ?thesis using ok [of j] len by (cases "j = i") auto
  qed
  moreover have "private_work u = private_work s" using q p(5) by (simp add: u_def quiet_def)
  moreover have "typed_slots u" using q assms(1)
    by (auto simp: u_def upd_desc_def upd_sock_nth quiet_def typed_slots_def settled_def work_ok_def split: if_splits)
  ultimately have "work_ok u" using pw by (simp add: work_ok_def)
  moreover have "in_loop u = in_loop s" using q p(6) by (simp add: u_def quiet_def)
  moreover have "completed_ops u = es" "timers u = timers s" "epoll_events u = epoll_events s"
    "self_key u = self_key s" "map fst (context_stack u) = map fst (context_stack s)" using timers_quiet [OF q] by (simp_all add: u_def)
  ultimately show "framed s u" using len assms(2) by (simp add: framed_def)
qed

lemma socket_error_quiet: "socket_error ev s = (err, t) \<Longrightarrow> quiet s t"
  by (auto simp: socket_error_def syscall_def Let_def intro!: quiet_steps split: if_splits)

text \<open>What is known after an entry without its own work has collected completed operations.\<close>

lemma ran_frame:
  assumes "settled s" "framed s t" "single t" "gap t = gap s + 1" "stopped_flag t = stopped_flag s"
  shows "ran s t"
  using assms events_ok_framed [OF _ assms(2)] top_frame_framed [OF assms(2)] by (simp add: ran_def framed_def settled_def)

context coroutines begin

lemma deferred_ran:
  assumes "settled s" "completed_ops s = op_entry (desc_op i) # es"
  shows "ran s (invoke_deferred_io (run_op svc resume i) i (mark_assisted (pop_entry es s)))"
proof -
  let ?m = "mark_assisted (pop_entry es s)" and ?u = "take_events i (mark_assisted (pop_entry es s))"
  note u = deferred_start [OF assms]
  have loop: "in_loop ?u" "single s" using u(6) assms(1) by (simp_all add: framed_def settled_def)
  have comp: "ran s (compensating_work_started t)" if "claimed i [] ?u t" for t
  proof -
    have t: "in_loop t" "pending t = pending s" "gap t = gap s" "stopped_flag t = stopped_flag s" "framed s t"
      using that u loop framed_trans [OF u(6)] by (auto simp: claimed_def framed_def)
    from compensate_owes [OF t(1)] t framed_trans [OF t(5)] loop show ?thesis
      by (intro ran_frame [OF assms(1)]) (simp_all add: single_def Let_def)
  qed
  show ?thesis
  proof (cases "ready_events (desc_of i ?m) = 0")
    case True
    then show ?thesis using comp [of ?u] by (simp add: invoke_deferred_io_def Let_def)
  next
    case False
    obtain err v where v: "socket_error (ready_events (desc_of i ?m)) ?u = (err, v)" by fastforce
    note qv = socket_error_quiet [OF v]
    obtain xs w where w: "collect_events i (ready_events (desc_of i ?m)) err v = (xs, w)" by fastforce
    have c: "claimed i xs ?u w"
      using collect_events_collecting [of i v "ready_events (desc_of i ?m)" err] w u(1) quiet_length [OF qv] quiet_claimed [OF qv]
      by (simp add: collecting_def)
    show ?thesis
    proof (cases xs)
      case Nil
      then show ?thesis using False v w comp [of w] c by (simp add: invoke_deferred_io_def Let_def)
    next
      case (Cons x rest)
      let ?r = "post_deferred_completions (map (\<lambda>y. op_entry (sock_op i y)) rest) w"
      have o: "owes_one {#(i, x)#} ?u ?r" using post_rest_owes [OF _ loop(1)] c Cons by simp
      have r: "framed s ?r" "gap ?r = gap s + 1" "stopped_flag ?r = stopped_flag s" "1 \<le> slack ?r" "single ?r"
      proof -
        show "framed s ?r" using o framed_trans [OF u(6)] by (simp add: owes_one_def)
        show "gap ?r = gap s + 1" "stopped_flag ?r = stopped_flag s" "1 \<le> slack ?r"
          using o u settled_slack [OF assms(1)] by (simp_all add: owes_one_def)
        have "count (pending ?r) p \<le> count (pending s) p" for p using o u(2) by (simp add: owes_one_def)
        then show "single ?r" using loop(2) by (meson single_def order_trans)
      qed
      have "active ?r" using r assms(1) by (simp add: active_def framed_def settled_def)
      from run_op_works [OF this, of svc i x] have "works ?r (run_op svc resume i x ?r)" .
      then have "ran s (run_op svc resume i x ?r)"
        using r framed_trans [OF r(1)] by (intro ran_frame [OF assms(1)]) (simp_all add: works_def)
      then show ?thesis using False v w Cons by (simp add: invoke_deferred_io_def Let_def)
    qed
  qed
qed

lemma exec_entry_ran:
  assumes "settled s" "completed_ops s = e # es" "e \<noteq> task_entry"
  shows "ran s (exec_entry svc resume timer_completion e (mark_assisted (pop_entry es s)))"
proof (cases e)
  case task_entry
  then show ?thesis using assms(3) by simp
next
  case (op_entry op)
  show ?thesis
  proof (cases op)
    case (sock_op i x)
    then show ?thesis using op_entry run_op_works by (intro works_ran [OF assms]) simp_all
  next
    case (desc_op i)
    then show ?thesis using op_entry deferred_ran [OF assms(1), of i es] assms(2) by simp
  next
    case (service_op w)
    then show ?thesis using op_entry timer_completion_ran [OF assms(1), of w es] assms(2) by simp
  next
    case (post_handler h)
    then show ?thesis using op_entry resumed by (intro works_ran [OF assms]) simp_all
  qed
next
  case (cont_entry h)
  then show ?thesis using resumed by (intro works_ran [OF assms]) simp_all
qed

end

end
