(* ===== verification/Event_Loop.thy ===== *)
theory Event_Loop
  imports Reactor_Loop
begin

text \<open>
  The event loop of one thread as a whole: finishing an entry and polling the reactor keep the state settled,
  and \<open>run\<close> returns without an exception only when no operation, handler or timer wait is left.
\<close>

section \<open>Finishing an entry\<close>

lemma splice_private_view:
  "queued (splice_private s) = queued s" "in_loop (splice_private s) = in_loop s"
  "private_work (splice_private s) = private_work s" "private_entries (splice_private s) = []"
  "outstanding_work (splice_private s) = outstanding_work s"
  "task_entry \<in> set (completed_ops s) \<Longrightarrow> task_entry \<in> set (completed_ops (splice_private s))"
  by (auto simp: splice_private_def queued_def private_entries_def private_work_def in_loop_def split: option.split)

lemma splice_private_sockets [simp]:
  "sockets (splice_private s) = sockets s" "timers (splice_private s) = timers s" "epoll_events (splice_private s) = epoll_events s"
    "self_key (splice_private s) = self_key s" "map fst (context_stack (splice_private s)) = map fst (context_stack s)"
  "stopped_flag (splice_private s) = stopped_flag s" "thrown (splice_private s) = thrown s"
  by (auto simp: splice_private_def upd_context_def split: option.split)

lemma work_cleanup_view:
  assumes "in_loop s" "private_work s \<ge> 0"
  shows "queued (work_cleanup s) = queued s" "outstanding_work (work_cleanup s) = total_work s - 1"
    "private_work (work_cleanup s) = 0" "private_entries (work_cleanup s) = []" "in_loop (work_cleanup s)"
    "sockets (work_cleanup s) = sockets s" "timers (work_cleanup s) = timers s" "epoll_events (work_cleanup s) = epoll_events s"
    "self_key (work_cleanup s) = self_key s" "map fst (context_stack (work_cleanup s)) = map fst (context_stack s)"
    "task_entry \<in> set (completed_ops s) \<Longrightarrow> task_entry \<in> set (completed_ops (work_cleanup s))"
    "stopped_flag (work_cleanup s) \<Longrightarrow> stopped_flag s \<or> total_work s = 1"
proof -
  obtain c where c: "find_context s = Some c" using assms(1) by (auto simp: in_loop_def)
  let ?n = "private_outstanding_work c"
  define u where "u = (if ?n > 1 then s\<lparr>outstanding_work := outstanding_work s + (?n - 1)\<rparr>
    else if ?n < 1 then sched_work_finished s else s)"
  define v where "v = upd_context (\<lambda>c. c\<lparr>private_outstanding_work := 0\<rparr>) u"
  have n: "private_work s = ?n" "private_entries s = private_queue c" by (simp_all add: c private_work_def private_entries_def)
  have u: "completed_ops u = completed_ops s" "find_context u = Some c" "sockets u = sockets s" "timers u = timers s"
    "epoll_events u = epoll_events s"
    "self_key u = self_key s" "map fst (context_stack u) = map fst (context_stack s)" "outstanding_work u = total_work s - 1"
    "stopped_flag u \<Longrightarrow> stopped_flag s \<or> total_work s = 1"
    using assms(2) n c
    by (auto simp: u_def work_finished_view sched_work_finished_def total_work_def Let_def split: if_splits)
  have v: "completed_ops v = completed_ops s" "private_entries v = private_queue c" "private_work v = 0" "in_loop v"
    "sockets v = sockets s" "timers v = timers s" "epoll_events v = epoll_events s"
    "self_key v = self_key s" "map fst (context_stack v) = map fst (context_stack s)" "outstanding_work v = total_work s - 1"
    "stopped_flag v \<Longrightarrow> stopped_flag s \<or> total_work s = 1"
    using u by (simp_all add: v_def private_upd) (simp_all add: in_loop_def upd_context_def split: list.splits prod.splits)
  have q: "queued v = queued s" using v n by (simp add: queued_def)
  have w: "work_cleanup s = (if private_queue c \<noteq> [] then splice_private v else v)"
    by (simp add: work_cleanup_def c u_def v_def Let_def)
  show "queued (work_cleanup s) = queued s" "outstanding_work (work_cleanup s) = total_work s - 1"
    "private_work (work_cleanup s) = 0" "private_entries (work_cleanup s) = []" "in_loop (work_cleanup s)"
    "sockets (work_cleanup s) = sockets s" "timers (work_cleanup s) = timers s" "epoll_events (work_cleanup s) = epoll_events s"
    "self_key (work_cleanup s) = self_key s" "map fst (context_stack (work_cleanup s)) = map fst (context_stack s)"
    "task_entry \<in> set (completed_ops s) \<Longrightarrow> task_entry \<in> set (completed_ops (work_cleanup s))"
    "stopped_flag (work_cleanup s) \<Longrightarrow> stopped_flag s \<or> total_work s = 1"
    using v n q by (auto simp: w splice_private_view split: if_splits)
qed

lemma ran_cleanup:
  assumes "settled s" "ran s t"
  shows "settled (work_cleanup t)" "gap (work_cleanup t) = gap s"
    "task_entry \<in> set (completed_ops s) \<Longrightarrow> task_entry \<in> set (completed_ops (work_cleanup t))"
    "stopped_flag (work_cleanup t) \<Longrightarrow> stopped_flag s \<or> outstanding_work (work_cleanup t) = 0"
proof -
  have t: "in_loop t" "private_work t \<ge> 0" "work_ok t" using assms(2) by (simp_all add: ran_def work_ok_def)
  note w = work_cleanup_view [OF t(1,2)]
  have p: "parked (work_cleanup t) = parked t" by (rule parked_sockets) (rule w(6))
  have g: "gap (work_cleanup t) = gap t - 1" using w by (simp add: gap_def total_work_def p)
  then show "gap (work_cleanup t) = gap s" using assms(2) by (simp add: ran_def)
  moreover have "pending (work_cleanup t) = pending t" using w by (simp add: pending_def p)
  moreover have "work_ok (work_cleanup t)" using t(3) w by (simp add: work_ok_def typed_slots_def)
  ultimately show "settled (work_cleanup t)"
    using assms w by (simp add: settled_def ran_def single_def events_ok_def top_frame_def)
  show "task_entry \<in> set (completed_ops s) \<Longrightarrow> task_entry \<in> set (completed_ops (work_cleanup t))"
    using assms(2) w(11) by (simp add: ran_def)
  show "stopped_flag (work_cleanup t) \<Longrightarrow> stopped_flag s \<or> outstanding_work (work_cleanup t) = 0"
    using w(2,12) assms(2) by (auto simp: ran_def)
qed

section \<open>Polling\<close>

text \<open>
  The state during a poll that began in \<open>s\<close>: the descriptor states in \<open>q\<close> are marked as enqueued and will be
  appended to the queue.
\<close>

definition polled :: "reactor \<Rightarrow> entry list \<Rightarrow> reactor \<Rightarrow> bool" where
  "polled s q t \<longleftrightarrow> in_loop t \<and> private_work t \<ge> 0 \<and> pending t = pending s \<and> stopped_flag t = stopped_flag s \<and>
     events_ok t \<and> top_frame t \<and> typed_slots t \<and> service_inv (timers t) \<and> int (waiting (timers t)) \<le> gap t \<and> epoll_events t = epoll_events s \<and>
     length (sockets t) = length (sockets s) \<and> (\<forall>e \<in> set q. \<exists>i. e = op_entry (desc_op i)) \<and>
     (\<forall>i. count (mset (queued t @ q)) (op_entry (desc_op i)) = of_bool (i < length (sockets t) \<and> is_enqueued (desc_of i t)))"

lemma settled_polled: "settled s \<Longrightarrow> polled s [] s"
  by (simp add: settled_def polled_def work_ok_def)

lemma polled_quiet:
  assumes "polled s q t" "quiet t u"
  shows "polled s q u"
proof -
  have "pending u = pending t" "gap u = gap t" using quiet_conserves [OF assms(2)] by (simp_all add: conserves_def)
  moreover have "queued u = queued t" using assms(2) by (simp add: quiet_def queued_def)
  moreover have "in_loop u = in_loop t" "private_work u = private_work t" "stopped_flag u = stopped_flag t"
    "timers u = timers t" "epoll_events u = epoll_events t"
    "self_key u = self_key t" "map fst (context_stack u) = map fst (context_stack t)" "length (sockets u) = length (sockets t)"
    using assms(2) by (simp_all add: quiet_def)
  moreover have "(i < length (sockets t) \<and> is_enqueued (desc_of i u)) = (i < length (sockets t) \<and> is_enqueued (desc_of i t))" for i
    using assms(2) by (auto simp: quiet_def)
  moreover have "events_ok u = events_ok t" "top_frame u = top_frame t" "typed_slots u = typed_slots t"
    using assms(2) by (simp_all add: quiet_def events_ok_def top_frame_def typed_slots_def)
  ultimately show ?thesis using assms(1) by (simp add: polled_def)
qed

lemma find_context_poll:
  "find_context (s\<lparr>eventfd_value := v\<rparr>) = find_context s" "find_context (s\<lparr>eventfd_armed := b\<rparr>) = find_context s"
  "find_context (s\<lparr>timerfd := x\<rparr>) = find_context s" "find_context (s\<lparr>timerfd_stale := b\<rparr>) = find_context s"
  "find_context (s\<lparr>task_interrupted := b\<rparr>) = find_context s" "find_context (s\<lparr>task_running := b\<rparr>) = find_context s"
  by (simp_all add: find_context_def)

lemma quiet_poll_fields [quiet_steps]:
  "quiet s t \<Longrightarrow> quiet s (t\<lparr>eventfd_value := v\<rparr>)" "quiet s t \<Longrightarrow> quiet s (t\<lparr>eventfd_armed := b\<rparr>)"
  "quiet s t \<Longrightarrow> quiet s (t\<lparr>timerfd := x\<rparr>)" "quiet s t \<Longrightarrow> quiet s (t\<lparr>timerfd_stale := b\<rparr>)"
  "quiet s t \<Longrightarrow> quiet s (t\<lparr>task_interrupted := b\<rparr>)" "quiet s t \<Longrightarrow> quiet s (t\<lparr>task_running := b\<rparr>)"
  by (simp_all add: quiet_def private_entries_def private_work_def in_loop_def find_context_poll)

lemma quiet_update_timerfd [quiet_steps]: "quiet s t \<Longrightarrow> quiet s (update_timerfd t)"
  by (auto simp: update_timerfd_def syscall_def Let_def intro!: quiet_steps split: sys_result.split)

lemma quiet_flush_timerfd [quiet_steps]: "quiet s t \<Longrightarrow> quiet s (flush_timerfd t)"
  by (auto simp: flush_timerfd_def intro!: quiet_steps)

lemma wait_events_quiet: "wait_events t = (events, u) \<Longrightarrow> quiet t u \<and> set events \<subseteq> set (epoll_events t (kernel_calls t))"
  using set_take_subset by (fastforce simp: wait_events_def syscall_def Let_def intro!: quiet_steps split: sys_result.splits if_splits dest: in_set_takeD)

subsection \<open>Events\<close>

lemma polled_deliver:
  assumes "polled s q t" "\<And>i ev. e = (desc_target i, ev) \<Longrightarrow> i < length (sockets t)" "deliver e (check, q, t) = (check', q', t')"
  shows "polled s q' t' \<and> length (sockets t') = length (sockets t)"
proof -
  obtain tg ev where e: "e = (tg, ev)" by (cases e)
  show ?thesis
  proof (cases tg)
    case wake_target
    have "quiet t (t\<lparr>eventfd_value := 0, eventfd_armed := False\<rparr>)" by (intro quiet_steps)
    from polled_quiet [OF assms(1) this] wake_target show ?thesis using assms(3) e by auto
  next
    case timer_target
    then show ?thesis using assms(1,3) e by simp
  next
    case (desc_target i)
    let ?u = "upd_desc i (add_ready_events ev) t" and ?v = "\<lambda>u. upd_desc i (\<lambda>d. d\<lparr>is_enqueued := True\<rparr>) u"
    have qu: "quiet t ?u" by (rule quiet_upd_desc) (simp_all add: add_ready_events_def)
    note u = polled_quiet [OF assms(1) qu]
    have i: "i < length (sockets ?u)" using assms(2) e desc_target quiet_length [OF qu] by simp
    show ?thesis
    proof (cases "is_enqueued (desc_of i ?u)")
      case True
      then show ?thesis using u assms(3) e desc_target quiet_length [OF qu] by simp
    next
      case False
      have eq: "q' = q @ [op_entry (desc_op i)]" "t' = ?v ?u" using False assms(3) e desc_target by auto
      have enq: "is_enqueued (desc_of j (?v ?u)) \<longleftrightarrow> j = i \<or> is_enqueued (desc_of j ?u)" if "j < length (sockets ?u)" for j
        using that by (simp add: upd_desc_def upd_sock_nth)
      have p: "parked (?v ?u) = parked ?u" by (rule parked_upd_desc) simp
      have view: "queued (?v ?u) = queued ?u" "gap (?v ?u) = gap ?u" "pending (?v ?u) = pending ?u" "private_work (?v ?u) = private_work ?u"
        "in_loop (?v ?u) = in_loop ?u" "length (sockets (?v ?u)) = length (sockets ?u)" "events_ok (?v ?u) = events_ok ?u" "top_frame (?v ?u) = top_frame ?u"
        "stopped_flag (?v ?u) = stopped_flag ?u" "timers (?v ?u) = timers ?u" "epoll_events (?v ?u) = epoll_events ?u"
    "self_key (?v ?u) = self_key ?u" "map fst (context_stack (?v ?u)) = map fst (context_stack ?u)"
        using p by (simp_all add: upd_desc_def queued_def gap_def pending_def total_work_def events_ok_def top_frame_def)
      have "typed_slots (?v ?u) = typed_slots ?u" by (simp add: typed_slots_def upd_desc_def upd_sock_nth)
      moreover have "count (mset (queued (?v ?u) @ q')) (op_entry (desc_op j)) = of_bool (j < length (sockets (?v ?u)) \<and> is_enqueued (desc_of j (?v ?u)))" for j
      proof -
        have "count (mset (queued ?u @ q)) (op_entry (desc_op j)) = of_bool (j < length (sockets ?u) \<and> is_enqueued (desc_of j ?u))"
          using u by (simp add: polled_def)
        then show ?thesis using enq [of j] i False by (cases "j = i") (auto simp: view eq)
      qed
      ultimately show ?thesis using u quiet_length [OF qu] view by (auto simp: polled_def eq)
    qed
  qed
qed

lemma polled_events:
  assumes "polled s q t" "set events \<subseteq> set (epoll_events t n)" "events_ok t" "fold deliver events (check, q, t) = (check', q', t')"
  shows "polled s q' t'"
proof -
  have bound: "\<And>i ev. (desc_target i, ev) \<in> set events \<Longrightarrow> i < length (sockets t)"
    using assms(2,3) by (auto simp: events_ok_def)
  show ?thesis using assms(1,4) bound
  proof (induction events arbitrary: check q t)
    case (Cons e es)
    obtain c1 q1 t1 where d: "deliver e (check, q, t) = (c1, q1, t1)" by (metis prod_cases3)
    have "polled s q1 t1 \<and> length (sockets t1) = length (sockets t)"
      by (rule polled_deliver [OF Cons.prems(1) _ d]) (use Cons.prems(3) in auto)
    then show ?case using Cons.IH [of q1 t1 c1] Cons.prems(2,3) d by auto
  qed simp
qed

subsection \<open>Expired timers\<close>

lemma post_waiters_view:
  "queued (post_waiters ws s) = queued s @ map (\<lambda>w. op_entry (service_op w)) ws"
  "total_work (post_waiters ws s) = total_work s + int (length ws)" "in_loop (post_waiters ws s) = in_loop s"
  "private_work s \<ge> 0 \<Longrightarrow> private_work (post_waiters ws s) \<ge> 0" "sockets (post_waiters ws s) = sockets s"
  "timers (post_waiters ws s) = timers s" "epoll_events (post_waiters ws s) = epoll_events s"
    "self_key (post_waiters ws s) = self_key s" "map fst (context_stack (post_waiters ws s)) = map fst (context_stack s)"
  "stopped_flag (post_waiters ws s) = stopped_flag s"
  by (induction ws arbitrary: s) (simp_all add: post_op_def post_entry_view)

text \<open>The waiters of the timers left in the heap are those that were not due.\<close>

lemma waiting_expired:
  assumes "timer_inv s" "timer_inv s'" "expired_to now s es s1" "ts_impls s' = ts_impls s1" "ts_heap s' = ts_heap s1"
  shows "waiting s = waiting s' + length (due_waiters s es)"
proof -
  have d: "distinct (map snd (ts_heap u))" if "timer_inv u" for u
    using heap_inv_distinct [OF core_invD(1) [OF timer_inv_core [OF that]]] .
  have len: "length (due_waiters u xs) = (\<Sum>e \<in> set xs. length (waiters (ts_impls u (snd e))))" if "distinct xs" for u xs
    using that by (simp add: length_concat sum_list_distinct_conv_sum_set comp_def)
  note x = assms(3) [unfolded expired_to_def]
  let ?f = "\<lambda>e. length (waiters (ts_impls s (snd e)))"
  have h: "distinct (ts_heap s)" "distinct (ts_heap s')" using d assms(1,2) by (auto simp: distinct_map)
  have "waiting s' = (\<Sum>e \<in> set (ts_heap s'). ?f e)"
  proof -
    have "length (waiters (ts_impls s' (snd e))) = ?f e" if "e \<in> set (ts_heap s')" for e
    proof -
      have "snd e \<notin> snd ` set es"
      proof
        assume "snd e \<in> snd ` set es"
        then obtain e' where "e' \<in> set es" "snd e' = snd e" by auto
        then have "e' = e" "fst e' \<le> now" "now < fst e" using d [OF assms(1)] x that assms(5) by (auto simp: distinct_map inj_on_def)
        then show False by simp
      qed
      then show ?thesis using x assms(4) by simp
    qed
    then show ?thesis using len [OF h(2)] by (simp add: waiting_def)
  qed
  moreover have "length (due_waiters s es) = (\<Sum>e \<in> set es. ?f e)" using len x by blast
  moreover have "waiting s = (\<Sum>e \<in> set (ts_heap s). ?f e)" using len [OF h(1)] by (simp add: waiting_def)
  moreover have "set (ts_heap s) = set (ts_heap s') \<union> set es" "set (ts_heap s') \<inter> set es = {}" using x assms(5) by auto
  ultimately show ?thesis by (simp add: sum.union_disjoint)
qed

lemma polled_timers:
  assumes "polled s q t"
  shows "\<exists>u. run_timers t = Some u \<and> polled s q u"
proof -
  have inv: "service_inv (timers t)" "timer_inv (timers t)" using assms by (simp_all add: polled_def service_inv_def)
  let ?now = "clock t (kernel_calls t)"
  obtain es s1 s' where p: "process_expired ?now (timers t) = Some (length (due_waiters (timers t) es), s')" "timer_inv s'"
    "expired_to ?now (timers t) es s1" "ts_impls s' = ts_impls s1" "ts_heap s' = ts_heap s1"
    "ts_posted s' = ts_posted (timers t) @ due_waiters (timers t) es"
    using process_expired_spec [OF inv(2), of ?now] by metis
  let ?ws = "due_waiters (timers t) es" and ?t = "t\<lparr>timers := s'\<rparr>"
  let ?v = "post_waiters ?ws ?t"
  have "service_inv s'" using service_inv_effect [OF inv(1) effect_process_expired [OF inv(1) p(1)]] .
  have view: "queued ?t = queued t" "total_work ?t = total_work t" "in_loop ?t = in_loop t" "private_work ?t = private_work t"
    by (simp_all add: queued_def total_work_def private_work_def private_entries_def in_loop_def find_context_def)
  have pk: "parked ?v = parked t" by (rule parked_sockets) (simp add: post_waiters_view)
  have "gap ?v = gap t - int (length ?ws)"
    by (simp add: gap_def post_waiters_view view pk comp_def sum_list_triv)
  moreover have "waiting (timers t) = waiting s' + length ?ws" by (rule waiting_expired [OF inv(2) p(2-5)])
  moreover have "pending ?v = pending t" by (simp add: pending_def post_waiters_view view pk comp_def)
  moreover have "count (mset (queued ?v)) (op_entry (desc_op i)) = count (mset (queued t)) (op_entry (desc_op i))" for i
    by (auto simp: post_waiters_view view count_eq_zero_iff)
  moreover have "private_work ?v \<ge> 0" using assms view by (intro post_waiters_view) (simp add: polled_def)
  moreover have "events_ok ?v = events_ok t" "top_frame ?v = top_frame t" "typed_slots ?v = typed_slots t"
    by (simp_all add: events_ok_def top_frame_def typed_slots_def post_waiters_view)
  ultimately have "polled s q ?v"
    using assms \<open>service_inv s'\<close> by (simp add: polled_def post_waiters_view view)
  moreover have "run_timers t = Some (update_timerfd ?v)" using p by (simp add: run_timers_def)
  ultimately show ?thesis using polled_quiet [OF _ quiet_update_timerfd [OF quiet_refl]] by auto
qed

subsection \<open>The end of a poll\<close>

lemma task_cleanup_view:
  assumes "in_loop s" "private_work s \<ge> 0"
  shows "queued (task_cleanup s) = queued s" "outstanding_work (task_cleanup s) = total_work s"
    "private_work (task_cleanup s) = 0" "private_entries (task_cleanup s) = []" "in_loop (task_cleanup s)"
    "sockets (task_cleanup s) = sockets s" "timers (task_cleanup s) = timers s" "epoll_events (task_cleanup s) = epoll_events s"
    "self_key (task_cleanup s) = self_key s" "map fst (context_stack (task_cleanup s)) = map fst (context_stack s)"
    "stopped_flag (task_cleanup s) = stopped_flag s"
proof -
  obtain c where c: "find_context s = Some c" using assms(1) by (auto simp: in_loop_def)
  let ?v = "reactor_flush_private_work s"
  have n: "private_work s = private_outstanding_work c" "private_entries s = private_queue c"
    by (simp_all add: c private_work_def private_entries_def)
  have v: "completed_ops ?v = completed_ops s" "private_entries ?v = private_queue c" "private_work ?v = 0" "in_loop ?v"
    "sockets ?v = sockets s" "timers ?v = timers s" "epoll_events ?v = epoll_events s"
    "self_key ?v = self_key s" "map fst (context_stack ?v) = map fst (context_stack s)" "outstanding_work ?v = total_work s"
    "stopped_flag ?v = stopped_flag s"
    using assms n c by (auto simp: reactor_flush_private_work_def private_upd total_work_def)
      (simp_all add: in_loop_def private_entries_def private_work_def)
  have q: "queued ?v = queued s" using v n by (simp add: queued_def)
  have w: "task_cleanup s = (if private_queue c \<noteq> [] then splice_private ?v else ?v)"
    by (simp add: task_cleanup_def c Let_def)
  show "queued (task_cleanup s) = queued s" "outstanding_work (task_cleanup s) = total_work s"
    "private_work (task_cleanup s) = 0" "private_entries (task_cleanup s) = []" "in_loop (task_cleanup s)"
    "sockets (task_cleanup s) = sockets s" "timers (task_cleanup s) = timers s" "epoll_events (task_cleanup s) = epoll_events s"
    "self_key (task_cleanup s) = self_key s" "map fst (context_stack (task_cleanup s)) = map fst (context_stack s)"
    "stopped_flag (task_cleanup s) = stopped_flag s"
    using v q by (auto simp: w splice_private_view)
qed

lemma polled_cleanup:
  assumes "polled s q t" "single s"
  shows "settled (task_cleanup (t\<lparr>completed_ops := completed_ops t @ q\<rparr>))"
    "pending (task_cleanup (t\<lparr>completed_ops := completed_ops t @ q\<rparr>)) = pending s"
    "stopped_flag (task_cleanup (t\<lparr>completed_ops := completed_ops t @ q\<rparr>)) = stopped_flag s"
proof -
  let ?u = "t\<lparr>completed_ops := completed_ops t @ q\<rparr>"
  have p: "in_loop t" "private_work t \<ge> 0" using assms(1) by (simp_all add: polled_def)
  have view: "in_loop ?u = in_loop t" "private_work ?u = private_work t" "total_work ?u = total_work t"
    "mset (queued ?u) = mset (queued t) + mset q"
    by (simp_all add: in_loop_def private_work_def total_work_def queued_def private_entries_def find_context_def)
  note w = task_cleanup_view [of ?u, unfolded view, OF p]
  have pk: "parked (task_cleanup ?u) = parked t" by (rule parked_sockets) (simp add: w)
  have split: "(\<Sum>e\<leftarrow>queued ?u. f e) = (\<Sum>e\<leftarrow>queued t. f e) + (\<Sum>e\<leftarrow>q. f e)" for f :: "entry \<Rightarrow> 'x :: comm_monoid_add"
    using view(4) by (metis mset_append mset_map map_append sum_mset_sum_list sum_list_append)
  have "\<forall>e \<in> set q. entry_weight e = 0 \<and> entry_op e = {#}" using assms(1) by (fastforce simp: polled_def)
  then have z: "(\<Sum>e\<leftarrow>q. entry_weight e) = 0" "(\<Sum>e\<leftarrow>q. entry_op e) = {#}"
    by (induction q) simp_all
  have "gap (task_cleanup ?u) = gap t" by (simp add: gap_def total_work_def w pk split z)
  moreover have "pending (task_cleanup ?u) = pending t" by (simp add: pending_def w pk split z)
  moreover from this show "pending (task_cleanup ?u) = pending s" using assms(1) by (simp add: polled_def)
  moreover have "work_ok (task_cleanup ?u)" using assms(1) w view(4) by (simp add: polled_def work_ok_def typed_slots_def)
  moreover have "events_ok (task_cleanup ?u) = events_ok t" "top_frame (task_cleanup ?u) = top_frame t"
    by (simp_all add: events_ok_def top_frame_def w)
  ultimately show "settled (task_cleanup ?u)"
    using assms w by (simp add: polled_def settled_def single_def)
  show "stopped_flag (task_cleanup ?u) = stopped_flag s" using assms(1) w by (simp add: polled_def)
qed

lemma run_task_settled:
  assumes "settled s"
  shows "\<exists>t. run_task n s = Some t \<and>
    (thrown t = None \<longrightarrow> settled t \<and> pending t = pending s \<and> stopped_flag t = stopped_flag s)"
proof -
  have thrown: "thrown (task_cleanup u) = thrown u" for u :: reactor
    by (simp add: task_cleanup_def reactor_flush_private_work_def upd_context_def Let_def split: option.split)
  let ?a = "flush_timerfd s"
  have a: "polled s [] ?a" by (rule polled_quiet [OF settled_polled [OF assms]]) (intro quiet_steps)
  obtain events b where b: "wait_events ?a = (events, b)" by fastforce
  note w = wait_events_quiet [OF b]
  have pb: "polled s [] b" using polled_quiet [OF a] w by blast
  obtain check q d where d: "fold deliver events (False, [], b) = (check, q, d)" by (metis prod_cases3)
  have pd: "polled s q d"
  proof (rule polled_events [OF pb _ _ d])
    show "set events \<subseteq> set (epoll_events b (kernel_calls ?a))" using w by (simp add: quiet_def)
  qed (use pb in \<open>simp add: polled_def\<close>)
  obtain u where u: "(if check then run_timers d else Some d) = Some u" "polled s q u"
    using polled_timers [OF pd] pd by (cases check) auto
  have "single s" using assms by (simp add: settled_def)
  note c = polled_cleanup [OF u(2) this]
  show ?thesis
    using b d u(1) c thrown by (auto simp: run_task_def Let_def)
qed

lemma run_task_kept:
  "settled s \<Longrightarrow> \<exists>t. run_task n s = Some t \<and> (thrown t = None \<longrightarrow> settled t \<and> stopped_flag t = stopped_flag s)"
  using run_task_settled [of s n] by auto

section \<open>The loop\<close>

text \<open>What one turn of the loop keeps: the scheduler is stopped only when no work is left.\<close>

definition kept :: "reactor \<Rightarrow> bool" where
  "kept s \<longleftrightarrow> settled s \<and> task_entry \<in> set (completed_ops s) \<and> (stopped_flag s \<longrightarrow> outstanding_work s = 0)"

text \<open>The contract between the loop, the entries it runs and the reactor it polls.\<close>

locale event_loop =
  fixes exec :: "entry \<Rightarrow> reactor \<Rightarrow> reactor" and poll :: "int \<Rightarrow> reactor \<Rightarrow> reactor option"
  assumes entry_kept: "kept s \<Longrightarrow> \<not> stopped_flag s \<Longrightarrow> completed_ops s = e # es \<Longrightarrow> e \<noteq> task_entry \<Longrightarrow> kept (run_entry exec e (pop_entry es s))"
    and polled_kept: "settled s \<Longrightarrow> \<exists>t. poll n s = Some t \<and> (thrown t = None \<longrightarrow> settled t \<and> stopped_flag t = stopped_flag s)"

lemma settled_quiet:
  assumes "settled s" "quiet s t"
  shows "settled t"
  using assms quiet_gap [OF assms(2)] by (simp add: settled_def quiet_def framed_def single_def events_ok_def top_frame_def)

lemma sum_sentinel:
  fixes f :: "entry \<Rightarrow> 'x :: comm_monoid_add"
  assumes "mset xs + {#task_entry#} = mset ys \<or> mset xs = mset ys + {#task_entry#}" "f task_entry = 0"
  shows "(\<Sum>e\<leftarrow>xs. f e) = (\<Sum>e\<leftarrow>ys. f e)"
proof -
  have "sum_mset (image_mset f (mset xs)) = sum_mset (image_mset f (mset ys))"
    using assms(1)
  proof
    assume "mset xs + {#task_entry#} = mset ys"
    from this [symmetric] show ?thesis using assms(2) by simp
  qed (use assms(2) in simp)
  then show ?thesis by (simp flip: sum_mset_sum_list)
qed

lemma settled_sentinel:
  assumes "settled s" "mset xs + {#task_entry#} = mset (completed_ops s) \<or> mset xs = mset (completed_ops s) + {#task_entry#}"
  shows "settled (s\<lparr>completed_ops := xs\<rparr>)"
proof -
  let ?t = "s\<lparr>completed_ops := xs\<rparr>"
  have view: "in_loop ?t = in_loop s" "private_entries ?t = private_entries s" "private_work ?t = private_work s"
    by (simp_all add: in_loop_def private_work_def private_entries_def find_context_def)
  have pk: "parked ?t = parked s" by (rule parked_sockets) simp
  have sums: "(\<Sum>e\<leftarrow>queued ?t. entry_weight e) = (\<Sum>e\<leftarrow>queued s. entry_weight e)" "(\<Sum>e\<leftarrow>queued ?t. entry_op e) = (\<Sum>e\<leftarrow>queued s. entry_op e)"
    using sum_sentinel [OF assms(2), of entry_weight] sum_sentinel [OF assms(2), of entry_op] by (simp_all add: queued_def view)
  have "count (mset xs) (op_entry (desc_op i)) = count (mset (completed_ops s)) (op_entry (desc_op i))" for i
    using assms(2) by (metis add_mset_add_single count_add_mset entry.distinct(1))
  then have "work_ok ?t = work_ok s" by (simp add: work_ok_def typed_slots_def view queued_def)
  moreover have "pending ?t = pending s" "gap ?t = gap s" by (simp_all add: pending_def gap_def total_work_def sums pk view)
  ultimately show ?thesis using assms(1) by (simp add: settled_def single_def events_ok_def top_frame_def view)
qed

lemma run_sentinel_kept:
  assumes "event_loop exec poll" "settled s" "completed_ops s = task_entry # es" "\<not> stopped_flag s"
    "run_sentinel poll timeout_us (pop_entry es s) = Some t" "thrown t = None"
  shows "kept t"
proof -
  have p: "settled (pop_entry es s)" using assms(2,3) by (intro settled_sentinel) simp_all
  let ?n = "if more_handlers (pop_entry es s) then 0 else timeout_us"
  let ?a = "(pop_entry es s)\<lparr>task_interrupted := ?n = 0, task_running := True\<rparr>"
  define b where "b = (if more_handlers (pop_entry es s) \<and> \<not> one_thread ?a then snd (unlock_and_signal_one ?a) else ?a)"
  have q: "quiet (pop_entry es s) b" by (auto simp: b_def unlock_and_signal_one_def Let_def intro!: quiet_steps)
  obtain c where c': "poll ?n b = Some c \<and> (thrown c = None \<longrightarrow> settled c \<and> stopped_flag c = stopped_flag b)"
    using event_loop.polled_kept [OF assms(1) settled_quiet [OF p q], of ?n] by (rule exE)
  note c = conjunct1 [OF c'] conjunct2 [OF c']
  let ?d = "c\<lparr>task_running := False\<rparr>"
  have t: "t = (if thrown ?d \<noteq> None then ?d else ?d\<lparr>completed_ops := completed_ops ?d @ [task_entry]\<rparr>)"
    using assms(5) c(1) unfolding run_sentinel_def Let_def b_def [symmetric] by simp
  then have th: "thrown c = None" using assms(6) by (auto split: if_splits)
  have "quiet c ?d" by (intro quiet_steps)
  from settled_quiet [OF _ this] c(2) th have d: "settled ?d" "\<not> stopped_flag ?d" using q assms(4) by (simp_all add: quiet_def)
  have "settled (?d\<lparr>completed_ops := completed_ops ?d @ [task_entry]\<rparr>)" by (rule settled_sentinel [OF d(1)]) simp
  then show ?thesis using d(2) th by (simp add: kept_def t)
qed

lemma do_one_kept: "do_one exec poll wait timeout_us s = Some r \<Longrightarrow> event_loop exec poll \<Longrightarrow> kept s \<Longrightarrow> thrown (snd r) = None \<Longrightarrow>
    kept (snd r) \<and> (fst r = 0 \<longrightarrow> timeout_us < 0 \<longrightarrow> outstanding_work (snd r) = 0)"
proof (induction rule: do_one.raw_induct [rotated 1, consumes 1, case_names step])
  case (step loop exec poll wait timeout_us s r)
  note IH = step(1) [OF _ step(3)] and body = step(2) and kept = step(4) and thrown = step(5)
  obtain e es where es: "completed_ops s = e # es" using kept by (cases "completed_ops s") (auto simp: kept_def)
  show ?case
  proof (cases "stopped_flag s")
    case True
    then show ?thesis using body kept by (auto simp: kept_def)
  next
    case False
    show ?thesis
    proof (cases "e = task_entry")
      case True
      have s: "settled s" using kept by (simp add: kept_def)
      have again: "kept (s\<lparr>completed_ops := es @ [task_entry]\<rparr>)"
        using settled_sentinel [OF settled_sentinel [OF s, of es], of "es @ [task_entry]"] es True False by (simp add: kept_def)
      show ?thesis
        using body es True False again thrown run_sentinel_kept [OF step(3) s, of es timeout_us] IH
        by (auto simp: Let_def split: if_splits option.splits)
    next
      case no: False
      then show ?thesis using body es False event_loop.entry_kept [OF step(3) kept False es] by (auto simp: Let_def)
    qed
  qed
qed

lemma do_all_kept: "do_all exec poll wait timeout_us n s = Some r \<Longrightarrow> event_loop exec poll \<Longrightarrow> kept s \<Longrightarrow> timeout_us < 0 \<Longrightarrow> thrown (snd r) = None \<Longrightarrow>
    kept (snd r) \<and> outstanding_work (snd r) = 0"
proof (induction rule: do_all.raw_induct [rotated 1, consumes 1, case_names step])
  case (step loop exec poll wait timeout_us n s r)
  obtain k t where k: "do_one exec poll wait timeout_us s = Some (k, t)" using step(2) by (auto split: option.splits)
  note one = do_one_kept [OF k step(3,4)]
  show ?case
  proof (cases "k = 0 \<or> thrown t \<noteq> None")
    case True
    then show ?thesis using step(2,5,6) k one by auto
  next
    case False
    then have "kept t" using one by simp
    with False show ?thesis using step(2) k step(1) [OF _ step(3) _ step(5,6)] by simp
  qed
qed

context coroutines begin

lemma entry_finished:
  assumes "kept s" "\<not> stopped_flag s" "completed_ops s = e # es" "e \<noteq> task_entry"
  shows "kept (run_entry (exec_entry svc resume timer_completion) e (pop_entry es s))"
proof -
  have s: "settled s" using assms(1) by (simp add: kept_def)
  note c = ran_cleanup [OF s exec_entry_ran [OF s assms(3,4), of svc]]
  show ?thesis using c assms(1,2) by (auto simp: kept_def run_entry_eq)
qed

end

sublocale coroutines \<subseteq> loop: event_loop "exec_entry svc resume timer_completion" run_task for svc
  by unfold_locales (rule entry_finished, assumption+, rule run_task_kept)

section \<open>Returning from \<open>run\<close>\<close>

text \<open>Nothing is left: no operation, handler, continuation or timer completion is queued, no operation parked.\<close>

definition drained :: "reactor \<Rightarrow> bool" where
  "drained s \<longleftrightarrow> outstanding_work s = 0 \<and> parked s = {#} \<and> (\<forall>e \<in> set (completed_ops s). entry_weight e = 0) \<and> waiting (timers s) = 0"

lemma sum_list_zero:
  fixes f :: "'x \<Rightarrow> int"
  assumes "\<And>x. 0 \<le> f x" "(\<Sum>x\<leftarrow>xs. f x) \<le> 0" "x \<in> set xs"
  shows "f x = 0"
proof -
  have "f x \<le> (\<Sum>x\<leftarrow>xs. f x)" using assms(1,3) by (intro member_le_sum_list) auto
  then show ?thesis using assms(1) [of x] assms(2) by simp
qed

lemma entry_weight_nonneg: "0 \<le> entry_weight e"
  by (cases e rule: entry_weight.cases) simp_all

lemma settled_drained:
  assumes "settled s" "outstanding_work s = 0"
  shows "drained s"
proof -
  have p: "private_entries s = []" "private_work s = 0" "int (waiting (timers s)) \<le> gap s"
    using assms(1) by (simp_all add: settled_def)
  have g: "gap s = - (\<Sum>e\<leftarrow>completed_ops s. entry_weight e) - int (size (parked s))"
    using assms(2) p by (simp add: gap_def total_work_def queued_def)
  have w: "0 \<le> (\<Sum>e\<leftarrow>completed_ops s. entry_weight e)" by (rule sum_list_nonneg) (auto simp: entry_weight_nonneg)
  have z: "entry_weight e = 0" if "e \<in> set (completed_ops s)" for e
    by (rule sum_list_zero [OF entry_weight_nonneg _ that]) (use g p(3) in linarith)
  moreover have "size (parked s) = 0" "waiting (timers s) = 0" using g w p(3) by linarith+
  ultimately show ?thesis using assms(2) by (simp add: drained_def)
qed

lemma drained_frame:
  assumes "settled s" "drained s"
  shows "drained (pop_frame s)"
proof -
  obtain ks where "map fst (context_stack s) = self_key s # ks" using assms(1) by (auto simp: settled_def top_frame_def)
  then obtain c cs where c: "context_stack s = (self_key s, c) # cs" by (cases "context_stack s") auto
  then have "private_queue c = []" using assms(1) by (simp add: settled_def private_entries_def find_context_def)
  then have eq: "pop_frame s = s\<lparr>context_stack := cs\<rparr>" using c by (simp add: pop_frame_def)
  have "parked (pop_frame s) = parked s" by (rule parked_sockets) (simp add: eq)
  then show ?thesis using assms(2) by (simp add: drained_def eq)
qed

lemma run_drained:
  assumes "event_loop exec poll" "kept (push_frame s)" "run exec poll wait s = Some (n, t)" "thrown t = None"
  shows "drained t"
proof (cases "outstanding_work s = 0")
  case True
  then have t: "t = stop s" using assms(3) by (simp add: run_def guarded_def)
  have "drained (push_frame s)" using assms(2) True by (intro settled_drained) (simp_all add: kept_def push_frame_def)
  moreover have "parked (stop s) = parked (push_frame s)" by (rule parked_sockets) (simp add: push_frame_def)
  ultimately show ?thesis by (simp add: t drained_def push_frame_def)
next
  case False
  then obtain u where u: "do_all exec poll wait (-1) 0 (push_frame s) = Some (n, u)" "t = pop_frame u"
    using assms(3) by (auto simp: run_def guarded_def)
  have "thrown u = None"
    using assms(4) u(2)
    by (auto simp: pop_frame_def drain_thread_queue_def maybe_unlock_and_signal_one_def Let_def split: list.splits if_splits)
  with do_all_kept [OF u(1) assms(1,2)] have "kept u" "outstanding_work u = 0" by simp_all
  then show ?thesis using settled_drained drained_frame u(2) by (simp add: kept_def)
qed

end
