(* ===== verification/Client_Calls.thy ===== *)
theory Client_Calls
  imports Event_Loop
begin

text \<open>
  Coroutines that use the sockets and acceptors of a context: the calls they may make, that every such call makes
  its operation pending exactly once or completes it inline, and what this gives for the event loop that resumes
  the coroutines.
\<close>

section \<open>Calls\<close>

text \<open>A call with the socket it is made on; the caller is the coroutine that will be resumed.\<close>

datatype api_call =
    call_read nat "nat list" stop_token
  | call_write nat "nat list" stop_token
  | call_wait nat wait_type stop_token
  | call_connect nat endpoint stop_token
  | call_send_to nat "nat list" endpoint int stop_token
  | call_recv_from nat "nat list" bool int stop_token
  | call_send nat "nat list" int stop_token
  | call_recv nat "nat list" int stop_token
  | call_accept nat stop_token
  | call_acceptor_wait nat wait_type stop_token
  | call_cancel nat
  | call_acceptor_cancel nat
  | call_close nat
  | call_release nat
  | call_destroy nat
  | call_construct socket_kind
  | call_post nat

fun wait_op :: "wait_type \<Rightarrow> op_id" where
  "wait_op wait_for_read = wait_rd"
| "wait_op wait_for_write = wait_wr"
| "wait_op wait_for_error = wait_er"

text \<open>The operation that a call starts, if it starts one, and the socket that a call uses.\<close>

fun call_op :: "api_call \<Rightarrow> op_id option" where
  "call_op (call_read i param token) = Some rd"
| "call_op (call_write i param token) = Some wr"
| "call_op (call_wait i w token) = Some (wait_op w)"
| "call_op (call_connect i ep token) = Some conn"
| "call_op (call_send_to i param dest flags token) = Some wr"
| "call_op (call_recv_from i param source flags token) = Some rd"
| "call_op (call_send i param flags token) = Some send_wr"
| "call_op (call_recv i param flags token) = Some recv_rd"
| "call_op (call_accept i token) = Some acc"
| "call_op (call_acceptor_wait i w token) = Some (wait_op w)"
| "call_op _ = None"

fun call_socket :: "api_call \<Rightarrow> nat option" where
  "call_socket (call_read i param token) = Some i"
| "call_socket (call_write i param token) = Some i"
| "call_socket (call_wait i w token) = Some i"
| "call_socket (call_connect i ep token) = Some i"
| "call_socket (call_send_to i param dest flags token) = Some i"
| "call_socket (call_recv_from i param source flags token) = Some i"
| "call_socket (call_send i param flags token) = Some i"
| "call_socket (call_recv i param flags token) = Some i"
| "call_socket (call_accept i token) = Some i"
| "call_socket (call_acceptor_wait i w token) = Some i"
| "call_socket (call_cancel i) = Some i"
| "call_socket (call_acceptor_cancel i) = Some i"
| "call_socket (call_close i) = Some i"
| "call_socket (call_release i) = Some i"
| "call_socket (call_destroy i) = Some i"
| "call_socket (call_construct k) = None"
| "call_socket (call_post h) = None"

text \<open>The effect of a call by coroutine \<open>h\<close>: whether the coroutine goes on at once, and the new state.\<close>

fun api_step :: "bool \<Rightarrow> nat \<Rightarrow> api_call \<Rightarrow> reactor \<Rightarrow> bool \<times> reactor" where
  "api_step svc h (call_read i param token) s = do_read_some i h param token s"
| "api_step svc h (call_write i param token) s = do_write_some i h param token s"
| "api_step svc h (call_wait i w token) s = do_wait i h w token s"
| "api_step svc h (call_connect i ep token) s = do_connect i h ep token s"
| "api_step svc h (call_send_to i param dest flags token) s = do_send_to i h param dest flags token s"
| "api_step svc h (call_recv_from i param source flags token) s = do_recv_from i h param source flags token s"
| "api_step svc h (call_send i param flags token) s = do_send i h param flags token s"
| "api_step svc h (call_recv i param flags token) s = do_recv i h param flags token s"
| "api_step svc h (call_accept i token) s = accept svc i h token s"
| "api_step svc h (call_acceptor_wait i w token) s = acceptor_do_wait i h w token s"
| "api_step svc h (call_cancel i) s = (True, do_cancel i s)"
| "api_step svc h (call_acceptor_cancel i) s = (True, acceptor_do_cancel i s)"
| "api_step svc h (call_close i) s = (True, close_socket i s)"
| "api_step svc h (call_release i) s = (True, snd (release_socket i s))"
| "api_step svc h (call_destroy i) s = (True, destroy_socket i s)"
| "api_step svc h (call_construct k) s = (True, snd (construct_socket k s))"
| "api_step svc h (call_post g) s = (True, post_coro g s)"

text \<open>
  What a caller has to respect: the socket exists, and no operation of the same kind is outstanding on it,
  neither parked in the slot of that kind nor queued.
\<close>

definition may_call :: "api_call \<Rightarrow> reactor \<Rightarrow> bool" where
  "may_call c s \<longleftrightarrow> (case call_socket c of None \<Rightarrow> True | Some i \<Rightarrow> i < length (sockets s) \<and>
     (case call_op c of None \<Rightarrow> True | Some x \<Rightarrow> slot_of i (op_to_desc_slot x) s = None \<and> (i, x) \<notin># pending s))"

definition call_adds :: "api_call \<Rightarrow> bool \<Rightarrow> (nat \<times> op_id) multiset" where
  "call_adds c inline = (case (call_socket c, call_op c) of
     (Some i, Some x) \<Rightarrow> if inline then {#} else {#(i, x)#}
   | _ \<Rightarrow> {#})"

section \<open>Accounting\<close>

lemma post_coro_conserves: "conserves {#} s (post_coro h s)"
  using slack_post [of "op_entry (post_handler h)" s]
  by (simp add: conserves_def framed_def post_coro_def pending_def gap_def view_simps parked_sched)

lemma wait_op_eq: "wait_op w = (case w of wait_for_read \<Rightarrow> wait_rd | wait_for_write \<Rightarrow> wait_wr | wait_for_error \<Rightarrow> wait_er)"
  by (cases w) simp_all

lemma api_step_issues:
  assumes "may_call c s" "call_op c = Some x" "call_socket c = Some i"
  shows "issues i x s (api_step svc h c s)"
  using assms
  by (cases c) (auto simp: may_call_def do_read_some_issues do_write_some_issues do_connect_issues do_send_to_issues
      do_recv_from_issues do_send_issues do_recv_issues accept_issues
      intro!: do_wait_issues [OF _ _ wait_op_eq] acceptor_wait_issues [OF _ _ wait_op_eq])

lemma api_step_plain:
  assumes "may_call c s" "call_op c = None"
  shows "conserves {#} s (snd (api_step svc h c s))"
  using assms construct_conserves [OF surjective_pairing]
  by (cases c) (auto simp: may_call_def do_cancel_conserves acceptor_do_cancel_conserves close_socket_conserves
      release_socket_conserves destroy_socket_conserves post_coro_conserves)

lemma api_step_conserves:
  assumes "may_call c s" "api_step svc h c s = (inline, t)"
  shows "conserves (call_adds c inline) s t"
proof (cases "call_op c")
  case None
  then show ?thesis using api_step_plain [OF assms(1) None, of svc h] assms(2)
    by (auto simp: call_adds_def split: option.split)
next
  case (Some x)
  then obtain i where "call_socket c = Some i" by (cases c) auto
  then show ?thesis using api_step_issues [OF assms(1) Some, of i svc h] assms(2) Some by (simp add: call_adds_def issues_def)
qed

section \<open>Coroutines\<close>

text \<open>
  A coroutine between being resumed and suspending: at most \<open>n\<close> calls, each chosen from the state it sees. It
  ends by suspending on an operation, by making no further call, or where it may not make the call.
\<close>

fun run_client :: "bool \<Rightarrow> (reactor \<Rightarrow> api_call option) \<Rightarrow> nat \<Rightarrow> nat \<Rightarrow> reactor \<Rightarrow> reactor" where
  "run_client svc program h 0 s = s"
| "run_client svc program h (Suc n) s = (case program s of
     None \<Rightarrow> s
   | Some c \<Rightarrow>
       if \<not> may_call c s then s
       else (case api_step svc h c s of (inline, t) \<Rightarrow> if inline then run_client svc program h n t else t))"

lemma api_step_works:
  assumes "active s" "may_call c s" "api_step svc h c s = (inline, t)"
  shows "works s t"
proof -
  have c: "conserves (call_adds c inline) s t" by (rule api_step_conserves [OF assms(2,3)])
  have "count (pending t) p \<le> 1" for p
  proof -
    have "count (pending s) p \<le> 1" using assms(1) by (cases p) (simp add: active_def single_def)
    moreover have "pending t = pending s + call_adds c inline" using c by (simp add: conserves_def)
    ultimately show ?thesis
      using assms(2) by (auto simp: call_adds_def may_call_def not_in_iff split: option.splits)
  qed
  then show ?thesis using c assms(1) by (simp add: works_def conserves_def active_def single_def)
qed

lemma works_refl: "active s \<Longrightarrow> works s s"
  by (simp add: conserves_works)

lemma run_client_works: "active s \<Longrightarrow> works s (run_client svc program h n s)"
proof (induction n arbitrary: s)
  case (Suc n)
  show ?case
  proof (cases "program s")
    case None
    then show ?thesis using Suc.prems works_refl by simp
  next
    case (Some c)
    obtain inline t where t: "api_step svc h c s = (inline, t)" by fastforce
    show ?thesis
    proof (cases "may_call c s")
      case True
      note w = api_step_works [OF Suc.prems True t]
      from w works_trans [OF w Suc.IH [OF works_active [OF Suc.prems w]]] show ?thesis using True Some t by simp
    qed (use Some Suc.prems works_refl in simp)
  qed
qed (simp add: works_refl)

interpretation client: coroutines "\<lambda>h. run_client svc (program h) h (calls h)" for svc program calls
  by unfold_locales (rule run_client_works)

section \<open>Closing\<close>

lemma upd_op_fd: "sock_fd (sockets (upd_op i x f s) ! i) = sock_fd (sockets s ! i)" "closed_fds (upd_op i x f s) = closed_fds s"
  by (cases "i < length (sockets s)") (simp_all add: upd_op_def upd_sock_def list_update_beyond)

lemma set_slot_fd: "sock_fd (sockets (set_slot i sl v s) ! i) = sock_fd (sockets s ! i)" "closed_fds (set_slot i sl v s) = closed_fds s"
  by (cases "i < length (sockets s)") (simp_all add: set_slot_def upd_desc_def upd_sock_def list_update_beyond)

lemma post_closed: "closed_fds (sched_work_finished s) = closed_fds s" "closed_fds (post_entry e s) = closed_fds s"
  by (auto simp: sched_work_finished_def stop_def signal_all_def interrupt_reactor_def post_entry_def upd_context_def
      wake_one_thread_and_unlock_def maybe_unlock_and_signal_one_def Let_def split: option.split)

lemma claim_all_clears:
  assumes "i < length (sockets s)" "claim_all i xs s = (cs, t)"
  shows "\<forall>sl. slot_of i sl t = (if sl \<in> op_to_desc_slot ` set xs then None else slot_of i sl s)"
  using assms
proof (induction xs arbitrary: s cs)
  case (Cons x xs)
  show ?case
  proof (cases "slot_of i (op_to_desc_slot x) s")
    case None
    then show ?thesis using Cons by auto
  next
    case (Some c)
    let ?u = "set_slot i (op_to_desc_slot x) None s"
    obtain ds where "claim_all i xs ?u = (ds, t)" using Cons.prems(2) Some by (auto split: prod.splits)
    from Cons.IH [OF _ this] show ?thesis using Cons.prems(1) set_slot_nth [OF Cons.prems(1)] by auto
  qed
qed simp

lemma repost_sockets: "sockets (repost i x s) = sockets (upd_op i x (\<lambda>p. p\<lparr>impl_ptr := True\<rparr>) s)"
  by (simp add: repost_def post_op_def)

lemma fold_repost_desc: "desc_of i (fold (repost i) cs s) = desc_of i s" "sock_fd (sockets (fold (repost i) cs s) ! i) = sock_fd (sockets s ! i)"
  "length (sockets (fold (repost i) cs s)) = length (sockets s)"
proof -
  have "desc_of i (repost i x s) = desc_of i s \<and> sock_fd (sockets (repost i x s) ! i) = sock_fd (sockets s ! i) \<and>
      length (sockets (repost i x s)) = length (sockets s)" for x s
    by (cases "i < length (sockets s)") (simp_all add: repost_sockets upd_op_def upd_sock_def list_update_beyond)
  then have "desc_of i (fold (repost i) cs s) = desc_of i s \<and> sock_fd (sockets (fold (repost i) cs s) ! i) = sock_fd (sockets s ! i) \<and>
      length (sockets (fold (repost i) cs s)) = length (sockets s)"
    by (induction cs arbitrary: s) simp_all
  then show "desc_of i (fold (repost i) cs s) = desc_of i s" "sock_fd (sockets (fold (repost i) cs s) ! i) = sock_fd (sockets s ! i)"
    "length (sockets (fold (repost i) cs s)) = length (sockets s)" by simp_all
qed

lemma all_socket_slots: "k \<noteq> acceptor_socket \<Longrightarrow> sl \<in> op_to_desc_slot ` set (socket_ops k)"
  by (cases k; cases sl) simp_all

lemma cancel_for_close_slots:
  assumes "i < length (sockets s)" "owned (sockets s ! i)" "x \<in> set (socket_ops (socket_kind (sockets s ! i)))"
  shows "slot_of i (op_to_desc_slot x) (cancel_for_close i s) = None"
proof -
  note q = request_cancel_all_quiet [of s i]
  let ?k = "socket_kind (sockets s ! i)"
  obtain cs t where c: "claim_all i (socket_ops ?k) (request_cancel_all i s) = (cs, t)" by fastforce
  have i: "i < length (sockets (request_cancel_all i s))" using assms(1) quiet_length [OF q] by simp
  have "slot_of i (op_to_desc_slot x) t = None" using claim_all_clears [OF i c] assms(3) by auto
  moreover have "length (sockets t) = length (sockets s)"
    using claim_all_claimed [OF i c] quiet_length [OF q] by (simp add: claimed_def)
  ultimately show ?thesis
    using assms(1,2) c by (simp add: cancel_for_close_def fold_repost_desc upd_desc_def upd_sock_nth reset_flags_def Let_def)
qed

lemma request_cancel_all_view:
  "sock_fd (sockets (request_cancel_all i s) ! i) = sock_fd (sockets s ! i)" "closed_fds (request_cancel_all i s) = closed_fds s"
proof -
  have "sock_fd (sockets (fold (\<lambda>x. upd_op i x request_cancel) xs s) ! i) = sock_fd (sockets s ! i) \<and>
      closed_fds (fold (\<lambda>x. upd_op i x request_cancel) xs s) = closed_fds s" for xs
    by (induction xs arbitrary: s) (simp_all add: upd_op_fd)
  then show "sock_fd (sockets (request_cancel_all i s) ! i) = sock_fd (sockets s ! i)" "closed_fds (request_cancel_all i s) = closed_fds s"
    by (simp_all add: request_cancel_all_def)
qed

lemma claim_all_view: "claim_all i xs s = (cs, t) \<Longrightarrow>
    sock_fd (sockets t ! i) = sock_fd (sockets s ! i) \<and> closed_fds t = closed_fds s \<and> length (sockets t) = length (sockets s)"
  by (induction xs arbitrary: s cs) (auto simp: set_slot_fd split: option.splits prod.splits)

lemma cancel_for_close_view:
  assumes "i < length (sockets s)"
  shows "sock_fd (sockets (cancel_for_close i s) ! i) = sock_fd (sockets s ! i)" "closed_fds (cancel_for_close i s) = closed_fds s"
    "length (sockets (cancel_for_close i s)) = length (sockets s)"
proof -
  obtain cs t where c: "claim_all i (socket_ops (socket_kind (sockets s ! i))) (request_cancel_all i s) = (cs, t)" by fastforce
  have "closed_fds (fold (repost i) ds u) = closed_fds u" for ds u
    by (induction ds arbitrary: u) (simp_all add: repost_def post_op_def post_closed upd_op_fd)
  then show "sock_fd (sockets (cancel_for_close i s) ! i) = sock_fd (sockets s ! i)" "closed_fds (cancel_for_close i s) = closed_fds s"
    "length (sockets (cancel_for_close i s)) = length (sockets s)"
    using c claim_all_view [OF c] request_cancel_all_view [of i s] assms request_cancel_all_quiet [of s i]
    by (simp_all add: cancel_for_close_def fold_repost_desc upd_desc_def upd_sock_def quiet_def Let_def)
qed

lemma settled_enqueued:
  assumes "settled s"
  shows "count (mset (completed_ops s)) (op_entry (desc_op i)) = of_bool (i < length (sockets s) \<and> is_enqueued (desc_of i s))"
proof -
  have "queued s = completed_ops s" using assms by (simp add: settled_def queued_def)
  moreover have "work_ok s" using assms by (simp add: settled_def)
  ultimately show ?thesis by (simp add: work_ok_def)
qed

section \<open>Properties\<close>

text \<open>A context with one coroutine to resume, the given sockets, and no timers.\<close>

definition sample_reactor :: "reactor_socket list \<Rightarrow> reactor" where
  "sample_reactor socks = \<lparr>self_key = 7, context_stack = [], completed_ops = [op_entry (post_handler 0), task_entry],
     outstanding_work = 1, stopped_flag = False, task_running = False, task_interrupted = False,
     max_events_per_poll = 128, inline_budget_initial = 2, inline_budget_max = 16, unassisted_budget = 4,
     state_word = 0, one_thread = False, scheduler_locking_disabled = False, reactor_io_locking = True,
     notified_one = 0, notified_all = 0, eventfd_armed = False, eventfd_value = 0, thrown = None,
     sockets = socks, kernel = (\<lambda>_. sys_fail EAGAIN), kernel_names = (\<lambda>_. fst (to_sockaddr endpoint_default)), kernel_calls = 0,
     addresses_used = [], ec_result = (\<lambda>_. no_error), bytes_result = (\<lambda>_. 0), source_result = (\<lambda>_. endpoint_default),
     accept_result = (\<lambda>_. None), epoll_interest = [], closed_fds = [], impl_list = [],
     timers = ts_init 0 (\<lambda>_. \<lparr>w_impl = None, w_ec = None, w_stop_possible = True, w_stop_requested = False,
       w_cb_active = False, w_handle = False\<rparr>),
     timerfd_stale = False, timerfd = (0, 0), clock = (\<lambda>_. 0), epoll_events = (\<lambda>_. [])\<rparr>"

lemma sample_sockets: "sockets (sample_reactor socks) = socks"
  by (simp add: sample_reactor_def)

lemma sample_parked: "parked (sample_reactor []) = {#}" "parked (sample_reactor [initial_socket k]) = {#}"
  by (simp_all add: parked_def sample_reactor_def initial_socket_def initial_desc_def)

lemma sample_view:
  "queued (push_frame (sample_reactor socks)) = [op_entry (post_handler 0), task_entry]"
  "in_loop (push_frame (sample_reactor socks))" "private_work (push_frame (sample_reactor socks)) = 0"
  "private_entries (push_frame (sample_reactor socks)) = []" "total_work (push_frame (sample_reactor socks)) = 1"
  "sockets (push_frame (sample_reactor socks)) = socks"
  "find_context (push_frame (sample_reactor socks)) = Some (new_context (sample_reactor socks))"
  by (simp_all add: push_frame_def sample_reactor_def new_context_def queued_def in_loop_def private_work_def
      private_entries_def total_work_def find_context_def)

lemma sample_kept: "kept (push_frame (sample_reactor []))" "kept (push_frame (sample_reactor [initial_socket k]))"
proof -
  have "kept (push_frame (sample_reactor socks))"
    if "parked (sample_reactor socks) = {#}" "typed_slots (sample_reactor socks)" "\<forall>k \<in> set socks. \<not> is_enqueued (desc_state k)" for socks
  proof -
    let ?s = "push_frame (sample_reactor socks)"
    have p: "parked ?s = {#}" using that(1) parked_sockets [of ?s "sample_reactor socks"] by (simp add: push_frame_def)
    have "service_inv (timers ?s)" by (simp add: push_frame_def sample_reactor_def service_inv_init)
    moreover have "waiting (timers ?s) = 0" by (simp add: waiting_def push_frame_def sample_reactor_def ts_init_def)
    moreover have "typed_slots ?s" using that(2) typed_slots_cong [of ?s "sample_reactor socks"] by (simp add: push_frame_def)
    moreover have "events_ok ?s" "top_frame ?s" by (simp_all add: events_ok_def top_frame_def push_frame_def sample_reactor_def)
    moreover have "\<not> is_enqueued (desc_of i ?s)" if "i < length socks" for i
      using \<open>\<forall>k \<in> set socks. \<not> is_enqueued (desc_state k)\<close> that by (simp add: sample_view)
    ultimately have "settled ?s"
      using p by (auto simp: settled_def work_ok_def single_def gap_def pending_def sample_view)
    then show ?thesis by (simp add: kept_def push_frame_def sample_reactor_def)
  qed
  moreover have "slots (desc_state (initial_socket k)) = (\<lambda>_. None)" "\<not> is_enqueued (desc_state (initial_socket k))"
    by (simp_all add: initial_socket_def initial_desc_def)
  ultimately
  show "kept (push_frame (sample_reactor []))" "kept (push_frame (sample_reactor [initial_socket k]))"
    by (simp_all add: sample_parked typed_slots_def sample_sockets)
qed


abbreviation idle_clients :: "nat \<Rightarrow> reactor \<Rightarrow> reactor" where
  "idle_clients h \<equiv> run_client True (\<lambda>_. None) h 0"

lemma sample_run: "\<exists>t. run (exec_entry True idle_clients timer_completion) run_task (\<lambda>_ _. None) (sample_reactor []) = Some (1, t) \<and>
    thrown t = None"
proof -
  let ?e = "exec_entry True idle_clients timer_completion" and ?s = "push_frame (sample_reactor [])"
  let ?t = "run_entry ?e (op_entry (post_handler 0)) (?s\<lparr>completed_ops := [task_entry]\<rparr>)"
  have one: "do_one ?e run_task (\<lambda>_ _. None) (-1) ?s = Some (1, ?t)"
    by (subst do_one.simps) (simp add: push_frame_def sample_reactor_def)
  have t: "stopped_flag ?t" "thrown ?t = None"
    by (simp_all add: run_entry_def unlock_and_signal_one_def work_cleanup_def sched_work_finished_def stop_def signal_all_def
        interrupt_reactor_def push_frame_def sample_reactor_def new_context_def find_context_def upd_context_def Let_def)
  then have "do_one ?e run_task (\<lambda>_ _. None) (-1) ?t = Some (0, ?t)" by (subst do_one.simps) simp
  with one t have "do_all ?e run_task (\<lambda>_ _. None) (-1) 0 ?s = Some (1, ?t)"
    by (subst do_all.simps) (subst do_all.simps, simp add: size_max_def)
  moreover have "thrown (pop_frame ?t) = None"
    using t(2) by (auto simp: pop_frame_def drain_thread_queue_def maybe_unlock_and_signal_one_def Let_def split: list.split)
  ultimately show ?thesis by (simp add: run_def guarded_def sample_reactor_def)
qed


text \<open>
  C4: Every call is accounted for once. A call that respects the rule adds its operation to the pending ones, parked
  or queued, exactly when it tells its coroutine to suspend, and changes no other; the count of work and that of
  entries and parked operations move together, and the call does not stop the scheduler while a handler runs.
\<close>

theorem api_call_accounted:
  assumes "may_call c s" "api_step svc h c s = (inline, t)"
  shows "pending t = pending s + call_adds c inline \<and>
    total_work t - (\<Sum>e\<leftarrow>queued t. entry_weight e) - int (size (parked t)) =
      total_work s - (\<Sum>e\<leftarrow>queued s. entry_weight e) - int (size (parked s)) \<and>
    (1 \<le> slack s \<longrightarrow> stopped_flag t = stopped_flag s)"
  using api_step_conserves [OF assms] by (simp add: conserves_def gap_def)

theorem api_call_accounted_witness:
  "\<exists>t. api_step True 3 (call_read 0 [16] no_stop) (sample_reactor [initial_socket stream_socket]) = (False, t) \<and> pending t = {#(0, rd)#}"
proof -
  let ?s = "sample_reactor [initial_socket stream_socket]" and ?c = "call_read 0 [16] no_stop"
  have p: "pending ?s = {#}"
    using sample_parked(2) [of stream_socket] by (simp add: pending_def queued_def private_entries_def find_context_def sample_reactor_def)
  have m: "may_call ?c ?s" using p by (simp add: may_call_def sample_sockets initial_socket_def initial_desc_def)
  obtain inline t where t: "api_step True 3 ?c ?s = (inline, t)" by fastforce
  have "\<not> inline"
    using t by (auto simp: do_read_some_def would_block_def syscall_def upd_op_def upd_sock_def sample_reactor_def Let_def
        split: if_splits)
  with api_call_accounted [OF m t] t p show ?thesis by (auto simp: call_adds_def)
qed





text \<open>
  C35: Closing a stream or datagram socket leaves no operation behind. Every slot of its descriptor state is empty, every
  operation that was parked there or queued is still pending, so that its coroutine will be resumed, the socket has
  no descriptor any more, and a descriptor it had is closed once.
\<close>

theorem close_completes_operations:
  assumes "i < length (sockets s)" "owned (sockets s ! i)" "socket_kind (sockets s ! i) \<noteq> acceptor_socket"
  shows "(\<forall>sl. slot_of i sl (close_socket i s) = None) \<and> pending (close_socket i s) = pending s \<and>
    sock_fd (sockets (close_socket i s) ! i) < 0 \<and>
    closed_fds (close_socket i s) = closed_fds s @ (if sock_fd (sockets s ! i) \<ge> 0 then [sock_fd (sockets s ! i)] else [])"
proof -
  let ?c = "cancel_for_close i s"
  have c: "sock_fd (sockets ?c ! i) = sock_fd (sockets s ! i)" "closed_fds ?c = closed_fds s" "length (sockets ?c) = length (sockets s)"
    using cancel_for_close_view [OF assms(1)] by simp_all
  have "slot_of i sl ?c = None" for sl
    using cancel_for_close_slots [OF assms(1,2)] all_socket_slots [OF assms(3), of sl] by auto
  moreover have "pending (close_socket i s) = pending s" using close_socket_conserves [OF assms(1)] by (simp add: conserves_def)
  ultimately show ?thesis
    using assms(1,3) c
    by (auto simp: close_socket_def do_close_socket_def clear_descriptor_def deregister_descriptor_def upd_desc_def upd_sock_def Let_def)
qed

theorem close_completes_operations_witness:
  "\<forall>sl. slot_of 0 sl (close_socket 0 (sample_reactor [initial_socket stream_socket])) = None"
  using close_completes_operations [of 0 "sample_reactor [initial_socket stream_socket]"]
  by (simp add: sample_sockets initial_socket_def)

text \<open>
  C36: Slots are typed. Whatever calls a coroutine makes between being resumed and suspending, every operation parked in
  a descriptor state stays in the slot of its kind, so that an event is handed to operations that can use it.
\<close>

theorem slots_stay_typed:
  assumes "active s"
  shows "typed_slots (run_client svc program h n s)"
  using run_client_works [OF assms, of svc program h n] assms by (simp add: works_def framed_def active_def work_ok_def)

theorem slots_stay_typed_witness:
  "typed_slots (run_client True (\<lambda>_. Some (call_read 0 [16] no_stop)) 3 2
     (mark_assisted ((push_frame (sample_reactor [initial_socket stream_socket]))\<lparr>completed_ops := [task_entry]\<rparr>)))"
proof (rule slots_stay_typed)
  let ?s = "push_frame (sample_reactor [initial_socket stream_socket])"
  have "settled ?s" "completed_ops ?s = [op_entry (post_handler 0), task_entry]"
    using sample_kept(2) by (simp_all add: kept_def push_frame_def sample_reactor_def)
  from entry_active(1) [OF this] show "active (mark_assisted (?s\<lparr>completed_ops := [task_entry]\<rparr>))" by simp
qed

end
