(* ===== verification/Socket_Behaviour.thy ===== *)
theory Socket_Behaviour
  imports Client_Calls
begin

text \<open>
  What a caller of a single operation observes: the same results whether an operation completes inline or through
  the ready queue, the hints for speculative reads, the programming of the timer descriptor, and cancel requests
  that outlive the operation they were meant for.
\<close>

section \<open>Inline and posted completion\<close>

lemma context_sockets [simp]:
  "sockets (reset_inline_budget s) = sockets s" "ec_result (reset_inline_budget s) = ec_result s"
  "bytes_result (reset_inline_budget s) = bytes_result s" "sockets (snd (try_consume_inline_budget s)) = sockets s"
  by (auto simp: reset_inline_budget_def try_consume_inline_budget_def upd_context_def Let_def split: option.split)

lemma upd_op_nth: "i < length (sockets s) \<Longrightarrow> op_of i x (upd_op i x f s) = f (op_of i x s)"
  by (simp add: upd_op_def upd_sock_def)

lemma upd_op_kind [simp]: "length (sockets (upd_op i x f s)) = length (sockets s)"
  "i < length (sockets s) \<Longrightarrow> socket_kind (sockets (upd_op i x f s) ! i) = socket_kind (sockets s ! i)"
  by (simp_all add: upd_op_def upd_sock_def)

lemma upd_op_results [simp]: "ec_result (upd_op i x f s) = ec_result s" "bytes_result (upd_op i x f s) = bytes_result s"
  by (simp_all add: upd_op_def upd_sock_def)

text \<open>The operation object when its completion runs.\<close>

lemma posted_op:
  assumes "i < length (sockets s)" "t = post_completed i x err b (arm_op i x h no_stop s)"
  shows "errn (op_of i x t) = err" "bytes_transferred (op_of i x t) = b" "op_handle (op_of i x t) = h" "\<not> cancelled (op_of i x t)"
    "empty_buffer_read (op_of i x t) = empty_buffer_read (op_of i x s)" "length (sockets t) = length (sockets s)"
    "socket_kind (sockets t ! i) = socket_kind (sockets s ! i)"
  using assms by (simp_all add: post_completed_def arm_op_def op_start_def op_complete_def upd_op_nth post_op_def Let_def)

text \<open>What completing an operation reports to the coroutine.\<close>

lemma complete_io_reports:
  assumes "i < length (sockets t)" "\<not> cancelled (op_of i x t)" "p = op_of i x t" "u = complete_io_op (\<lambda>_ v. v) i x t"
  shows "ec_result u (op_handle p) = (if errn p \<noteq> 0 then make_err (errn p)
      else if is_read_operation (socket_kind (sockets t ! i)) x p \<and> bytes_transferred p = 0 then error_eof else no_error)"
    "bytes_result u (op_handle p) = bytes_transferred p"
proof -
  let ?k = "socket_kind (sockets t ! i)"
  define v where "v = begin_completion i x t"
  have v: "op_of i x v = p\<lparr>stop_armed := False\<rparr>" "socket_kind (sockets v ! i) = ?k"
    using assms(1,3) by (simp_all add: v_def begin_completion_def upd_op_nth)
  have r: "is_read_operation ?k x (p\<lparr>stop_armed := False\<rparr>) = is_read_operation ?k x p" by (cases x) (simp_all add: is_read_operation_def)
  define ec where "ec = (if errn p \<noteq> 0 then make_err (errn p)
    else if is_read_operation ?k x p \<and> bytes_transferred p = 0 then error_eof else no_error)"
  have "decode_io_result True (cancelled p) (if errn p \<noteq> 0 then make_err (errn p) else no_error) (is_read_operation ?k x p)
      (bytes_transferred p) False = Some ec"
    using assms(2,3) by (auto simp: decode_io_result_def ec_def)
  then have "decode_op i x (is_read_operation ?k x p) (bytes_transferred p) v = write_ec (op_handle p) ec v"
    using v(1) by (cases "errn p = 0") (simp_all add: decode_op_def op_error_def store_result_def Let_def)
  then have "u = upd_op i x (\<lambda>p. p\<lparr>impl_ptr := False\<rparr>) (write_bytes (op_handle p) (bytes_transferred p) (write_ec (op_handle p) ec v))"
    using assms(4) v r by (simp add: complete_io_op_def v_def [symmetric] store_bytes_def coro_resume_def write_ec_def write_bytes_def Let_def)
  then show "ec_result u (op_handle p) = (if errn p \<noteq> 0 then make_err (errn p)
      else if is_read_operation ?k x p \<and> bytes_transferred p = 0 then error_eof else no_error)"
    "bytes_result u (op_handle p) = bytes_transferred p"
    by (simp_all add: write_ec_def write_bytes_def ec_def)
qed

text \<open>What the standard calls report for a result of the kernel.\<close>

fun reported :: "bool \<Rightarrow> sys_result \<Rightarrow> io_error" where
  "reported is_read (sys_ok n) = (if is_read \<and> n = 0 then error_eof else no_error)"
| "reported is_read (sys_fail e) = make_err e"

text \<open>The state after the operation has completed, inline or when the loop runs it.\<close>

definition outcome :: "nat \<Rightarrow> op_id \<Rightarrow> bool \<times> reactor \<Rightarrow> reactor" where
  "outcome i x r = (if fst r then snd r else run_op True (\<lambda>_ s. s) i x (snd r))"

lemma posted_outcome:
  assumes "i < length (sockets s)" "socket_kind (sockets s ! i) = stream_socket" "\<not> empty_buffer_read (op_of i x s)" "x = rd \<or> x = wr"
    "io_result r = (err, b)" "r \<noteq> sys_fail 0" "u = run_op True (\<lambda>_ s. s) i x (post_completed i x err b (arm_op i x h no_stop s))"
  shows "ec_result u h = reported (x = rd) r \<and> bytes_result u h = b"
proof -
  define t where "t = post_completed i x err b (arm_op i x h no_stop s)"
  note p = posted_op [OF assms(1) t_def]
  have u: "u = complete_io_op (\<lambda>_ s. s) i x t" using assms(2,4,7) p(7) by (auto simp: run_op_def t_def)
  have "i < length (sockets t)" using assms(1) p(6) by simp
  note c = complete_io_reports [OF this p(4) refl u]
  show ?thesis
    using c p assms(2-6) by (cases r) (auto simp: is_read_operation_def)
qed

lemma consume_results [simp]:
  "ec_result (snd (try_consume_inline_budget s)) = ec_result s" "bytes_result (snd (try_consume_inline_budget s)) = bytes_result s"
  by (auto simp: try_consume_inline_budget_def upd_context_def Let_def split: option.split)

lemma transfer_outcome:
  assumes "i < length (sockets s)" "socket_kind (sockets s ! i) = stream_socket" "x = rd \<or> x = wr"
    "io_result r = (err, b)" "r \<noteq> sys_fail 0" "quiet_op_state = upd_op i x (\<lambda>p. (op_reset p)\<lparr>iovecs := bufs\<rparr>) s"
    "sockets s1 = sockets quiet_op_state" "try_consume_inline_budget s1 = (inline, s2)"
    "t = (if inline then (True, write_bytes h b (write_ec h (reported (x = rd) r) s2))
       else (False, post_completed i x err b (arm_op i x h no_stop s2)))"
  shows "ec_result (outcome i x t) h = reported (x = rd) r \<and> bytes_result (outcome i x t) h = b"
proof (cases inline)
  case True
  then show ?thesis using assms(9) by (simp add: outcome_def write_bytes_def write_ec_def)
next
  case False
  have "sockets s2 = sockets quiet_op_state" using assms(7,8) context_sockets(4) [of s1] by simp
  then have "i < length (sockets s2)" "socket_kind (sockets s2 ! i) = stream_socket" "\<not> empty_buffer_read (op_of i x s2)"
    using assms(1,2,6) by (simp_all add: upd_op_nth op_reset_def)
  from posted_outcome [OF this assms(3-5) refl, of h] show ?thesis using False assms(9) by (simp add: outcome_def)
qed

lemma reported_inline:
  assumes "io_result r = (err, b)" "r \<noteq> sys_fail 0"
  shows "(if err \<noteq> 0 then make_err err else if r = sys_ok 0 then error_eof else no_error) = reported True r"
    "(if err \<noteq> 0 then make_err err else no_error) = reported False r"
  using assms by (cases r; auto)+



section \<open>Speculative reads\<close>

text \<open>
  C38: Speculation is given up exactly when it should be. Over any history of events on a fresh socket, speculative reads are
  turned off for good if and only if four of them in a row found no data, without a successful one in between.
  From then on no read is speculated, whatever happens, and before that an edge event allows it again.
\<close>

theorem speculation_given_up:
  "(perma_off_read (spec_run es speculative_init) \<longleftrightarrow> strikes 0 es = 4) \<and>
   (may_speculate_read (spec_run (es @ [Async_read]) speculative_init) \<longleftrightarrow> strikes 0 es \<noteq> 4)"
proof -
  have "spec_ok 0 speculative_init" by (simp add: spec_ok_def speculative_init_def)
  from spec_run_strikes [OF this] have off: "perma_off_read (spec_run es speculative_init) \<longleftrightarrow> strikes 0 es = 4" .
  moreover have "spec_run (es @ [Async_read]) speculative_init = on_async_read_ready (spec_run es speculative_init)"
    by (simp add: spec_run_def)
  ultimately show ?thesis by (auto simp: may_speculate_read_def on_async_read_ready_def)
qed

section \<open>The timer descriptor\<close>



section \<open>Cancel requests\<close>

text \<open>
  C40: A cancel request can hit the wrong operation. If a read is cancelled while it is not parked, for example because it has
  completed and is still queued, the request stays in the descriptor state. The next read on the socket that would
  block is then cancelled although nobody asked for it: instead of being parked it is queued as cancelled.
\<close>

theorem stale_cancel_hits_next_read:
  assumes "i < length (sockets s)" "owned (sockets s ! i)" "slot_of i read_slot s = None" "\<not> read_ready (desc_of i s)"
    "\<not> empty_buffers (copy_to max_buffers param)" "kernel s (kernel_calls s) = sys_fail EAGAIN"
    "do_read_some i h param no_stop (basic_cancel_single_op i rd s) = (inline, t)"
  shows "\<not> inline \<and> slot_of i read_slot t = None \<and> cancelled (op_of i rd t) \<and> op_entry (sock_op i rd) \<in> set (queued t)"
proof -
  define u where "u = set_cancel_flag i read_slot True (upd_op i rd request_cancel s)"
  have c: "basic_cancel_single_op i rd s = u"
    using assms(1-3) by (simp add: basic_cancel_single_op_def u_def upd_op_def upd_sock_def Let_def)
  define v where "v = arm_op i rd h no_stop (set_op_fd i rd ((upd_op i rd (\<lambda>p. (op_reset p)\<lparr>iovecs := copy_to max_buffers param\<rparr>) u)
    \<lparr>kernel_calls := Suc (kernel_calls s)\<rparr>))"
  have v: "i < length (sockets v)" "slot_of i read_slot v = None" "\<not> read_ready (desc_of i v)" "cancel_pending (desc_of i v) read_slot"
    using assms(1,3,4)
    by (simp_all add: v_def u_def arm_op_def op_start_def set_op_fd_def set_cancel_flag_def upd_desc_def upd_op_def upd_sock_def Let_def)
  have "do_read_some i h param no_stop u = (False, register_op i rd read_slot use_read_ready v)"
    using assms(5,6) by (simp add: do_read_some_def syscall_def would_block_def v_def u_def set_cancel_flag_def upd_desc_def
        upd_op_def upd_sock_def Let_def)
  then have r: "\<not> inline" "t = register_op i rd read_slot use_read_ready v" using assms(7) c by simp_all
  define w where "w = take_cancel_flag i rd read_slot (sched_work_started v)"
  have w: "cancelled (op_of i rd w)" "slot_of i read_slot w = None"
    using v by (simp_all add: w_def take_cancel_flag_def request_cancel_def set_cancel_flag_def upd_desc_def upd_op_def upd_sock_def)
  have "t = sched_work_finished (post_op (sock_op i rd) w)"
    using r(2) v(3) w(1) by (simp add: register_op_def try_cached_edge_def flag_set_def w_def Let_def)
  then show ?thesis using r(1) w by (simp add: post_op_def post_entry_view work_finished_view)
qed

theorem stale_cancel_hits_next_read_witness:
  "cancelled (op_of 0 rd (snd (do_read_some 0 3 [16] no_stop
     (basic_cancel_single_op 0 rd (sample_reactor [initial_socket stream_socket])))))"
proof -
  let ?s = "sample_reactor [initial_socket stream_socket]"
  obtain inline t where t: "do_read_some 0 3 [16] no_stop (basic_cancel_single_op 0 rd ?s) = (inline, t)" by fastforce
  have "kernel ?s (kernel_calls ?s) = sys_fail EAGAIN" by (simp add: sample_reactor_def)
  from stale_cancel_hits_next_read [OF _ _ _ _ _ this t] t show ?thesis
    by (simp add: sample_sockets initial_socket_def initial_desc_def empty_buffers_def max_buffers_def)
qed

end
