(* ===== verification/Spec2Isabelle.thy ===== *)
theory Spec2Isabelle
  imports Endpoint_Convert Ready_Queue Timer_Correctness Socket_Behaviour
begin

text \<open>
  Verification of Boost.Corosio, a coroutine-based input/output library.

  \<^bold>\<open>Parts of the program and where they are modelled.\<close> Names of files are relative to
  \<^verbatim>\<open>src/include/boost/corosio\<close>.

  \<^item> Addresses and endpoints. \<open>Ipv4_Address\<close> and \<open>Ipv6_Address\<close> model the value classes, printers and
    parsers of \<^verbatim>\<open>ipv4_address.hpp\<close>, \<^verbatim>\<open>ipv6_address.hpp\<close> and their sources; \<open>Ipv6_Roundtrip\<close> relates
    printer and parser. \<open>Endpoint\<close> models \<^verbatim>\<open>endpoint.hpp\<close> and \<^verbatim>\<open>local_endpoint.hpp\<close>, \<open>Endpoint_Convert\<close> the
    conversions of \<^verbatim>\<open>native/detail/endpoint_convert.hpp\<close>. Texts are character lists, addresses are words
    and lists of bytes, and every array access of the IPv6 parser is checked.
  \<^item> Queues. \<open>Intrusive\<close> models \<^verbatim>\<open>detail/intrusive.hpp\<close> and \<open>Ready_Queue\<close> models \<^verbatim>\<open>detail/ready_queue.hpp\<close>
    over explicit stores of links. The locale \<open>fifo\<close> states what a queue promises; both
    containers and the tagged queue are interpretations of it.
  \<^item> Timers. \<open>Timer_Service\<close> models \<^verbatim>\<open>detail/timer_service.hpp\<close>, \<^verbatim>\<open>detail/timer.hpp\<close> and \<^verbatim>\<open>timer.cpp\<close>:
    the array heap with the indices stored in the timers, waiters, cancellation, expiry,
    recycling and shutdown. \<open>Timer_Heap\<close> holds the theory of array heaps with one defect.

  \<^item> Scheduler. \<open>Op_Completion\<close> holds error codes, results of system calls, their decoding and the hint for speculative
    calls (\<^verbatim>\<open>native/detail/make_err.hpp\<close>, \<^verbatim>\<open>coro_op_complete.hpp\<close>, \<^verbatim>\<open>speculative_state.hpp\<close>). \<open>Reactor_Scheduler\<close>
    models \<^verbatim>\<open>native/detail/reactor/reactor_scheduler.hpp\<close>: the record \<open>reactor_scheduler\<close> has the shared queue and work
    count, the context frames of the running thread with their private queue and count, the inline budget and the signal
    word; \<open>do_one\<close> is the event loop, and \<open>run\<close>, \<open>run_one\<close>, \<open>wait_one\<close>, \<open>poll_all\<close> and \<open>poll_one\<close> are built on it as in
    the code. \<open>Scheduler_Properties\<close> shows what a call of the loop returns.
  \<^item> Sockets and acceptors. \<open>Reactor_State\<close> extends the scheduler to the record \<open>reactor\<close> with sockets, their descriptor
    states and operation objects, the answers of the kernel, the timers and the epoll descriptors, and models the shared
    steps: registering, cancelling, closing, releasing (\<^verbatim>\<open>reactor_basic_socket.hpp\<close>, \<^verbatim>\<open>reactor_op.hpp\<close>). The calls are in
    \<open>Reactor_Stream\<close>, \<open>Reactor_Datagram\<close> and \<open>Reactor_Acceptor\<close>, after the headers of the same names and the services;
    the completion handlers and \<open>invoke_deferred_io\<close> are in \<open>Reactor_Dispatch\<close>
    (\<^verbatim>\<open>reactor_op_complete.hpp\<close>, \<^verbatim>\<open>reactor_descriptor_state.hpp\<close>).
  \<^item> Polling. \<open>Epoll_Scheduler\<close> models \<open>run_task\<close>, the timer descriptor and interruption
    (\<^verbatim>\<open>native/detail/epoll/epoll_scheduler.hpp\<close>), the completion of a timer wait (\<^verbatim>\<open>timer.cpp\<close>) and the timed run functions
    (\<^verbatim>\<open>io_context.hpp\<close>).

  How the parts interact: a coroutine calls an operation of a socket; it completes inline within a budget, is posted to the
  ready queue, or is parked in a slot of the descriptor state. The loop takes entries from the ready queue; the sentinel
  among them makes it poll the kernel, which queues descriptor states and, through the timer service, expired waits. A queued
  descriptor state retries its parked operations and completes them. A work count decides when the loop ends.

  \<^bold>\<open>What is shown.\<close> Parsers accept exactly the texts the printers produce where the code intends it,
  printers never exceed their buffers, comparison operators are total orders, socket addresses
  round-trip. The queues are first in, first out for every sequence of operations.
  \<open>Timer_Invariant\<close> and \<open>Timer_Properties\<close> relate each heap operation and each service operation to its
  effect on the set of entries, \<open>Timer_Steps\<close> does so for setting an expiry, waiting and expiry processing,
  \<open>Timer_Lifecycle\<close> defines the transition system whose steps are the operations of the service and
  shows that every step keeps the invariant, and \<open>Timer_Correctness\<close> holds the properties.

  The central result about the reactor is a balance between the work that is counted and the work that exists.
  \<open>Reactor_Balance\<close> defines the multiset of pending operations, the gap between the counter and the weights of entries and
  parked operations, and shows how each step of a socket changes them; \<open>Reactor_Conservation\<close> does so for closing,
  accepting and deferred input and output. \<open>Reactor_Loop\<close> states what the loop expects of a resumed coroutine as the locale
  \<open>coroutines\<close> and shows that every entry keeps the balance; \<open>Event_Loop\<close> shows it for the poll, states the contract of
  loop, entries and poll as the locale \<open>event_loop\<close>, of which \<open>coroutines\<close> with \<open>run_task\<close> is an instance, and concludes what
  holds when \<open>run\<close> returns. \<open>Client_Calls\<close> interprets \<open>coroutines\<close> on coroutines that make arbitrary admissible calls of
  the modelled sockets and acceptors, and holds the resulting properties. \<open>Socket_Behaviour\<close> has properties of single
  operations: inline and queued completion agree, speculation, the timer descriptor, and a cancel request that hits the wrong
  operation.

  \<^bold>\<open>Assumptions.\<close> The answers of the kernel are an arbitrary function of the number of calls made; \<open>events_ok\<close> says that epoll
  reports only descriptors of existing sockets. A client has at most one operation of a kind outstanding on a socket
  (\<open>may_call\<close>). In the results about the loop one thread runs it, coroutines leave the timers alone while they run, and
  the wait of a timer was counted when it began.

  \<^bold>\<open>Bounds.\<close> The loop of \<open>process_expired\<close> is a partial function; it is shown to return because
  each round removes an entry from the heap. The event loop, its repetitions and the timed run functions are partial
  functions, since they may block for ever; the poll is shown to return always. All other loops are total functions with
  termination proofs. Heaps are assumed to be shorter than \<open>npos\<close>, the largest value of \<^verbatim>\<open>std::size_t\<close>. Work
  counts are integers; the inline budget is an \<^verbatim>\<open>int\<close> that wraps around.

  \<^bold>\<open>Not modelled.\<close> Locking and memory order: each locked section is one step. Coroutine frames are
  identities, and resumption is an argument of the model or recorded. The executor and the stop tokens of the capy library, the
  clock and the operating system are outside the sources and are arguments or recorded effects.
  The back ends kqueue, select, io_uring and IOCP, signals, files and their thread pool, the resolver, TLS streams, the
  TCP server, socket options and the test mocks are not modelled: their behaviour is mostly that of system interfaces and
  foreign libraries. Of the modelled parts, the constructor of the epoll scheduler and adopting an existing Unix descriptor
  are left out.
\<close>

end
